(* ===== verification/Prelude.thy ===== *)
theory Prelude
  imports Main "HOL-Library.Mapping" "HOL-Library.AList_Mapping" "HOL-Library.Multiset"
begin

text \<open>
  Shared vocabulary of the development.

  \<^item> Go's scalar types as the program uses them: \<open>int64\<close> event identifiers and positions,
    \<open>time.Time\<close> instants and \<open>time.Duration\<close> lengths (both in nanoseconds) are HOL integers.
    None of the arithmetic on them wraps in the code modelled here except where a theory says
    so and writes the width out.
  \<^item> \<open>json\<close>: a JSON document. A \<open>json.RawMessage\<close> is \<open>json option\<close>, \<open>None\<close> being the nil
    slice. Documents enter the system through \<open>json.Marshal\<close>, so a stored body is always a
    well-formed document, which is why \<open>json.Unmarshal\<close> into a \<open>RawMessage\<close> returns it as it is.
  \<^item> \<open>goerror\<close>: the error values of the program, one constructor per error type of the source.
  \<^item> \<open>outcome\<close>: what a call gives its caller: a value, an error, or a run-time panic.
  \<^item> Go maps are \<open>mapping\<close>s. The order in which \<open>range\<close> visits a map is not specified by Go:
    an operation that ranges over a map takes the visiting order as an argument, and
    \<open>range_order\<close> says that an order visits exactly the keys, each once.
\<close>

subsection \<open>Scalars, documents, errors, outcomes\<close>

type_synonym int64 = int
type_synonym time = int
type_synonym duration = int

datatype json =
    JNull
  | JBool bool
  | JNum int
  | JStr string
  | JArr "json list"
  | JObj "(string \<times> json) list"

type_synonym raw_message = "json option"

datatype goerror =
    LockNotHeldError string string string string
      \<comment> \<open>consumer, holder, domain, stream\<close>
  | LockExpiredError string string string
      \<comment> \<open>consumer, domain, stream\<close>
  | HeartbeatConflictError int64 int64
      \<comment> \<open>target version, current version\<close>
  | TTLTooLowError duration duration
      \<comment> \<open>provided, minimum\<close>
  | LockNotFoundError string string string string
      \<comment> \<open>domain, stream, consumer, holder\<close>
  | StreamNotFoundError string string
      \<comment> \<open>domain, stream\<close>
  | BackwardPositionError string int64 int64
      \<comment> \<open>consumer, current, requested\<close>
  | OperationError string goerror
      \<comment> \<open>operation, underlying\<close>
  | RecoverableError goerror
  | NoSuchIDError string string int64
      \<comment> \<open>app, stream, identifier\<close>
  | EmptyQueryError
  | ContextError bool
      \<comment> \<open>\<open>True\<close>: deadline exceeded, \<open>False\<close>: cancelled\<close>
  | DriverError string
      \<comment> \<open>an error of a library or service the program calls\<close>
  | TextError string
      \<comment> \<open>\<open>errors.New\<close> and \<open>fmt.Errorf\<close>\<close>
  | StatusError string string
      \<comment> \<open>a gRPC status: code, message\<close>
  | JoinError "goerror list"
      \<comment> \<open>\<open>errors.Join\<close>\<close>
  | TransportError goerror
  | BadResponseCode string int
      \<comment> \<open>URL, status\<close>

datatype 'a outcome = Ok 'a | Err goerror | Panic string

text \<open>Sequencing: an error return or a panic of a call ends the caller.\<close>

fun bindo :: "'a outcome \<Rightarrow> ('a \<Rightarrow> 'b outcome) \<Rightarrow> 'b outcome" where
  "bindo (Ok x) f = f x"
| "bindo (Err e) f = Err e"
| "bindo (Panic p) f = Panic p"

text \<open>
  \<open>errors.Join\<close> of two values: nil values are dropped, and nil is returned when nothing is
  left.
\<close>

fun join_err :: "goerror option \<Rightarrow> goerror option \<Rightarrow> goerror option" where
  "join_err None None = None"
| "join_err (Some a) None = Some (JoinError [a])"
| "join_err None (Some b) = Some (JoinError [b])"
| "join_err (Some a) (Some b) = Some (JoinError [a, b])"

definition is_ok :: "'a outcome \<Rightarrow> bool" where
  "is_ok r = (case r of Ok _ \<Rightarrow> True | _ \<Rightarrow> False)"

text \<open>
  A \<open>for ... range\<close> loop whose body updates the state \<open>'s\<close> and may return an error: the first error
  (or panic) ends the loop.
\<close>

fun for_each :: "('x \<Rightarrow> 's \<Rightarrow> 's \<times> unit outcome) \<Rightarrow> 'x list \<Rightarrow> 's \<Rightarrow> 's \<times> unit outcome" where
  "for_each body [] s = (s, Ok ())"
| "for_each body (x # xs) s =
     (case body x s of
        (s', Ok _) \<Rightarrow> for_each body xs s'
      | (s', Err e) \<Rightarrow> (s', Err e)
      | (s', Panic p) \<Rightarrow> (s', Panic p))"

text \<open>A loop that builds a list from what a call returns for each element.\<close>

fun traverse :: "('a \<Rightarrow> 'b outcome) \<Rightarrow> 'a list \<Rightarrow> 'b list outcome" where
  "traverse f [] = Ok []"
| "traverse f (x # xs) = bindo (f x) (\<lambda>y. bindo (traverse f xs) (\<lambda>ys. Ok (y # ys)))"

subsection \<open>Maps and the order of \<open>range\<close>\<close>

definition range_order :: "('k, 'v) mapping \<Rightarrow> 'k list \<Rightarrow> bool" where
  "range_order m ks \<longleftrightarrow> distinct ks \<and> set ks = Mapping.keys m"

text \<open>Collections of facts that the component theories extend.\<close>

named_theorems model_defs \<open>definitions unfolded by the component proofs\<close>
named_theorems frame_simps \<open>fields that an operation leaves alone\<close>

subsection \<open>Lemmas on outcomes and maps\<close>

lemma is_ok_simps [simp]:
  "is_ok (Ok x)" "\<not> is_ok (Err e)" "\<not> is_ok (Panic p)"
  by (simp_all add: is_ok_def)

lemma is_ok_iff: "is_ok r \<longleftrightarrow> (\<exists>x. r = Ok x)"
  by (cases r) simp_all

lemma bindo_eq_Ok [simp]: "bindo m f = Ok y \<longleftrightarrow> (\<exists>x. m = Ok x \<and> f x = Ok y)"
  by (cases m) auto

lemma traverse_map: "(\<And>x. x \<in> set xs \<Longrightarrow> f x = Ok (g x)) \<Longrightarrow> traverse f xs = Ok (map g xs)"
  by (induction xs) simp_all

lemma traverse_eq_Ok: "traverse f xs = Ok ys \<longleftrightarrow> list_all2 (\<lambda>x y. f x = Ok y) xs ys"
  by (induction xs arbitrary: ys) (auto simp: list_all2_Cons1)

lemma bindo_assoc: "bindo (bindo m f) g = bindo m (\<lambda>x. bindo (f x) g)"
  by (cases m) auto

lemma for_each_fold:
  "(\<And>x s. x \<in> set xs \<Longrightarrow> body x s = (g x s, Ok ())) \<Longrightarrow> for_each body xs s = (fold g xs s, Ok ())"
  by (induction xs arbitrary: s) auto

lemma for_each_inv:
  "(\<And>x s. x \<in> set xs \<Longrightarrow> I s \<Longrightarrow> I (fst (body x s))) \<Longrightarrow> I s \<Longrightarrow> I (fst (for_each body xs s))"
proof (induction xs arbitrary: s)
  case Nil
  then show ?case by simp
next
  case (Cons x xs)
  obtain s' r where b: "body x s = (s', r)" by fastforce
  with Cons.prems have "I s'" by (metis fst_conv list.set_intros(1))
  with Cons b show ?case by (cases r) auto
qed

lemma for_each_ok: "(\<And>x s. x \<in> set xs \<Longrightarrow> is_ok (snd (body x s))) \<Longrightarrow> is_ok (snd (for_each body xs s))"
proof (induction xs arbitrary: s)
  case (Cons x xs)
  obtain s' r where b: "body x s = (s', r)" by fastforce
  with Cons.prems[of x s] have "is_ok r" by simp
  with Cons b show ?case by (auto simp: is_ok_iff)
qed simp

lemma fold_append_concat: "fold (\<lambda>x acc. acc @ f x) xs acc = acc @ concat (map f xs)"
  by (induction xs arbitrary: acc) simp_all

lemma join_err_None [simp]: "join_err a b = None \<longleftrightarrow> a = None \<and> b = None"
  by (cases a; cases b) auto

lemma mapping_lookup_update_if [simp]:
  "Mapping.lookup (Mapping.update k v m) k' = (if k' = k then Some v else Mapping.lookup m k')"
  by (simp add: Mapping.lookup_update')

lemma mapping_lookup_delete_if [simp]:
  "Mapping.lookup (Mapping.delete k m) k' = (if k' = k then None else Mapping.lookup m k')"
  by (cases "k' = k") simp_all

lemma range_orderI: "distinct ks \<Longrightarrow> set ks = Mapping.keys m \<Longrightarrow> range_order m ks"
  by (simp add: range_order_def)

lemma range_order_mem: "range_order m ks \<Longrightarrow> k \<in> set ks \<longleftrightarrow> Mapping.lookup m k \<noteq> None"
  by (auto simp: range_order_def Mapping.keys_dom_lookup)

lemma range_order_distinct: "range_order m ks \<Longrightarrow> distinct ks"
  by (simp add: range_order_def)

lemma update_same_lookup [simp]:
  "Mapping.lookup m k = Some v \<Longrightarrow> Mapping.update k v m = m"
  by (rule mapping_eqI) simp

lemma delete_absent [simp]: "Mapping.lookup m k = None \<Longrightarrow> Mapping.delete k m = m"
  by (rule mapping_eqI) simp

lemma mapping_is_empty_lookup: "Mapping.is_empty m \<longleftrightarrow> (\<forall>k. Mapping.lookup m k = None)"
  by (auto simp: Mapping.is_empty_def Mapping.keys_dom_lookup)

lemma filter_set_empty: "(\<forall>x \<in> set xs. \<not> P x) \<Longrightarrow> filter P xs = []"
  by (simp add: filter_empty_conv)

lemma for_each_append_list:
  "for_each f (xs @ ys) s =
     (case for_each f xs s of (s', Ok _) \<Rightarrow> for_each f ys s' | (s', Err e) \<Rightarrow> (s', Err e)
      | (s', Panic p) \<Rightarrow> (s', Panic p))"
  by (induction xs arbitrary: s) (auto split: prod.splits outcome.splits)

lemma for_each_concat: "for_each f (concat xss) s = for_each (for_each f) xss s"
  by (induction xss arbitrary: s) (auto simp: for_each_append_list split: prod.splits outcome.splits)

lemma for_each_map: "for_each f (map g xs) s = for_each (\<lambda>x. f (g x)) xs s"
  by (induction xs arbitrary: s) (auto split: prod.splits outcome.splits)

lemma for_each_cong:
  "(\<And>x s. x \<in> set xs \<Longrightarrow> f x s = g x s) \<Longrightarrow> for_each f xs s = for_each g xs s"
  by (induction xs arbitrary: s) (auto split: prod.splits outcome.splits)

text \<open>Two loops whose bodies simulate each other through \<open>h\<close> simulate each other.\<close>

lemma for_each_sim:
  assumes "\<And>x s. g x (h s) = (case f x s of (s', r) \<Rightarrow> (h s', r))"
  shows "for_each g xs (h s) = (case for_each f xs s of (s', r) \<Rightarrow> (h s', r))"
  by (induction xs arbitrary: s) (auto simp: assms split: prod.splits outcome.splits)

subsection \<open>Searching lists\<close>

lemma find_map_key:
  "(\<And>r. r \<in> set xs \<Longrightarrow> P (f r) = P r) \<Longrightarrow> List.find P (map f xs) = map_option f (List.find P xs)"
  by (induction xs) auto

lemma find_filter_keep:
  "List.find P xs = Some r \<Longrightarrow> Q r \<Longrightarrow> List.find P (filter Q xs) = Some r"
  by (induction xs) (auto split: if_splits)

lemma find_filter_all:
  "(\<And>r. r \<in> set xs \<Longrightarrow> P r \<Longrightarrow> Q r) \<Longrightarrow> List.find P (filter Q xs) = List.find P xs"
  by (induction xs) auto

lemma find_None_iff2: "List.find P xs = None \<longleftrightarrow> (\<forall>x \<in> set xs. \<not> P x)"
  by (auto simp: find_None_iff)

lemma find_SomeD: "List.find P xs = Some r \<Longrightarrow> r \<in> set xs \<and> P r"
  by (induction xs) (auto split: if_splits)

lemma distinct_map_eq: "distinct (map f xs) \<Longrightarrow> x \<in> set xs \<Longrightarrow> y \<in> set xs \<Longrightarrow> f x = f y \<Longrightarrow> x = y"
  by (auto simp: distinct_map inj_on_def)

lemma find_unique:
  "distinct (map f xs) \<Longrightarrow> r \<in> set xs \<Longrightarrow> List.find (\<lambda>x. f x = f r) xs = Some r"
  by (induction xs) (auto simp: image_iff)

lemma find_append: "List.find P (xs @ ys) = (case List.find P xs of Some r \<Rightarrow> Some r | None \<Rightarrow> List.find P ys)"
  by (induction xs) auto

text \<open>Resuming in an increasing list: what lies beyond the last of the first \<open>k\<close> elements.\<close>

lemma filter_beyond_last:
  fixes f :: "'a \<Rightarrow> 'b :: linorder"
  assumes "sorted_wrt (<) (b # map f xs)" "k \<le> length xs"
    and "m = (if take k xs = [] then b else last (map f (take k xs)))"
  shows "filter (\<lambda>x. m < f x) xs = drop k xs \<and> sorted_wrt (<) (m # map f (drop k xs)) \<and> b \<le> m"
  using assms
proof (induction xs arbitrary: b k m)
  case (Cons x xs)
  show ?case
  proof (cases k)
    case 0
    with Cons.prems show ?thesis by (auto simp: filter_id_conv)
  next
    case (Suc k')
    have "m = (if take k' xs = [] then f x else last (map f (take k' xs)))" using Cons.prems(3) Suc by auto
    from Cons.IH[OF _ _ this] Cons.prems Suc show ?thesis by auto
  qed
qed simp



end
