(* ===== verification/Durations.thy ===== *)
theory Durations
  imports Prelude
begin

text \<open>
  Durations and the guarantee fraction of \<open>src/pkg/v1/lock.go\<close>.

  A \<open>time.Duration\<close> is a number of nanoseconds. The lock code scales a TTL by
  \<open>DefaultGuaranteeFraction = 0.9\<close> through \<open>time.Duration(float64(ttl) * 0.9)\<close>: the TTL is
  converted to an IEEE double, multiplied by the double nearest to \<open>0.9\<close> (which is
  \<open>8106479329266893 / 2 ^ 53\<close>), and the product is truncated. \<open>float64_of_nat\<close> and
  \<open>scale09\<close> compute exactly that, with round-to-nearest-even at 53 significant bits; a double
  that is an integer multiple of \<open>2 ^ -53\<close> is represented by its numerator. The lemmas bound the result, so that the lock
  theories need not look at the rounding again.
\<close>

definition second :: duration where
  "second = 1000000000"

definition LockMinimumTTL :: duration where
  "LockMinimumTTL = 6 * second"

definition DefaultLockTTL :: duration where
  "DefaultLockTTL = 30 * second"

text \<open>Number of binary digits of a natural number beyond the 53 that a double keeps.\<close>

fun excess_bits :: "nat \<Rightarrow> nat" where
  "excess_bits n = (if n < 9007199254740992 then 0 else Suc (excess_bits (n div 2)))"

declare excess_bits.simps [simp del]

text \<open>Round to a multiple of \<open>2 ^ e\<close>, ties to the even multiple.\<close>

definition round_even :: "nat \<Rightarrow> nat \<Rightarrow> nat" where
  "round_even e n =
     (let q = n div 2 ^ e; r = n mod 2 ^ e
      in (if 2 * r < 2 ^ e \<or> (2 * r = 2 ^ e \<and> even q) then q else Suc q) * 2 ^ e)"

definition float64_of_nat :: "nat \<Rightarrow> nat" where
  "float64_of_nat n = round_even (excess_bits n) n"

text \<open>\<open>0.9\<close> as a double, in units of \<open>2 ^ -53\<close>.\<close>

definition DefaultGuaranteeFraction :: nat where
  "DefaultGuaranteeFraction = 8106479329266893"

text \<open>\<open>time.Duration(float64(d) * 0.9)\<close>; rounding and truncation are symmetric in the sign.\<close>

definition scale09 :: "duration \<Rightarrow> duration" where
  "scale09 d =
     sgn d * int (float64_of_nat (float64_of_nat (nat \<bar>d\<bar>) * DefaultGuaranteeFraction)
                    div 9007199254740992)"

subsection \<open>Rounding bounds\<close>

lemma excess_bits_small [simp]: "n < 9007199254740992 \<Longrightarrow> excess_bits n = 0"
  by (simp add: excess_bits.simps)

lemma excess_bits_bound: "excess_bits n \<noteq> 0 \<Longrightarrow> 4503599627370496 * 2 ^ excess_bits n \<le> n"
proof (induction n rule: excess_bits.induct)
  case (1 n)
  show ?case
  proof (cases "n < 9007199254740992")
    case True
    with 1 show ?thesis by simp
  next
    case False
    then have eq: "excess_bits n = Suc (excess_bits (n div 2))"
      by (simp add: excess_bits.simps[of n])
    show ?thesis
    proof (cases "excess_bits (n div 2) = 0")
      case True
      with eq False show ?thesis by simp
    next
      case nz: False
      with 1 False have "4503599627370496 * 2 ^ excess_bits (n div 2) \<le> n div 2" by simp
      with eq show ?thesis by simp
    qed
  qed
qed

lemma round_even_cases:
  obtains q r where "n = q * 2 ^ e + r" "r < 2 ^ e"
    "round_even e n = q * 2 ^ e \<and> 2 * r \<le> 2 ^ e \<or> round_even e n = q * 2 ^ e + 2 ^ e \<and> 2 ^ e \<le> 2 * r"
proof -
  let ?q = "n div 2 ^ e" and ?r = "n mod 2 ^ e"
  have "round_even e n = ?q * 2 ^ e \<and> 2 * ?r \<le> 2 ^ e
      \<or> round_even e n = ?q * 2 ^ e + 2 ^ e \<and> 2 ^ e \<le> 2 * ?r"
    by (auto simp: round_even_def Let_def)
  moreover have "n = ?q * 2 ^ e + ?r" by (rule div_mult_mod_eq[symmetric])
  ultimately show thesis by (intro that[of ?q ?r]) auto
qed

lemma round_even_upper: "2 * round_even e n \<le> 2 * n + 2 ^ e"
  by (rule round_even_cases[of n e]) linarith

lemma round_even_lower: "2 * n \<le> 2 * round_even e n + 2 ^ e"
  by (rule round_even_cases[of n e]) linarith

lemma round_even_0 [simp]: "round_even 0 n = n"
  by (simp add: round_even_def)

lemma float64_upper: "9007199254740992 * float64_of_nat n \<le> 9007199254740993 * n"
proof (cases "excess_bits n = 0")
  case True
  then show ?thesis by (simp add: float64_of_nat_def)
next
  case False
  from excess_bits_bound[OF this] round_even_upper[of "excess_bits n" n]
  show ?thesis by (simp add: float64_of_nat_def)
qed

lemma float64_lower: "9007199254740991 * n \<le> 9007199254740992 * float64_of_nat n"
proof (cases "excess_bits n = 0")
  case True
  then show ?thesis by (simp add: float64_of_nat_def)
next
  case False
  from excess_bits_bound[OF this] round_even_lower[of n "excess_bits n"]
  show ?thesis by (simp add: float64_of_nat_def)
qed

lemma float64_exact [simp]: "n < 9007199254740992 \<Longrightarrow> float64_of_nat n = n"
  by (simp add: float64_of_nat_def)

lemma scale09_nonneg: "0 \<le> d \<Longrightarrow> 0 \<le> scale09 d"
  by (cases "d = 0") (simp_all add: scale09_def)

lemma scale09_less:
  assumes "0 < d"
  shows "scale09 d < d"
proof -
  define x where "x = nat d"
  define y where "y = float64_of_nat x"
  define p where "p = float64_of_nat (y * DefaultGuaranteeFraction)"
  from assms have x: "0 < x" "int x = d" by (simp_all add: x_def)
  have y: "9007199254740992 * y \<le> 9007199254740993 * x"
    unfolding y_def by (rule float64_upper)
  have "9007199254740992 * p \<le> 9007199254740993 * (y * DefaultGuaranteeFraction)"
    unfolding p_def by (rule float64_upper)
  with y x(1) have "p < 9007199254740992 * x"
    by (simp add: DefaultGuaranteeFraction_def)
  then have "p div 9007199254740992 < x" by (simp add: div_less_iff_less_mult mult.commute)
  with assms x show ?thesis
    by (simp add: scale09_def p_def y_def x_def)
qed

lemma scale09_lower:
  assumes "0 \<le> d"
  shows "89 * d \<le> 100 * scale09 d + 100"
proof -
  define x where "x = nat d"
  define y where "y = float64_of_nat x"
  define p where "p = float64_of_nat (y * DefaultGuaranteeFraction)"
  from assms have x: "int x = d" by (simp add: x_def)
  have y: "9007199254740991 * x \<le> 9007199254740992 * y"
    unfolding y_def by (rule float64_lower)
  have "9007199254740991 * (y * DefaultGuaranteeFraction) \<le> 9007199254740992 * p"
    unfolding p_def by (rule float64_lower)
  with y have "89 * 9007199254740992 * x \<le> 100 * p"
    by (simp add: DefaultGuaranteeFraction_def)
  moreover have "p < 9007199254740992 * (p div 9007199254740992) + 9007199254740992"
    using div_mult_mod_eq[of p 9007199254740992] mod_less_divisor[of 9007199254740992 p]
    by linarith
  ultimately have "89 * x \<le> 100 * (p div 9007199254740992) + 100" by linarith
  then have "89 * int x \<le> 100 * int (p div 9007199254740992) + 100" by linarith
  moreover have "scale09 d = int (p div 9007199254740992)"
    using assms by (cases "d = 0") (simp_all add: scale09_def p_def y_def x_def)
  ultimately show ?thesis using x by simp
qed

text \<open>
  C40. The guarantee period of a lock is strictly inside its TTL and never less than 89 percent
  of it (less one nanosecond), whatever the rounding of the floating-point product: a holder
  that heartbeats at \<open>GuaranteeUntil\<close> heartbeats before the lock expires.
\<close>

theorem guarantee_within_ttl:
  assumes "LockMinimumTTL \<le> ttl"
  shows "0 < scale09 ttl \<and> scale09 ttl < ttl \<and> 89 * ttl \<le> 100 * scale09 ttl + 100"
proof -
  from assms have "600 < ttl" by (simp add: LockMinimumTTL_def second_def)
  with scale09_less[of ttl] scale09_lower[of ttl] show ?thesis by auto
qed

theorem guarantee_within_ttl_witness:
  "LockMinimumTTL \<le> DefaultLockTTL \<and> scale09 DefaultLockTTL < DefaultLockTTL"
proof -
  have "LockMinimumTTL \<le> DefaultLockTTL" by (simp add: LockMinimumTTL_def DefaultLockTTL_def second_def)
  with guarantee_within_ttl[OF this] show ?thesis by simp
qed

end
