(* ===== verification/Wire.thy ===== *)
theory Wire
  imports Durations
begin

text \<open>
  The values the transports exchange: \<open>src/pkg/v1/ipc.go\<close>, \<open>transport.go\<close>, \<open>transportBatch.go\<close>,
  \<open>batch.go\<close>, \<open>lock.go\<close>, \<open>errors.go\<close> and the request messages of the gRPC query service that
  the code reads. Each record has the fields of its Go struct; a pointer field that may be nil
  is an \<open>option\<close>. Fields that only shape a reply for the client (\<open>ResultInclude\<close>) are left
  out: no code modelled here reads them.
\<close>

subsection \<open>Envelopes\<close>

text \<open>
  \<open>Envelope.When\<close> is text. Text that \<open>FormatEnvelopeWhen\<close> made of an instant is
  \<open>Timestamp t\<close>; any other text is \<open>OtherText s\<close>, which \<open>time.Parse\<close> rejects.
\<close>

datatype when_text = Timestamp time | OtherText string

record Envelope =
  env_id :: int64
  env_when :: when_text
  env_kind :: string

record Submitted =
  sub_id :: int64

definition FormatEnvelopeWhen :: "time \<Rightarrow> when_text" where
  "FormatEnvelopeWhen t = Timestamp t"

definition InternalizeWhen :: "Envelope \<Rightarrow> time outcome" where
  "InternalizeWhen e =
     (case env_when e of
        Timestamp t \<Rightarrow> Ok t
      | OtherText s \<Rightarrow> Err (TextError (''cannot parse time: '' @ s)))"

subsection \<open>Locks and positions\<close>

record Lock =
  lock_consumer :: string
  lock_holder :: string

record submitConfig =
  cfg_lock :: "Lock option"

definition apply_lock :: "Lock \<Rightarrow> submitConfig \<Rightarrow> submitConfig" where
  "apply_lock l c = c\<lparr>cfg_lock := Some l\<rparr>"

definition apply_options :: "Lock list \<Rightarrow> submitConfig" where
  "apply_options opts = fold apply_lock opts \<lparr>cfg_lock = None\<rparr>"

record LockResult =
  lr_acquired :: bool
  lr_heldBy :: string
  lr_guaranteeUntil :: time
  lr_heldUntil :: time
  lr_position :: int64

record LockState =
  lk_consumer :: string
  lk_domain :: string
  lk_stream :: string
  lk_holder :: string
  lk_acquiredAt :: time
  lk_heartbeatAt :: time
  lk_ttl :: duration
  lk_guaranteeUntil :: time
  lk_heldUntil :: time

record LockReleasedEvent =
  ev_domain :: string
  ev_stream :: string
  ev_consumer :: string
  ev_holder :: string

record SetPositionResult =
  sp_previous :: "int64 option"
  sp_current :: int64

subsection \<open>Queries\<close>

record WireMatcherV1 =
  wm_property :: "string list"
  wm_value :: "string list"

record KindConstraint =
  kc_kind :: string
  kc_eq :: "WireMatcherV1 list"
  kc_matchSubset :: raw_message

record WireQuery =
  wq_kinds :: "KindConstraint list"
  wq_afterID :: "int64 option"

record WireQueryResult =
  wqr_filtered :: bool
  wqr_subsetMatch :: bool
  wqr_matching :: "Envelope list"

record WireBatchResultPair =
  wbp_meta :: Envelope
  wbp_data :: raw_message

record WireBatchR2KindMatch =
  wbm_op :: int
  wbm_subset :: raw_message

record WireBatchR2KindQuery =
  wbk_kind :: string
  wbk_all :: "int option"
  wbk_match :: "WireBatchR2KindMatch list"

record WireBatchR2IDQuery =
  wbi_op :: int
  wbi_id :: int64

record WireBatchR2Request =
  wbr_onKinds :: "WireBatchR2KindQuery list"
  wbr_onID :: "WireBatchR2IDQuery list"
  wbr_afterID :: "int64 option"

record WireBatchR2Dispatch =
  wbd_envelope :: Envelope
  wbd_event :: raw_message
  wbd_op :: int

definition WireBatchR2Request_Empty :: "WireBatchR2Request \<Rightarrow> bool" where
  "WireBatchR2Request_Empty w \<longleftrightarrow> wbr_onKinds w = [] \<and> wbr_onID w = []"

record OnKindSubsetMatch =
  oks_op :: int64
  oks_match :: raw_message

record OnKindClause =
  okc_kind :: string
  okc_allOp :: "int64 option"
  okc_subsets :: "OnKindSubsetMatch list"

record OnIDClause =
  oic_op :: int64
  oic_id :: int64

record QueryIn =
  qi_domain :: string
  qi_stream :: string
  qi_onKind :: "OnKindClause list"
  qi_onID :: "OnIDClause list"
  qi_onEach :: "int64 option"
  qi_afterID :: "int64 option"

record QueryOut =
  qo_op :: int64
  qo_id :: int64
  qo_when :: time
  qo_kind :: string
  qo_body :: raw_message

definition ValidateQuery :: "QueryIn \<Rightarrow> goerror option" where
  "ValidateQuery q =
     (if qi_onKind q = [] \<and> qi_onID q = [] \<and> qi_onEach q = None
      then Some EmptyQueryError else None)"

subsection \<open>Lemmas\<close>

lemma InternalizeWhen_Format [simp]:
  "env_when e = FormatEnvelopeWhen t \<Longrightarrow> InternalizeWhen e = Ok t"
  by (simp add: InternalizeWhen_def FormatEnvelopeWhen_def)

lemma apply_options_Nil [simp]: "cfg_lock (apply_options []) = None"
  by (simp add: apply_options_def)

lemma apply_options_snoc [simp]: "cfg_lock (apply_options (opts @ [l])) = Some l"
  by (simp add: apply_options_def apply_lock_def)

end
