(* ===== verification/MemoryStore.thy ===== *)
theory MemoryStore
  imports Wire
begin

text \<open>
  The in-memory transport, \<open>src/pkg/v1/memory.go\<close>: its state, its event streams, its consumer
  locks with their expiry timers, and its consumer positions.

  All commands run one after the other on the service goroutine, so a command is a function
  on the \<open>memory\<close> record. \<open>simulateNetwork\<close> runs a command and hands its result to the caller,
  unless the caller's context ends first: then the caller gets the context's error although the
  command has run. A nil dereference or an index out of range inside a command is a panic.

  Time is explicit: \<open>now\<close> is what \<open>m.now()\<close> (or \<open>time.Now()\<close>) returns. A timer made by
  \<open>time.AfterFunc\<close> is an entry of \<open>m_timers\<close> until it is stopped or fires; firing appends the
  timer's \<open>lockExpiryOp\<close> to \<open>m_input\<close>, the part of the input channel that holds expiry commands,
  from which the service goroutine takes it later. The closure of a heartbeat's timer reads
  \<open>existing.generation\<close> when it fires; a later heartbeat, the only writer of that field, stops the
  timer in the same command, so an armed timer reads the value it was armed with, and the model
  stores that value in the timer.

  The emitters come from a library (\<open>go-junk-bucket\<close>): \<open>emit\<close> arguments give the error that
  \<open>Emit\<close> returns for an event, and the events a command emits are part of its result.
\<close>

subsection \<open>State\<close>

record memoryPacket =
  pk_when :: time
  pk_kind :: string
  pk_data :: json

record memoryStream =
  ms_name :: string
  ms_packets :: "memoryPacket list"

record memoryDomain =
  md_name :: string
  md_streams :: "(string, memoryStream) mapping"

record memoryLockState =
  ls_holder :: string
  ls_acquiredAt :: time
  ls_heartbeatAt :: time
  ls_ttl :: duration
  ls_guaranteeUntil :: time
  ls_heldUntil :: time
  ls_expiryTimer :: "nat option"
  ls_generation :: int64

record lockExpiryOp =
  xo_domain :: string
  xo_stream :: string
  xo_consumer :: string
  xo_generation :: int64

record expiryTimer =
  tm_at :: time
  tm_op :: lockExpiryOp

record memory =
  m_domains :: "(string, memoryDomain) mapping"
  m_positions :: "(string, (string, int64) mapping) mapping"
  m_locks :: "(string, (string, (string, memoryLockState) mapping) mapping) mapping"
  m_timers :: "(nat, expiryTimer) mapping"
  m_nextTimer :: nat
  m_input :: "lockExpiryOp list"

definition NewMemoryTransport :: memory where
  "NewMemoryTransport =
     \<lparr>m_domains = Mapping.empty, m_positions = Mapping.empty, m_locks = Mapping.empty,
      m_timers = Mapping.empty, m_nextTimer = 0, m_input = []\<rparr>"

definition simulateNetwork ::
  "goerror option \<Rightarrow> (memory \<Rightarrow> memory \<times> 'a outcome) \<Rightarrow> memory \<Rightarrow> memory \<times> 'a outcome" where
  "simulateNetwork net cmd m =
     (case cmd m of (m', r) \<Rightarrow>
        (m', case r of
               Panic p \<Rightarrow> Panic p
             | _ \<Rightarrow> (case net of None \<Rightarrow> r | Some e \<Rightarrow> Err e)))"

subsection \<open>Streams and events\<close>

definition EnsureStream ::
  "goerror option \<Rightarrow> string \<Rightarrow> string \<Rightarrow> memory \<Rightarrow> memory \<times> unit outcome" where
  "EnsureStream net domain stream =
     simulateNetwork net (\<lambda>m.
       let m1 = (case Mapping.lookup (m_domains m) domain of
                   None \<Rightarrow> m\<lparr>m_domains := Mapping.update domain
                             \<lparr>md_name = domain, md_streams = Mapping.empty\<rparr> (m_domains m)\<rparr>
                 | Some _ \<Rightarrow> m)
       in case Mapping.lookup (m_domains m1) domain of
            None \<Rightarrow> (m1, Panic ''nil domain'')
          | Some d \<Rightarrow>
              (case Mapping.lookup (md_streams d) stream of
                 None \<Rightarrow>
                   (m1\<lparr>m_domains := Mapping.update domain
                         (d\<lparr>md_streams := Mapping.update stream
                             \<lparr>ms_name = stream, ms_packets = []\<rparr> (md_streams d)\<rparr>)
                         (m_domains m1)\<rparr>, Ok ())
               | Some _ \<Rightarrow> (m1, Ok ())))"

text \<open>\<open>m.domains[domain].streams[stream]\<close>; \<open>None\<close> where a nil pointer is met on the way.\<close>

definition find_stream :: "string \<Rightarrow> string \<Rightarrow> memory \<Rightarrow> memoryStream option" where
  "find_stream domain stream m =
     (case Mapping.lookup (m_domains m) domain of
        None \<Rightarrow> None
      | Some d \<Rightarrow> Mapping.lookup (md_streams d) stream)"

definition put_stream :: "string \<Rightarrow> string \<Rightarrow> memoryStream \<Rightarrow> memory \<Rightarrow> memory" where
  "put_stream domain stream s m =
     (case Mapping.lookup (m_domains m) domain of
        None \<Rightarrow> m
      | Some d \<Rightarrow>
          m\<lparr>m_domains := Mapping.update domain
              (d\<lparr>md_streams := Mapping.update stream s (md_streams d)\<rparr>) (m_domains m)\<rparr>)"

definition lockState :: "string \<Rightarrow> string \<Rightarrow> string \<Rightarrow> memory \<Rightarrow> memoryLockState option" where
  "lockState domain stream consumer m =
     (case Mapping.lookup (m_locks m) domain of
        None \<Rightarrow> None
      | Some streams \<Rightarrow>
          (case Mapping.lookup streams stream of
             None \<Rightarrow> None
           | Some consumers \<Rightarrow> Mapping.lookup consumers consumer))"

definition checkLock :: "time \<Rightarrow> string \<Rightarrow> string \<Rightarrow> Lock option \<Rightarrow> memory \<Rightarrow> goerror option" where
  "checkLock now domain stream lock m =
     (case lock of
        None \<Rightarrow> None
      | Some l \<Rightarrow>
          (let notHeld = Some (LockNotHeldError (lock_consumer l) (lock_holder l) domain stream)
           in case lockState domain stream (lock_consumer l) m of
                None \<Rightarrow> notHeld
              | Some state \<Rightarrow>
                  (if now > ls_heldUntil state then notHeld
                   else if ls_holder state \<noteq> lock_holder l then notHeld
                   else None)))"

text \<open>
  \<open>Submit\<close>: \<open>marshalled\<close> is the result of \<open>json.Marshal(event)\<close>; \<open>emitErr\<close> is what
  \<open>stream.onAddPacket.Emit\<close> returns for the new identifier. The packet is appended before the
  subscribers are notified, and stays when one of them fails.
\<close>

definition submit_command ::
  "(int64 \<Rightarrow> goerror option) \<Rightarrow> time \<Rightarrow> string \<Rightarrow> string \<Rightarrow> string \<Rightarrow> json \<Rightarrow> Lock option
     \<Rightarrow> memory \<Rightarrow> memory \<times> Submitted outcome" where
  "submit_command emitErr now domain stream kind bytes lock m =
     (case checkLock now domain stream lock m of
        Some lockErr \<Rightarrow> (m, Err lockErr)
      | None \<Rightarrow>
          (case find_stream domain stream m of
             None \<Rightarrow> (m, Panic ''nil pointer dereference'')
           | Some s \<Rightarrow>
               (let out = int (length (ms_packets s));
                    packet = \<lparr>pk_when = now, pk_kind = kind, pk_data = bytes\<rparr>;
                    m' = put_stream domain stream (s\<lparr>ms_packets := ms_packets s @ [packet]\<rparr>) m
                in (m', case emitErr out of
                          None \<Rightarrow> Ok \<lparr>sub_id = out\<rparr>
                        | Some e \<Rightarrow> Err e))))"

definition Submit ::
  "(int64 \<Rightarrow> goerror option) \<Rightarrow> goerror option \<Rightarrow> time \<Rightarrow> string \<Rightarrow> string \<Rightarrow> string
     \<Rightarrow> json outcome \<Rightarrow> Lock list \<Rightarrow> memory \<Rightarrow> memory \<times> Submitted outcome" where
  "Submit emitErr net now domain stream kind marshalled opts m =
     (case marshalled of
        Err e \<Rightarrow> (m, Err e)
      | Panic p \<Rightarrow> (m, Panic p)
      | Ok bytes \<Rightarrow>
          simulateNetwork net
            (submit_command emitErr now domain stream kind bytes (cfg_lock (apply_options opts))) m)"

text \<open>
  \<open>GetEvent\<close> into a \<open>json.RawMessage\<close>: a missing event leaves the message nil. The bound check
  is only from above, so a negative identifier indexes out of range.
\<close>

definition GetEvent ::
  "goerror option \<Rightarrow> string \<Rightarrow> string \<Rightarrow> int64 \<Rightarrow> memory \<Rightarrow> memory \<times> raw_message outcome" where
  "GetEvent net domain stream i =
     simulateNetwork net (\<lambda>m.
       (m, case find_stream domain stream m of
             None \<Rightarrow> Ok None
           | Some s \<Rightarrow>
               (if int (length (ms_packets s)) \<le> i then Ok None
                else if i < 0 then Panic ''index out of range''
                else Ok (Some (pk_data (ms_packets s ! nat i))))))"

definition envelope_of :: "int64 \<Rightarrow> memoryPacket \<Rightarrow> Envelope" where
  "envelope_of i p =
     \<lparr>env_id = i, env_when = FormatEnvelopeWhen (pk_when p), env_kind = pk_kind p\<rparr>"

text \<open>\<open>Envelope{}\<close>: the zero envelope that \<open>GetEnvelope\<close> returns for a missing event.\<close>

definition zero_envelope :: Envelope where
  "zero_envelope = \<lparr>env_id = 0, env_when = OtherText '''', env_kind = ''''\<rparr>"

definition GetEnvelope ::
  "goerror option \<Rightarrow> string \<Rightarrow> string \<Rightarrow> int64 \<Rightarrow> memory \<Rightarrow> memory \<times> Envelope outcome" where
  "GetEnvelope net domain stream i =
     simulateNetwork net (\<lambda>m.
       (m, case find_stream domain stream m of
             None \<Rightarrow> Ok zero_envelope
           | Some s \<Rightarrow>
               (if int (length (ms_packets s)) \<le> i then Ok zero_envelope
                else if i < 0 then Panic ''index out of range''
                else Ok (envelope_of i (ms_packets s ! nat i)))))"

fun envelopes_from :: "int64 \<Rightarrow> memoryPacket list \<Rightarrow> Envelope list" where
  "envelopes_from i [] = []"
| "envelopes_from i (p # ps) = envelope_of i p # envelopes_from (i + 1) ps"

definition AllEnvelopes ::
  "goerror option \<Rightarrow> string \<Rightarrow> string \<Rightarrow> memory \<Rightarrow> memory \<times> Envelope list outcome" where
  "AllEnvelopes net domain stream =
     simulateNetwork net (\<lambda>m.
       (m, case find_stream domain stream m of
             None \<Rightarrow> Panic ''nil pointer dereference''
           | Some s \<Rightarrow> Ok (envelopes_from 0 (ms_packets s))))"

text \<open>\<open>Meta\<close>: the domain names in the order \<open>range\<close> visits them, with no stream names.\<close>

definition Meta ::
  "string list \<Rightarrow> goerror option \<Rightarrow> memory \<Rightarrow> memory \<times> (string \<times> string list) list outcome" where
  "Meta order net = simulateNetwork net (\<lambda>m. (m, Ok (map (\<lambda>name. (name, [])) order)))"

subsection \<open>Lock table and timers\<close>

definition setLock ::
  "string \<Rightarrow> string \<Rightarrow> string \<Rightarrow> memoryLockState \<Rightarrow> memory \<Rightarrow> memory" where
  "setLock domain stream consumer state m =
     (let streams = (case Mapping.lookup (m_locks m) domain of
                       None \<Rightarrow> Mapping.empty | Some ss \<Rightarrow> ss);
          consumers = (case Mapping.lookup streams stream of
                         None \<Rightarrow> Mapping.empty | Some cs \<Rightarrow> cs)
      in m\<lparr>m_locks := Mapping.update domain
             (Mapping.update stream (Mapping.update consumer state consumers) streams)
             (m_locks m)\<rparr>)"

definition deleteLock :: "string \<Rightarrow> string \<Rightarrow> string \<Rightarrow> memory \<Rightarrow> memory" where
  "deleteLock domain stream consumer m =
     (case Mapping.lookup (m_locks m) domain of
        None \<Rightarrow> m
      | Some streams \<Rightarrow>
          (case Mapping.lookup streams stream of
             None \<Rightarrow> m
           | Some consumers \<Rightarrow>
               (let consumers' = Mapping.delete consumer consumers;
                    streams' = (if Mapping.is_empty consumers'
                                then Mapping.delete stream streams
                                else Mapping.update stream consumers' streams)
                in m\<lparr>m_locks := Mapping.update domain streams' (m_locks m)\<rparr>)))"

definition after_func :: "time \<Rightarrow> lockExpiryOp \<Rightarrow> memory \<Rightarrow> nat \<times> memory" where
  "after_func at op m =
     (m_nextTimer m,
      m\<lparr>m_timers := Mapping.update (m_nextTimer m) \<lparr>tm_at = at, tm_op = op\<rparr> (m_timers m),
        m_nextTimer := Suc (m_nextTimer m)\<rparr>)"

definition stop_timer :: "nat option \<Rightarrow> memory \<Rightarrow> memory" where
  "stop_timer t m =
     (case t of None \<Rightarrow> m | Some i \<Rightarrow> m\<lparr>m_timers := Mapping.delete i (m_timers m)\<rparr>)"

text \<open>A due timer fires: its closure sends the expiry command to the input channel.\<close>

definition fire_timer :: "time \<Rightarrow> nat \<Rightarrow> memory \<Rightarrow> memory" where
  "fire_timer now i m =
     (case Mapping.lookup (m_timers m) i of
        None \<Rightarrow> m
      | Some t \<Rightarrow>
          (if tm_at t \<le> now
           then m\<lparr>m_timers := Mapping.delete i (m_timers m), m_input := m_input m @ [tm_op t]\<rparr>
           else m))"

definition lockExpiryOp_perform ::
  "(LockReleasedEvent \<Rightarrow> goerror option) \<Rightarrow> lockExpiryOp \<Rightarrow> memory
     \<Rightarrow> memory \<times> LockReleasedEvent list" where
  "lockExpiryOp_perform emit op m =
     (case lockState (xo_domain op) (xo_stream op) (xo_consumer op) m of
        None \<Rightarrow> (m, [])
      | Some existing \<Rightarrow>
          (if ls_generation existing \<noteq> xo_generation op then (m, [])
           else (let evt = \<lparr>ev_domain = xo_domain op, ev_stream = xo_stream op,
                            ev_consumer = xo_consumer op, ev_holder = ls_holder existing\<rparr>
                 in case emit evt of
                      Some _ \<Rightarrow> (m, [evt])
                    | None \<Rightarrow>
                        (deleteLock (xo_domain op) (xo_stream op) (xo_consumer op) m, [evt]))))"

text \<open>\<open>runService\<close> takes the next queued expiry command and performs it.\<close>

definition perform_input ::
  "(LockReleasedEvent \<Rightarrow> goerror option) \<Rightarrow> memory \<Rightarrow> memory \<times> LockReleasedEvent list" where
  "perform_input emit m =
     (case m_input m of
        [] \<Rightarrow> (m, [])
      | op # ops \<Rightarrow> lockExpiryOp_perform emit op (m\<lparr>m_input := ops\<rparr>))"


subsection \<open>Laws of the stream table\<close>

lemma find_put_stream [simp]:
  "find_stream d s m = Some old \<Longrightarrow>
     find_stream d' s' (put_stream d s new m) =
       (if d' = d \<and> s' = s then Some new else find_stream d' s' m)"
  by (auto simp: find_stream_def put_stream_def split: option.splits)

lemma find_stream_new [simp]: "find_stream d s NewMemoryTransport = None"
  by (simp add: find_stream_def NewMemoryTransport_def)

lemma lockState_new [simp]: "lockState d s c NewMemoryTransport = None"
  by (simp add: lockState_def NewMemoryTransport_def)

lemma find_EnsureStream:
  "find_stream d' s' (fst (EnsureStream net d s m)) =
     (if d' = d \<and> s' = s
      then Some (case find_stream d s m of None \<Rightarrow> \<lparr>ms_name = s, ms_packets = []\<rparr> | Some st \<Rightarrow> st)
      else find_stream d' s' m)"
  by (auto simp: find_stream_def EnsureStream_def simulateNetwork_def Let_def split: option.splits)

lemma EnsureStream_result: "snd (EnsureStream net d s m) = (case net of None \<Rightarrow> Ok () | Some e \<Rightarrow> Err e)"
  by (auto simp: EnsureStream_def simulateNetwork_def Let_def split: option.splits)

lemma EnsureStream_frame [frame_simps]:
  "m_locks (fst (EnsureStream net d s m)) = m_locks m"
  "m_positions (fst (EnsureStream net d s m)) = m_positions m"
  by (auto simp: EnsureStream_def simulateNetwork_def Let_def split: option.splits)

lemma put_stream_frame [frame_simps, simp]:
  "m_locks (put_stream d s x m) = m_locks m"
  "m_positions (put_stream d s x m) = m_positions m"
  "m_timers (put_stream d s x m) = m_timers m"
  "m_input (put_stream d s x m) = m_input m"
  by (auto simp: put_stream_def split: option.splits)

lemma find_stream_frame [frame_simps, simp]:
  "find_stream d s (m\<lparr>m_locks := l\<rparr>) = find_stream d s m"
  "find_stream d s (m\<lparr>m_positions := p\<rparr>) = find_stream d s m"
  "find_stream d s (m\<lparr>m_timers := t\<rparr>) = find_stream d s m"
  "find_stream d s (m\<lparr>m_input := i\<rparr>) = find_stream d s m"
  by (simp_all add: find_stream_def)

lemma length_envelopes_from [simp]: "length (envelopes_from i ps) = length ps"
  by (induction ps arbitrary: i) simp_all

lemma nth_envelopes_from:
  "n < length ps \<Longrightarrow> envelopes_from i ps ! n = envelope_of (i + int n) (ps ! n)"
  by (induction ps arbitrary: i n) (auto simp: nth_Cons' ac_simps)

lemma envelopes_from_append:
  "envelopes_from i (ps @ qs) = envelopes_from i ps @ envelopes_from (i + int (length ps)) qs"
  by (induction ps arbitrary: i) (simp_all add: ac_simps)

subsection \<open>Laws of the lock table\<close>

lemma lockState_setLock [simp]:
  "lockState d' s' c' (setLock d s c st m) =
     (if d' = d \<and> s' = s \<and> c' = c then Some st else lockState d' s' c' m)"
  by (auto simp: lockState_def setLock_def Let_def split: option.splits)

lemma lockState_deleteLock [simp]:
  "lockState d' s' c' (deleteLock d s c m) =
     (if d' = d \<and> s' = s \<and> c' = c then None else lockState d' s' c' m)"
  by (auto simp: lockState_def deleteLock_def Let_def mapping_is_empty_lookup split: option.splits)

lemma lock_table_frame [frame_simps, simp]:
  "m_domains (setLock d s c st m) = m_domains m" "m_positions (setLock d s c st m) = m_positions m"
  "m_timers (setLock d s c st m) = m_timers m" "m_input (setLock d s c st m) = m_input m"
  "m_nextTimer (setLock d s c st m) = m_nextTimer m"
  "m_domains (deleteLock d s c m) = m_domains m" "m_positions (deleteLock d s c m) = m_positions m"
  "m_timers (deleteLock d s c m) = m_timers m" "m_input (deleteLock d s c m) = m_input m"
  "m_nextTimer (deleteLock d s c m) = m_nextTimer m"
  by (auto simp: setLock_def deleteLock_def Let_def split: option.splits)

lemma timer_frame [frame_simps, simp]:
  "m_domains (stop_timer t m) = m_domains m" "m_positions (stop_timer t m) = m_positions m"
  "m_locks (stop_timer t m) = m_locks m" "m_input (stop_timer t m) = m_input m"
  "m_nextTimer (stop_timer t m) = m_nextTimer m"
  "m_domains (snd (after_func a op m)) = m_domains m"
  "m_positions (snd (after_func a op m)) = m_positions m"
  "m_locks (snd (after_func a op m)) = m_locks m"
  "m_input (snd (after_func a op m)) = m_input m"
  by (auto simp: stop_timer_def after_func_def split: option.splits)

lemma lockState_cong: "m_locks m' = m_locks m \<Longrightarrow> lockState d s c m' = lockState d s c m"
  by (simp add: lockState_def)

lemma find_stream_cong: "m_domains m' = m_domains m \<Longrightarrow> find_stream d s m' = find_stream d s m"
  by (simp add: find_stream_def)

lemma lockState_timer [simp]:
  "lockState d s c (stop_timer t m) = lockState d s c m"
  "lockState d s c (snd (after_func a op m)) = lockState d s c m"
  "lockState d s c (put_stream d' s' x m) = lockState d s c m"
  "lockState d s c (m\<lparr>m_positions := p\<rparr>) = lockState d s c m"
  "lockState d s c (m\<lparr>m_input := i\<rparr>) = lockState d s c m"
  "lockState d s c (m\<lparr>m_timers := tms\<rparr>) = lockState d s c m"
  by (simp_all add: lockState_def)

lemma lookup_timers [simp]:
  "Mapping.lookup (m_timers (stop_timer t m)) i =
     (if t = Some i then None else Mapping.lookup (m_timers m) i)"
  by (auto simp: stop_timer_def split: option.splits)

lemma simulateNetwork_None [simp]: "simulateNetwork None cmd m = cmd m"
  by (auto simp: simulateNetwork_def split: prod.splits outcome.splits)

lemma fst_simulateNetwork [simp]: "fst (simulateNetwork net cmd m) = fst (cmd m)"
  by (simp add: simulateNetwork_def case_prod_beta)

lemma snd_simulateNetwork_Ok:
  "snd (simulateNetwork net cmd m) = Ok x \<longleftrightarrow> net = None \<and> snd (cmd m) = Ok x"
  by (auto simp: simulateNetwork_def case_prod_beta split: outcome.splits option.splits)


subsection \<open>Streams as lists of events\<close>

text \<open>
  The contract of a stream: an append-only list of events, numbered from 0. \<open>stream_log\<close> reads
  it off the state; \<open>run_submits\<close> is a sequence of submissions to several streams.
\<close>

definition stream_log :: "string \<Rightarrow> string \<Rightarrow> memory \<Rightarrow> (time \<times> string \<times> json) list" where
  "stream_log d s m =
     (case find_stream d s m of
        None \<Rightarrow> []
      | Some st \<Rightarrow> map (\<lambda>p. (pk_when p, pk_kind p, pk_data p)) (ms_packets st))"

type_synonym submission = "string \<times> string \<times> time \<times> string \<times> json"

fun run_submits ::
  "(int64 \<Rightarrow> goerror option) \<Rightarrow> goerror option \<Rightarrow> submission list \<Rightarrow> memory \<Rightarrow> memory" where
  "run_submits emitErr net [] m = m"
| "run_submits emitErr net ((d, s, t, kind, body) # ops) m =
     run_submits emitErr net ops (fst (Submit emitErr net t d s kind (Ok body) [] m))"

definition submissions_to :: "string \<Rightarrow> string \<Rightarrow> submission list \<Rightarrow> (time \<times> string \<times> json) list" where
  "submissions_to d s ops = map (\<lambda>(d', s', e). e) (filter (\<lambda>(d', s', e). d' = d \<and> s' = s) ops)"

lemma Submit_state:
  "fst (Submit emitErr net t d s kind (Ok body) opts m) =
     (if checkLock t d s (cfg_lock (apply_options opts)) m = None
      then case find_stream d s m of
             None \<Rightarrow> m
           | Some st \<Rightarrow> put_stream d s
               (st\<lparr>ms_packets := ms_packets st @ [\<lparr>pk_when = t, pk_kind = kind, pk_data = body\<rparr>]\<rparr>) m
      else m)"
  by (auto simp: Submit_def submit_command_def Let_def split: option.splits)

lemma Submit_log:
  assumes "checkLock t d s (cfg_lock (apply_options opts)) m = None" "find_stream d s m = Some st"
  shows "stream_log d' s' (fst (Submit emitErr net t d s kind (Ok body) opts m)) =
           (if d' = d \<and> s' = s then stream_log d s m @ [(t, kind, body)] else stream_log d' s' m)"
  using assms by (auto simp: Submit_state stream_log_def)

lemma Submit_keeps_streams:
  "find_stream d' s' (fst (Submit emitErr net t d s kind (Ok body) opts m)) = None \<longleftrightarrow>
     find_stream d' s' m = None"
  by (auto simp: Submit_state split: option.splits)

lemma Submit_frame [frame_simps]:
  "m_locks (fst (Submit emitErr net t d s kind body opts m)) = m_locks m"
  "m_positions (fst (Submit emitErr net t d s kind body opts m)) = m_positions m"
  "m_timers (fst (Submit emitErr net t d s kind body opts m)) = m_timers m"
  by (auto simp: Submit_def submit_command_def Let_def split: option.splits outcome.splits)

lemma checkLock_None [simp]: "checkLock now d s None m = None"
  by (simp add: checkLock_def)

lemma checkLock_ok_iff:
  "checkLock now d s (Some l) m = None \<longleftrightarrow>
     (\<exists>st. lockState d s (lock_consumer l) m = Some st \<and> now \<le> ls_heldUntil st
            \<and> ls_holder st = lock_holder l)"
  by (auto simp: checkLock_def Let_def split: option.splits)

lemma checkLock_error:
  "checkLock now d s lock m = Some e \<Longrightarrow>
     \<exists>l. lock = Some l \<and> e = LockNotHeldError (lock_consumer l) (lock_holder l) d s"
  by (auto simp: checkLock_def Let_def split: option.splits if_splits)

lemma GetEvent_log:
  "find_stream d s m \<noteq> None \<Longrightarrow> 0 \<le> i \<Longrightarrow>
     GetEvent None d s i m =
       (m, Ok (if nat i < length (stream_log d s m)
               then Some (snd (snd (stream_log d s m ! nat i))) else None))"
  by (auto simp: GetEvent_def stream_log_def)

lemma GetEnvelope_log:
  "find_stream d s m \<noteq> None \<Longrightarrow> 0 \<le> i \<Longrightarrow>
     GetEnvelope None d s i m =
       (m, Ok (if nat i < length (stream_log d s m)
               then \<lparr>env_id = i, env_when = FormatEnvelopeWhen (fst (stream_log d s m ! nat i)),
                     env_kind = fst (snd (stream_log d s m ! nat i))\<rparr>
               else zero_envelope))"
  by (auto simp: GetEnvelope_def stream_log_def envelope_of_def)

lemma AllEnvelopes_log:
  assumes "find_stream d s m \<noteq> None"
  shows "AllEnvelopes None d s m =
           (m, Ok (map (\<lambda>n. \<lparr>env_id = int n, env_when = FormatEnvelopeWhen (fst (stream_log d s m ! n)),
                              env_kind = fst (snd (stream_log d s m ! n))\<rparr>)
                      [0..<length (stream_log d s m)]))"
proof -
  from assms obtain st where st: "find_stream d s m = Some st" by blast
  have "envelopes_from 0 (ms_packets st) =
      map (\<lambda>n. envelope_of (int n) (ms_packets st ! n)) [0..<length (ms_packets st)]"
    by (rule nth_equalityI) (simp_all add: nth_envelopes_from)
  with st show ?thesis by (simp add: AllEnvelopes_def stream_log_def envelope_of_def)
qed

subsection \<open>Properties\<close>

text \<open>
  C5. Event streams are append-only logs: after any sequence of submissions, made by any clients
  to any streams, the log of each existing stream is what it was followed by the events
  submitted to that stream, in their order, even when notifying a subscriber failed or a
  caller's context ended.
\<close>

theorem submits_append_only:
  assumes "\<forall>(d, s, e) \<in> set ops. find_stream d s m \<noteq> None"
  shows "stream_log d s (run_submits emitErr net ops m) = stream_log d s m @ submissions_to d s ops"
  using assms
proof (induction ops arbitrary: m)
  case Nil
  then show ?case by (simp add: submissions_to_def)
next
  case (Cons op ops)
  obtain d' s' t kind body where op: "op = (d', s', t, kind, body)" by (cases op) auto
  let ?m = "fst (Submit emitErr net t d' s' kind (Ok body) [] m)"
  from Cons.prems op obtain st where st: "find_stream d' s' m = Some st" by auto
  have "stream_log d s (run_submits emitErr net ops ?m) = stream_log d s ?m @ submissions_to d s ops"
    using Cons.prems by (intro Cons.IH) (auto simp: Submit_keeps_streams)
  with op st show ?case by (auto simp: Submit_log submissions_to_def)
qed

text \<open>
  A submitted event is read back: \<open>Submit\<close> answers with the number of events that were in
  the stream, and \<open>GetEvent\<close> and \<open>GetEnvelope\<close> with that identifier return the submitted body,
  kind and time, while every event that was there before is read as before.
\<close>

theorem submit_read_back:
  assumes "find_stream d s m \<noteq> None" "checkLock t d s (cfg_lock (apply_options opts)) m = None"
    and "Submit emitErr net t d s kind (Ok body) opts m = (m', Ok sub)"
  shows "sub_id sub = int (length (stream_log d s m))
    \<and> GetEvent None d s (sub_id sub) m' = (m', Ok (Some body))
    \<and> GetEnvelope None d s (sub_id sub) m' =
        (m', Ok \<lparr>env_id = sub_id sub, env_when = FormatEnvelopeWhen t, env_kind = kind\<rparr>)
    \<and> (\<forall>i. 0 \<le> i \<and> i < sub_id sub \<longrightarrow> snd (GetEvent None d s i m') = snd (GetEvent None d s i m))"
proof -
  from assms(1) obtain st where st: "find_stream d s m = Some st" by blast
  have m': "m' = fst (Submit emitErr net t d s kind (Ok body) opts m)" by (simp add: assms(3))
  have found: "find_stream d s m' \<noteq> None" using assms(1) by (simp add: m' Submit_keeps_streams)
  have log: "stream_log d s m' = stream_log d s m @ [(t, kind, body)]"
    using assms(2) st by (simp add: m' Submit_log)
  have id: "sub_id sub = int (length (stream_log d s m))"
    using assms(2,3) st
    by (auto simp: Submit_def submit_command_def Let_def simulateNetwork_def stream_log_def
             split: option.splits)
  from found log id assms(1) show ?thesis
    by (auto simp: GetEvent_log GetEnvelope_log nth_append)
qed

text \<open>
  C6. Lock-protected submission: a \<open>Submit\<close> with a lock option appends only while that consumer's
  lock is held, unexpired, by the named holder; otherwise it answers \<open>LockNotHeldError\<close> and the
  whole state of the transport is unchanged.
\<close>

theorem submit_lock_enforced:
  "(\<exists>st. lockState d s (lock_consumer l) m = Some st \<and> t \<le> ls_heldUntil st
          \<and> ls_holder st = lock_holder l)
   \<or> Submit emitErr None t d s kind (Ok body) (opts @ [l]) m =
       (m, Err (LockNotHeldError (lock_consumer l) (lock_holder l) d s))"
proof (cases "checkLock t d s (Some l) m")
  case None
  then show ?thesis by (simp add: checkLock_ok_iff)
next
  case (Some e)
  with checkLock_error[OF Some] show ?thesis by (simp add: Submit_def submit_command_def)
qed

theorem submits_append_only_witness:
  "stream_log ''d'' ''s''
     (run_submits (\<lambda>i. None) None [(''d'', ''s'', 1, ''k'', JNum 7), (''d'', ''s'', 2, ''k'', JNull)]
       (fst (EnsureStream None ''d'' ''s'' NewMemoryTransport))) =
     [(1, ''k'', JNum 7), (2, ''k'', JNull)]"
  by (subst submits_append_only)
     (simp_all add: find_EnsureStream stream_log_def submissions_to_def)

theorem submit_read_back_witness:
  "\<exists>m m' sub. Submit (\<lambda>i. None) None 1 ''d'' ''s'' ''k'' (Ok (JNum 7)) [] m = (m', Ok sub)
     \<and> GetEvent None ''d'' ''s'' (sub_id sub) m' = (m', Ok (Some (JNum 7)))"
proof -
  let ?m = "fst (EnsureStream None ''d'' ''s'' NewMemoryTransport)"
  have found: "find_stream ''d'' ''s'' ?m \<noteq> None" by (simp add: find_EnsureStream)
  obtain m' sub where sub:
    "Submit (\<lambda>i. None) None 1 ''d'' ''s'' ''k'' (Ok (JNum 7)) [] ?m = (m', Ok sub)"
    using found by (auto simp: Submit_def submit_command_def Let_def split: option.splits)
  from submit_read_back[OF found _ sub] sub show ?thesis by auto
qed

end
