(* ===== verification/Interfaces.thy ===== *)
theory Interfaces
  imports Durations
begin

text \<open>
  The contracts that several components of the program share, as locales, with the lemmas a
  client of each contract relies on.

  \<^item> \<open>position_store\<close>: consumer positions (\<open>SetPosition\<close>, \<open>GetPosition\<close>, \<open>DeletePosition\<close> of
    \<open>Transport\<close> in \<open>src/pkg/v1/transport.go\<close>). Provided by the in-memory transport and by the
    Postgres \<open>ConsumerStore\<close>.
  \<^item> \<open>lock_service\<close>: consumer locks (\<open>TryAcquire\<close>, \<open>Release\<close>, \<open>HeartbeatWithPosition\<close> of
    \<open>LockFeature\<close> in \<open>src/pkg/v1/lock.go\<close>). Provided by the same two components. The client
    lemma is mutual exclusion.
\<close>

subsection \<open>Positions\<close>

text \<open>A sequence of position reports of several consumers, and the high-water mark of reports.\<close>

fun run_reports :: "('k \<Rightarrow> int64 \<Rightarrow> 's \<Rightarrow> 's \<times> bool) \<Rightarrow> ('k \<times> int64) list \<Rightarrow> 's \<Rightarrow> 's" where
  "run_reports setp [] s = s"
| "run_reports setp ((k, v) # ops) s = run_reports setp ops (fst (setp k v s))"

fun high_water :: "int64 option \<Rightarrow> int64 list \<Rightarrow> int64 option" where
  "high_water p [] = p"
| "high_water None (v # vs) = high_water (Some v) vs"
| "high_water (Some c) (v # vs) = high_water (Some (max c v)) vs"

locale position_store =
  fixes setp :: "'k \<Rightarrow> int64 \<Rightarrow> 's \<Rightarrow> 's \<times> bool"
    and getp :: "'k \<Rightarrow> 's \<Rightarrow> int64 option"
    and delp :: "'k \<Rightarrow> 's \<Rightarrow> 's"
    and valid :: "'k \<Rightarrow> 's \<Rightarrow> bool"
    and inv :: "'s \<Rightarrow> bool"
  assumes set_forward:
      "inv s \<Longrightarrow> valid k s \<Longrightarrow> (\<And>c. getp k s = Some c \<Longrightarrow> c \<le> v) \<Longrightarrow>
         snd (setp k v s) \<and> getp k (fst (setp k v s)) = Some v"
    and set_backward:
      "inv s \<Longrightarrow> valid k s \<Longrightarrow> getp k s = Some c \<Longrightarrow> v < c \<Longrightarrow>
         \<not> snd (setp k v s) \<and> getp k (fst (setp k v s)) = Some c"
    and set_frame:
      "inv s \<Longrightarrow> valid k s \<Longrightarrow> valid k' s \<Longrightarrow> k' \<noteq> k \<Longrightarrow>
         getp k' (fst (setp k v s)) = getp k' s"
    and del_same: "inv s \<Longrightarrow> valid k s \<Longrightarrow> getp k (delp k s) = None"
    and del_frame:
      "inv s \<Longrightarrow> valid k s \<Longrightarrow> valid k' s \<Longrightarrow> k' \<noteq> k \<Longrightarrow> getp k' (delp k s) = getp k' s"
    and inv_set: "inv s \<Longrightarrow> valid k s \<Longrightarrow> inv (fst (setp k v s))"
    and inv_del: "inv s \<Longrightarrow> valid k s \<Longrightarrow> inv (delp k s)"
    and valid_set: "inv s \<Longrightarrow> valid k s \<Longrightarrow> valid k' (fst (setp k v s)) = valid k' s"
    and valid_del: "inv s \<Longrightarrow> valid k s \<Longrightarrow> valid k' (delp k s) = valid k' s"
begin

abbreviation run_sets :: "('k \<times> int64) list \<Rightarrow> 's \<Rightarrow> 's" where
  "run_sets \<equiv> run_reports setp"

lemma run_sets_keeps:
  "inv s \<Longrightarrow> (\<forall>(k, v) \<in> set ops. valid k s) \<Longrightarrow>
     inv (run_sets ops s) \<and> (\<forall>k. valid k (run_sets ops s) = valid k s)"
proof (induction ops arbitrary: s)
  case Nil
  then show ?case by simp
next
  case (Cons op ops)
  obtain k v where op: "op = (k, v)" by (cases op)
  let ?s = "fst (setp k v s)"
  from Cons.prems op have k: "valid k s" by auto
  with Cons.prems have "inv ?s" by (simp add: inv_set)
  moreover from Cons.prems k op have "\<forall>(k', v') \<in> set ops. valid k' ?s"
    by (auto simp: valid_set)
  ultimately show ?case using Cons.IH[of ?s] Cons.prems(1) k op by (simp add: valid_set)
qed

lemma set_step:
  assumes "inv s" "valid k s" "valid k' s"
  shows "getp k' (fst (setp k v s)) =
           (if k' = k then high_water (getp k s) [v] else getp k' s)"
proof (cases "k' = k")
  case False
  with assms show ?thesis by (simp add: set_frame)
next
  case True
  show ?thesis
  proof (cases "getp k s")
    case None
    with assms True set_forward[of s k v] show ?thesis by simp
  next
    case (Some c)
    show ?thesis
    proof (cases "v < c")
      case True
      with assms Some set_backward[of s k c v] \<open>k' = k\<close> show ?thesis by (simp add: max_def)
    next
      case False
      with assms Some set_forward[of s k v] \<open>k' = k\<close> show ?thesis by (simp add: max_def)
    qed
  qed
qed

text \<open>Positions are forward-only: a store holds the high-water mark of the reports.\<close>

lemma run_sets_high_water:
  "inv s \<Longrightarrow> (\<forall>(k, v) \<in> set ops. valid k s) \<Longrightarrow> valid k s \<Longrightarrow>
     getp k (run_sets ops s) = high_water (getp k s) (map snd (filter (\<lambda>op. fst op = k) ops))"
proof (induction ops arbitrary: s)
  case Nil
  then show ?case by simp
next
  case (Cons op ops)
  obtain j v where op: "op = (j, v)" by (cases op)
  let ?s = "fst (setp j v s)"
  from Cons.prems op have j: "valid j s" by auto
  have "getp k (run_sets ops ?s)
      = high_water (getp k ?s) (map snd (filter (\<lambda>op. fst op = k) ops))"
    using Cons.prems j by (intro Cons.IH) (auto simp: inv_set valid_set)
  also have "getp k ?s = (if k = j then high_water (getp j s) [v] else getp k s)"
    using Cons.prems j by (intro set_step) auto
  finally show ?case using op by (cases "getp j s") auto
qed

end

subsection \<open>Locks\<close>

text \<open>
  What a client of the locks does: it acquires, releases or heartbeats, each at a time of the
  service's clock. \<open>lock_row\<close> is the stored lock of a key: holder, expiry and TTL; \<open>named\<close> are the
  holder names that the provider accepts for a release.
\<close>

datatype 'k lock_op =
    Acquire time 'k string duration
  | ReleaseLock time 'k string
  | Beat time 'k string int64

fun op_time :: "'k lock_op \<Rightarrow> time" where
  "op_time (Acquire t k h d) = t"
| "op_time (ReleaseLock t k h) = t"
| "op_time (Beat t k h p) = t"

text \<open>
  The operations that do not end or shorten the hold of \<open>h\<close> on \<open>k\<close> themselves: everything of
  other holders and on other keys, and the heartbeats of \<open>h\<close>.
\<close>

fun keeps_hold :: "'k \<Rightarrow> string \<Rightarrow> 'k lock_op \<Rightarrow> bool" where
  "keeps_hold k h (Acquire t k' h' d) = (k' \<noteq> k \<or> h' \<noteq> h)"
| "keeps_hold k h (ReleaseLock t k' h') = (k' \<noteq> k \<or> h' \<noteq> h)"
| "keeps_hold k h (Beat t k' h' p) = True"

fun lock_step ::
  "(time \<Rightarrow> 'k \<Rightarrow> string \<Rightarrow> duration \<Rightarrow> 's \<Rightarrow> 's \<times> bool) \<Rightarrow> (time \<Rightarrow> 'k \<Rightarrow> string \<Rightarrow> 's \<Rightarrow> 's \<times> bool)
   \<Rightarrow> (time \<Rightarrow> 'k \<Rightarrow> string \<Rightarrow> int64 \<Rightarrow> 's \<Rightarrow> 's \<times> bool) \<Rightarrow> 'k lock_op \<Rightarrow> 's \<Rightarrow> 's \<times> bool" where
  "lock_step acq rel beat (Acquire t k h d) s = acq t k h d s"
| "lock_step acq rel beat (ReleaseLock t k h) s = rel t k h s"
| "lock_step acq rel beat (Beat t k h p) s = beat t k h p s"

text \<open>The answers of a whole sequence of operations, in order.\<close>

fun lock_run ::
  "(time \<Rightarrow> 'k \<Rightarrow> string \<Rightarrow> duration \<Rightarrow> 's \<Rightarrow> 's \<times> bool) \<Rightarrow> (time \<Rightarrow> 'k \<Rightarrow> string \<Rightarrow> 's \<Rightarrow> 's \<times> bool)
   \<Rightarrow> (time \<Rightarrow> 'k \<Rightarrow> string \<Rightarrow> int64 \<Rightarrow> 's \<Rightarrow> 's \<times> bool) \<Rightarrow> 'k lock_op list \<Rightarrow> 's \<Rightarrow> 's \<times> bool list" where
  "lock_run acq rel beat [] s = (s, [])"
| "lock_run acq rel beat (op # ops) s =
     (case lock_step acq rel beat op s of
        (s1, b) \<Rightarrow> (case lock_run acq rel beat ops s1 of (s2, bs) \<Rightarrow> (s2, b # bs)))"

locale lock_service =
  fixes acquire :: "time \<Rightarrow> 'k \<Rightarrow> string \<Rightarrow> duration \<Rightarrow> 's \<Rightarrow> 's \<times> bool"
    and release :: "time \<Rightarrow> 'k \<Rightarrow> string \<Rightarrow> 's \<Rightarrow> 's \<times> bool"
    and heartbeat :: "time \<Rightarrow> 'k \<Rightarrow> string \<Rightarrow> int64 \<Rightarrow> 's \<Rightarrow> 's \<times> bool"
    and lock_row :: "'k \<Rightarrow> 's \<Rightarrow> (string \<times> time \<times> duration) option"
    and inv :: "'s \<Rightarrow> bool"
    and valid :: "'k \<Rightarrow> 's \<Rightarrow> bool"
    and named :: "string \<Rightarrow> bool"
  assumes acquire_held:
      "inv s \<Longrightarrow> valid k s \<Longrightarrow> lock_row k s = Some (h', u, d') \<Longrightarrow> now \<le> u \<Longrightarrow> h' \<noteq> h \<Longrightarrow>
         \<not> snd (acquire now k h d s) \<and> (\<forall>j. lock_row j (fst (acquire now k h d s)) = lock_row j s)"
    and acquire_free:
      "inv s \<Longrightarrow> valid k s \<Longrightarrow> LockMinimumTTL \<le> d \<Longrightarrow>
         (\<And>h' u d'. lock_row k s = Some (h', u, d') \<Longrightarrow> u < now \<or> h' = h) \<Longrightarrow>
         snd (acquire now k h d s) \<and>
         lock_row k (fst (acquire now k h d s)) = Some (h, now + d, d)"
    and acquire_frame:
      "inv s \<Longrightarrow> j \<noteq> k \<Longrightarrow> lock_row j s = Some (h', u, d') \<Longrightarrow> now \<le> u \<Longrightarrow>
         lock_row j (fst (acquire now k h d s)) = lock_row j s"
    and release_other:
      "inv s \<Longrightarrow> lock_row j s = Some (h', u, d') \<Longrightarrow> j \<noteq> k \<or> h' \<noteq> h \<Longrightarrow>
         lock_row j (fst (release now k h s)) = lock_row j s"
    and release_held:
      "inv s \<Longrightarrow> valid k s \<Longrightarrow> named h \<Longrightarrow> lock_row k s = Some (h, u, d') \<Longrightarrow> now < u \<Longrightarrow>
         snd (release now k h s) \<and> lock_row k (fst (release now k h s)) = None"
    and beat_frame:
      "inv s \<Longrightarrow> j \<noteq> k \<or> (\<exists>h' u d'. lock_row j s = Some (h', u, d') \<and> h' \<noteq> h) \<Longrightarrow>
         lock_row j (fst (heartbeat now k h p s)) = lock_row j s"
    and beat_held:
      "inv s \<Longrightarrow> lock_row k s = Some (h, u, d) \<Longrightarrow>
         lock_row k (fst (heartbeat now k h p s)) = Some (h, u, d) \<or>
         lock_row k (fst (heartbeat now k h p s)) = Some (h, now + d, d)"
    and inv_acquire: "inv s \<Longrightarrow> inv (fst (acquire now k h d s))"
    and inv_release: "inv s \<Longrightarrow> inv (fst (release now k h s))"
    and inv_beat: "inv s \<Longrightarrow> inv (fst (heartbeat now k h p s))"
    and valid_acquire: "inv s \<Longrightarrow> valid j (fst (acquire now k h d s)) = valid j s"
    and valid_release: "inv s \<Longrightarrow> valid j (fst (release now k h s)) = valid j s"
    and valid_beat: "inv s \<Longrightarrow> valid j (fst (heartbeat now k h p s)) = valid j s"
begin

abbreviation step :: "'k lock_op \<Rightarrow> 's \<Rightarrow> 's \<times> bool" where
  "step \<equiv> lock_step acquire release heartbeat"

abbreviation run :: "'k lock_op list \<Rightarrow> 's \<Rightarrow> 's \<times> bool list" where
  "run \<equiv> lock_run acquire release heartbeat"

definition holds_through :: "'k \<Rightarrow> string \<Rightarrow> time \<Rightarrow> duration \<Rightarrow> 's \<Rightarrow> bool" where
  "holds_through k h t d s \<longleftrightarrow>
     inv s \<and> valid k s \<and> (\<exists>u. lock_row k s = Some (h, u, d) \<and> t + d \<le> u)"

lemma lock_step_inv: "inv s \<Longrightarrow> inv (fst (step op s))"
  by (cases op) (simp_all add: inv_acquire inv_release inv_beat)

lemma lock_step_valid: "inv s \<Longrightarrow> valid j (fst (step op s)) = valid j s"
  by (cases op) (simp_all add: valid_acquire valid_release valid_beat)

lemma hold_step:
  assumes hold: "holds_through k h t d s" and t: "t \<le> op_time op" "op_time op \<le> t + d"
    and keep: "keeps_hold k h op"
  shows "holds_through k h t d (fst (step op s))"
proof -
  from hold obtain u where row: "inv s" "valid k s" "lock_row k s = Some (h, u, d)" "t + d \<le> u"
    by (auto simp: holds_through_def)
  have "\<exists>u'. lock_row k (fst (step op s)) = Some (h, u', d) \<and> t + d \<le> u'"
  proof (cases op)
    case (Acquire t' k' h' d')
    have "lock_row k (fst (acquire t' k' h' d' s)) = lock_row k s"
    proof (cases "k' = k")
      case True
      with acquire_held[of s k h u d t' h' d'] row t keep Acquire show ?thesis by auto
    next
      case False
      with acquire_frame[of s k k' h u d t' h' d'] row t Acquire show ?thesis by auto
    qed
    with Acquire row show ?thesis by auto
  next
    case (ReleaseLock t' k' h')
    with release_other[of s k h u d k' h' t'] row keep show ?thesis by auto
  next
    case (Beat t' k' h' p)
    show ?thesis
    proof (cases "k' = k \<and> h' = h")
      case True
      with beat_held[of s k h u d t' p] row t Beat show ?thesis by auto
    next
      case False
      with row have "k \<noteq> k' \<or> (\<exists>h'' u' d'. lock_row k s = Some (h'', u', d') \<and> h'' \<noteq> h')"
        by auto
      with row(1) have "lock_row k (fst (heartbeat t' k' h' p s)) = lock_row k s"
        by (rule beat_frame)
      with row Beat show ?thesis by auto
    qed
  qed
  with row show ?thesis
    by (auto simp: holds_through_def lock_step_inv lock_step_valid)
qed

lemma hold_run:
  "holds_through k h t d s \<Longrightarrow>
     (\<forall>op \<in> set ops. t \<le> op_time op \<and> op_time op \<le> t + d \<and> keeps_hold k h op) \<Longrightarrow>
     holds_through k h t d (fst (run ops s))"
proof (induction ops arbitrary: s)
  case Nil
  then show ?case by simp
next
  case (Cons op ops)
  from Cons.prems have "holds_through k h t d (fst (step op s))"
    by (intro hold_step) auto
  with Cons.prems have "holds_through k h t d (fst (run ops (fst (step op s))))"
    by (intro Cons.IH) auto
  then show ?case by (simp add: case_prod_beta)
qed

text \<open>
  Mutual exclusion: a holder that was granted the lock at \<open>t\<close> with TTL \<open>d\<close> is the only one to
  be granted it up to \<open>t + d\<close>, whatever the other clients do meanwhile.
\<close>

lemma mutual_exclusion:
  assumes "inv s" "valid k s"
    and granted: "acquire t k h d s = (s1, True)" and d: "LockMinimumTTL \<le> d"
    and ops: "\<forall>op \<in> set ops. t \<le> op_time op \<and> op_time op \<le> t + d \<and> keeps_hold k h op"
    and h': "h' \<noteq> h" and t': "t' \<le> t + d"
  shows "\<not> snd (acquire t' k h' d' (fst (run ops s1)))"
proof -
  have free: "u < t \<or> h'' = h" if "lock_row k s = Some (h'', u, d'')" for h'' u d''
  proof (rule ccontr)
    assume "\<not> (u < t \<or> h'' = h)"
    with acquire_held[of s k h'' u d'' t h d] that assms(1,2) granted show False by simp
  qed
  from acquire_free[of s k d t h] free assms(1,2) d granted
  have "lock_row k s1 = Some (h, t + d, d)" by auto
  moreover from assms granted have "inv s1" "valid k s1"
    using inv_acquire[of s t k h d] valid_acquire[of s k t k h d] by simp_all
  ultimately have "holds_through k h t d s1" by (simp add: holds_through_def)
  then have "holds_through k h t d (fst (run ops s1))" using ops by (rule hold_run)
  then obtain u where "inv (fst (run ops s1))" "valid k (fst (run ops s1))"
    "lock_row k (fst (run ops s1)) = Some (h, u, d)" "t + d \<le> u"
    by (auto simp: holds_through_def)
  with acquire_held[of _ k h u d t' h' d'] h' t' show ?thesis by fastforce
qed

text \<open>A released lock is free at once for everybody.\<close>

lemma release_then_acquire:
  assumes "inv s" "valid k s" "named h" "lock_row k s = Some (h, u, d)" "now < u" "LockMinimumTTL \<le> d'"
  shows "snd (acquire now' k h' d' (fst (release now k h s)))"
proof -
  have rel: "lock_row k (fst (release now k h s)) = None"
    using release_held[of s k h u d now] assms by simp
  have "inv (fst (release now k h s))" "valid k (fst (release now k h s))"
    using assms by (simp_all add: inv_release valid_release)
  from acquire_free[OF this assms(6), of now' h'] rel show ?thesis by simp
qed

end

end
