(* ===== verification/MemoryLocks.thy ===== *)
theory MemoryLocks
  imports MemoryStore Interfaces
begin

text \<open>
  Consumer positions and consumer locks of the in-memory transport: the second half of
  \<open>src/pkg/v1/memory.go\<close> and the \<open>MemoryLock\<close> lease of \<open>src/pkg/v1/wire_adapter.go\<close>.
  Each exported operation is a definition of the same name prefixed with \<open>mem_\<close>; the
  \<open>...Internal\<close> helpers that run on the service goroutine keep their names.
\<close>

subsection \<open>Positions\<close>

definition positionKey :: "string \<Rightarrow> string \<Rightarrow> string \<Rightarrow> string" where
  "positionKey domain stream consumer = domain @ ''/'' @ stream @ ''/'' @ consumer"

definition position_of :: "string \<Rightarrow> string \<Rightarrow> string \<Rightarrow> memory \<Rightarrow> int64 option" where
  "position_of domain stream consumer m =
     (case Mapping.lookup (m_positions m) (positionKey domain stream consumer) of
        None \<Rightarrow> None
      | Some ps \<Rightarrow> Mapping.lookup ps consumer)"

text \<open>
  \<open>if _, ok := m.positions[key]; !ok { m.positions[key] = make(...) }; m.positions[key][consumer] = id\<close>
\<close>

definition store_position :: "string \<Rightarrow> string \<Rightarrow> string \<Rightarrow> int64 \<Rightarrow> memory \<Rightarrow> memory" where
  "store_position domain stream consumer eventID m =
     (let key = positionKey domain stream consumer;
          ps = (case Mapping.lookup (m_positions m) key of None \<Rightarrow> Mapping.empty | Some ps \<Rightarrow> ps)
      in m\<lparr>m_positions := Mapping.update key (Mapping.update consumer eventID ps) (m_positions m)\<rparr>)"

definition mem_SetPosition ::
  "goerror option \<Rightarrow> string \<Rightarrow> string \<Rightarrow> string \<Rightarrow> int64 \<Rightarrow> memory
     \<Rightarrow> memory \<times> SetPositionResult outcome" where
  "mem_SetPosition net domain stream consumer eventID =
     simulateNetwork net (\<lambda>m.
       case position_of domain stream consumer m of
         Some currentID \<Rightarrow>
           (if eventID < currentID then (m, Err (TextError ''cannot set position backwards''))
            else (store_position domain stream consumer eventID m,
                  Ok \<lparr>sp_previous = Some currentID, sp_current = eventID\<rparr>))
       | None \<Rightarrow>
           (store_position domain stream consumer eventID m,
            Ok \<lparr>sp_previous = None, sp_current = eventID\<rparr>))"

text \<open>\<open>GetPosition\<close> returns the pair \<open>(eventID, found)\<close>.\<close>

definition mem_GetPosition ::
  "goerror option \<Rightarrow> string \<Rightarrow> string \<Rightarrow> string \<Rightarrow> memory \<Rightarrow> memory \<times> (int64 \<times> bool) outcome" where
  "mem_GetPosition net domain stream consumer =
     simulateNetwork net (\<lambda>m.
       (m, case position_of domain stream consumer m of
             Some i \<Rightarrow> Ok (i, True)
           | None \<Rightarrow> Ok (0, False)))"

definition mem_ListConsumers ::
  "string list \<Rightarrow> goerror option \<Rightarrow> string \<Rightarrow> string \<Rightarrow> memory \<Rightarrow> memory \<times> string list outcome" where
  "mem_ListConsumers order net domain stream =
     simulateNetwork net (\<lambda>m.
       let prefix = domain @ ''/'' @ stream @ ''/''
       in (m, Ok (map (drop (length prefix))
                    (filter (\<lambda>key. length prefix < length key \<and> take (length prefix) key = prefix)
                       order))))"

definition mem_DeletePosition ::
  "goerror option \<Rightarrow> string \<Rightarrow> string \<Rightarrow> string \<Rightarrow> memory \<Rightarrow> memory \<times> unit outcome" where
  "mem_DeletePosition net domain stream consumer =
     simulateNetwork net (\<lambda>m.
       let key = positionKey domain stream consumer
       in case Mapping.lookup (m_positions m) key of
            None \<Rightarrow> (m, Ok ())
          | Some ps \<Rightarrow>
              (let ps' = Mapping.delete consumer ps
               in (m\<lparr>m_positions := (if Mapping.is_empty ps' then Mapping.delete key (m_positions m)
                                     else Mapping.update key ps' (m_positions m))\<rparr>, Ok ())))"

subsection \<open>Acquiring, releasing, inspecting\<close>

fun clean_loop ::
  "string \<Rightarrow> string \<Rightarrow> string \<Rightarrow> time \<Rightarrow> string list \<Rightarrow> nat \<Rightarrow> memory
     \<Rightarrow> memory \<times> LockReleasedEvent list" where
  "clean_loop domain stream excludeConsumer now [] deleted m = (m, [])"
| "clean_loop domain stream excludeConsumer now (consumer # order) deleted m =
     (if consumer = excludeConsumer
      then clean_loop domain stream excludeConsumer now order deleted m
      else if 128 \<le> deleted then (m, [])
      else case lockState domain stream consumer m of
             None \<Rightarrow> clean_loop domain stream excludeConsumer now order deleted m
           | Some l \<Rightarrow>
               (if now > ls_heldUntil l
                then (case clean_loop domain stream excludeConsumer now order (Suc deleted)
                             (deleteLock domain stream consumer (stop_timer (ls_expiryTimer l) m)) of
                        (m', events) \<Rightarrow>
                          (m', \<lparr>ev_domain = domain, ev_stream = stream, ev_consumer = consumer,
                                ev_holder = ls_holder l\<rparr> # events))
                else clean_loop domain stream excludeConsumer now order deleted m))"

definition cleanExpiredLocks ::
  "string list \<Rightarrow> string \<Rightarrow> string \<Rightarrow> string \<Rightarrow> time \<Rightarrow> memory \<Rightarrow> memory \<times> LockReleasedEvent list" where
  "cleanExpiredLocks order domain stream excludeConsumer now m =
     clean_loop domain stream excludeConsumer now order 0 m"

definition tryAcquireInternal ::
  "string list \<Rightarrow> time \<Rightarrow> string \<Rightarrow> string \<Rightarrow> string \<Rightarrow> string \<Rightarrow> duration \<Rightarrow> memory
     \<Rightarrow> memory \<times> LockResult \<times> LockReleasedEvent list" where
  "tryAcquireInternal order now domain stream consumer holder ttl m =
     (case (case lockState domain stream consumer m of
              None \<Rightarrow> None
            | Some existing \<Rightarrow>
                (if \<not> now > ls_heldUntil existing \<and> ls_holder existing \<noteq> holder
                 then Some existing else None)) of
        Some existing \<Rightarrow>
          (m, \<lparr>lr_acquired = False, lr_heldBy = ls_holder existing,
               lr_guaranteeUntil = ls_guaranteeUntil existing,
               lr_heldUntil = ls_heldUntil existing, lr_position = - 1\<rparr>, [])
      | None \<Rightarrow>
          (let (m1, expired) = cleanExpiredLocks order domain stream consumer now m;
               guaranteeUntil = now + scale09 ttl;
               heldUntil = now + ttl;
               (timer, m2) = after_func (now + ttl)
                  \<lparr>xo_domain = domain, xo_stream = stream, xo_consumer = consumer,
                   xo_generation = 0\<rparr> m1;
               newState = \<lparr>ls_holder = holder, ls_acquiredAt = now, ls_heartbeatAt = now,
                           ls_ttl = ttl, ls_guaranteeUntil = guaranteeUntil,
                           ls_heldUntil = heldUntil, ls_expiryTimer = Some timer,
                           ls_generation = 0\<rparr>;
               m3 = setLock domain stream consumer newState m2;
               position = (case position_of domain stream consumer m3 of None \<Rightarrow> 0 | Some p \<Rightarrow> p)
           in (m3, \<lparr>lr_acquired = True, lr_heldBy = holder, lr_guaranteeUntil = guaranteeUntil,
                    lr_heldUntil = heldUntil, lr_position = position\<rparr>, expired)))"

text \<open>
  \<open>TryAcquire\<close> returns both a result and an error: a subscriber that fails on one of the
  cleanup events makes the error non-nil although the lock has been acquired.
\<close>

definition emit_all ::
  "(LockReleasedEvent \<Rightarrow> goerror option) \<Rightarrow> LockReleasedEvent list \<Rightarrow> goerror option" where
  "emit_all emit events = fold (\<lambda>evt err. join_err err (emit evt)) events None"

definition mem_TryAcquire ::
  "(LockReleasedEvent \<Rightarrow> goerror option) \<Rightarrow> string list \<Rightarrow> goerror option \<Rightarrow> time
     \<Rightarrow> string \<Rightarrow> string \<Rightarrow> string \<Rightarrow> string \<Rightarrow> duration \<Rightarrow> memory
     \<Rightarrow> memory \<times> (LockResult option \<times> goerror option) outcome" where
  "mem_TryAcquire emit order net now domain stream consumer holder ttl m =
     (if ttl < LockMinimumTTL then (m, Ok (None, Some (TTLTooLowError ttl LockMinimumTTL)))
      else case simulateNetwork net
                  (\<lambda>m. case tryAcquireInternal order now domain stream consumer holder ttl m of
                         (m', result, expired) \<Rightarrow> (m', Ok (result, expired))) m of
             (m', Ok (result, expired)) \<Rightarrow> (m', Ok (Some result, emit_all emit expired))
           | (m', Err e) \<Rightarrow> (m', Ok (None, Some e))
           | (m', Panic p) \<Rightarrow> (m', Panic p))"

definition releaseInternal ::
  "time \<Rightarrow> string \<Rightarrow> string \<Rightarrow> string \<Rightarrow> string \<Rightarrow> memory \<Rightarrow> memory \<times> bool outcome" where
  "releaseInternal now domain stream consumer holder m =
     (case lockState domain stream consumer m of
        None \<Rightarrow> (m, Ok False)
      | Some state \<Rightarrow>
          (if now > ls_heldUntil state then (m, Ok False)
           else if ls_holder state \<noteq> holder
           then (m, Err (LockNotHeldError consumer holder domain stream))
           else (deleteLock domain stream consumer (stop_timer (ls_expiryTimer state) m), Ok True)))"

definition mem_Release ::
  "(LockReleasedEvent \<Rightarrow> goerror option) \<Rightarrow> goerror option \<Rightarrow> time
     \<Rightarrow> string \<Rightarrow> string \<Rightarrow> string \<Rightarrow> string \<Rightarrow> memory \<Rightarrow> memory \<times> unit outcome" where
  "mem_Release emit net now domain stream consumer holder m =
     (case simulateNetwork net (releaseInternal now domain stream consumer holder) m of
        (m', Ok released) \<Rightarrow>
          (m', if released
               then (case join_err None (emit \<lparr>ev_domain = domain, ev_stream = stream,
                                              ev_consumer = consumer, ev_holder = holder\<rparr>) of
                       None \<Rightarrow> Ok () | Some e \<Rightarrow> Err e)
               else Ok ())
      | (m', Err e) \<Rightarrow> (m', Err e)
      | (m', Panic p) \<Rightarrow> (m', Panic p))"

definition lock_view :: "string \<Rightarrow> string \<Rightarrow> string \<Rightarrow> memoryLockState \<Rightarrow> LockState" where
  "lock_view domain stream consumer l =
     \<lparr>lk_consumer = consumer, lk_domain = domain, lk_stream = stream, lk_holder = ls_holder l,
      lk_acquiredAt = ls_acquiredAt l, lk_heartbeatAt = ls_heartbeatAt l, lk_ttl = ls_ttl l,
      lk_guaranteeUntil = ls_guaranteeUntil l, lk_heldUntil = ls_heldUntil l\<rparr>"

text \<open>\<open>GetLock\<close>: \<open>Ok None\<close> is \<open>(nil, false, nil)\<close>.\<close>

definition mem_GetLock ::
  "goerror option \<Rightarrow> time \<Rightarrow> string \<Rightarrow> string \<Rightarrow> string \<Rightarrow> memory \<Rightarrow> memory \<times> LockState option outcome" where
  "mem_GetLock net now domain stream consumer =
     simulateNetwork net (\<lambda>m.
       (m, case lockState domain stream consumer m of
             None \<Rightarrow> Ok None
           | Some existing \<Rightarrow>
               (if now > ls_heldUntil existing then Ok None
                else Ok (Some (lock_view domain stream consumer existing)))))"

definition mem_ListLocks ::
  "string list \<Rightarrow> goerror option \<Rightarrow> time \<Rightarrow> string \<Rightarrow> string \<Rightarrow> memory
     \<Rightarrow> memory \<times> LockState list outcome" where
  "mem_ListLocks order net now domain stream =
     simulateNetwork net (\<lambda>m.
       (m, Ok (List.map_filter (\<lambda>consumer.
                 case lockState domain stream consumer m of
                   None \<Rightarrow> None
                 | Some l \<Rightarrow> (if now > ls_heldUntil l then None
                              else Some (lock_view domain stream consumer l))) order)))"

subsection \<open>Heartbeats\<close>

definition checkPositionConflict ::
  "string \<Rightarrow> string \<Rightarrow> string \<Rightarrow> int64 \<Rightarrow> memory \<Rightarrow> goerror option" where
  "checkPositionConflict domain stream consumer position m =
     (case position_of domain stream consumer m of
        None \<Rightarrow> None
      | Some currentID \<Rightarrow>
          (if position < currentID then Some (HeartbeatConflictError position currentID) else None))"

definition heartbeatLockAndPosition ::
  "time \<Rightarrow> string \<Rightarrow> string \<Rightarrow> string \<Rightarrow> string \<Rightarrow> int64 \<Rightarrow> memory \<Rightarrow> memory \<times> unit outcome" where
  "heartbeatLockAndPosition now domain stream consumer holder position m =
     (case lockState domain stream consumer m of
        None \<Rightarrow> (m, Err (LockExpiredError consumer domain stream))
      | Some existing \<Rightarrow>
          (if now > ls_heldUntil existing then (m, Err (LockExpiredError consumer domain stream))
           else if ls_holder existing \<noteq> holder
           then (m, Err (LockNotHeldError consumer holder domain stream))
           else case checkPositionConflict domain stream consumer position m of
                  Some e \<Rightarrow> (m, Err e)
                | None \<Rightarrow>
                    (let gen = ls_generation existing + 1;
                         m1 = stop_timer (ls_expiryTimer existing) m;
                         (timer, m2) = after_func (now + ls_ttl existing)
                            \<lparr>xo_domain = domain, xo_stream = stream, xo_consumer = consumer,
                             xo_generation = gen\<rparr> m1;
                         renewed = existing\<lparr>ls_heartbeatAt := now,
                            ls_guaranteeUntil := now + scale09 (ls_ttl existing),
                            ls_heldUntil := now + ls_ttl existing,
                            ls_generation := gen, ls_expiryTimer := Some timer\<rparr>;
                         m3 = setLock domain stream consumer renewed m2
                     in (store_position domain stream consumer position m3, Ok ()))))"

definition mem_HeartbeatWithPosition ::
  "goerror option \<Rightarrow> time \<Rightarrow> string \<Rightarrow> string \<Rightarrow> string \<Rightarrow> string \<Rightarrow> int64 \<Rightarrow> memory
     \<Rightarrow> memory \<times> unit outcome" where
  "mem_HeartbeatWithPosition net now domain stream consumer holder position =
     simulateNetwork net (heartbeatLockAndPosition now domain stream consumer holder position)"

subsection \<open>Leases and waiting\<close>

record MemoryLock =
  ml_domain :: string
  ml_stream :: string
  ml_consumer :: string
  ml_holder :: string

definition MemoryLock_Heartbeat ::
  "goerror option \<Rightarrow> time \<Rightarrow> MemoryLock \<Rightarrow> int64 \<Rightarrow> memory \<Rightarrow> memory \<times> unit outcome" where
  "MemoryLock_Heartbeat net now l position =
     mem_HeartbeatWithPosition net now (ml_domain l) (ml_stream l) (ml_consumer l) (ml_holder l)
       position"

definition MemoryLock_Release ::
  "(LockReleasedEvent \<Rightarrow> goerror option) \<Rightarrow> goerror option \<Rightarrow> time \<Rightarrow> MemoryLock \<Rightarrow> memory
     \<Rightarrow> memory \<times> unit outcome" where
  "MemoryLock_Release emit net now l =
     mem_Release emit net now (ml_domain l) (ml_stream l) (ml_consumer l) (ml_holder l)"

text \<open>One acquisition attempt: \<open>Ok None\<close> when the lock is held by another holder.\<close>

definition tryAcquireWithLease ::
  "(LockReleasedEvent \<Rightarrow> goerror option) \<Rightarrow> string list \<Rightarrow> goerror option \<Rightarrow> time
     \<Rightarrow> string \<Rightarrow> string \<Rightarrow> string \<Rightarrow> string \<Rightarrow> duration \<Rightarrow> memory
     \<Rightarrow> memory \<times> (MemoryLock \<times> int64) option outcome" where
  "tryAcquireWithLease emit order net now domain stream consumer holder ttl m =
     (case mem_TryAcquire emit order net now domain stream consumer holder ttl m of
        (m', Panic p) \<Rightarrow> (m', Panic p)
      | (m', Err e) \<Rightarrow> (m', Err e)
      | (m', Ok (result, Some e)) \<Rightarrow> (m', Err e)
      | (m', Ok (None, None)) \<Rightarrow> (m', Panic ''nil pointer dereference'')
      | (m', Ok (Some result, None)) \<Rightarrow>
          (m', if lr_acquired result
               then Ok (Some (\<lparr>ml_domain = domain, ml_stream = stream, ml_consumer = consumer,
                              ml_holder = holder\<rparr>, lr_position result))
               else Ok None))"

text \<open>
  \<open>WaitForLock\<close>: the loop's scheduling is explicit. Each \<open>attempt\<close> says what the clock, the
  runtime and the subscribers do during one acquisition attempt, and how the following
  \<open>select\<close> ends: with the context's error, or with a release notification, before which the
  other goroutines have changed the state as \<open>at_env\<close> says. With no attempt left the caller is still
  blocked: \<open>None\<close>.
\<close>

record attempt =
  at_emit :: "LockReleasedEvent \<Rightarrow> goerror option"
  at_order :: "string list"
  at_net :: "goerror option"
  at_now :: time
  at_ctx :: "goerror option"
  at_env :: "memory \<Rightarrow> memory"

fun mem_WaitForLock ::
  "attempt list \<Rightarrow> string \<Rightarrow> string \<Rightarrow> string \<Rightarrow> string \<Rightarrow> duration \<Rightarrow> memory
     \<Rightarrow> memory \<times> (MemoryLock \<times> int64 \<times> duration) outcome option" where
  "mem_WaitForLock [] domain stream consumer holder ttl m = (m, None)"
| "mem_WaitForLock (a # as) domain stream consumer holder ttl m =
     (case tryAcquireWithLease (at_emit a) (at_order a) (at_net a) (at_now a)
             domain stream consumer holder ttl m of
        (m', Err e) \<Rightarrow> (m', Some (Err e))
      | (m', Panic p) \<Rightarrow> (m', Some (Panic p))
      | (m', Ok (Some (lock, position))) \<Rightarrow> (m', Some (Ok (lock, position, scale09 ttl)))
      | (m', Ok None) \<Rightarrow>
          (case at_ctx a of
             Some e \<Rightarrow> (m', Some (Err e))
           | None \<Rightarrow> mem_WaitForLock as domain stream consumer holder ttl (at_env a m')))"


subsection \<open>The locks and positions as a client sees them\<close>

text \<open>
  A consumer is named by domain, stream and consumer name. The following definitions give the
  exported operations in the form of the contracts \<open>lock_service\<close> and \<open>position_store\<close>:
  whether the operation succeeded, and the state after it.
\<close>

type_synonym consumer_key = "string \<times> string \<times> string"

definition mem_lock_row :: "consumer_key \<Rightarrow> memory \<Rightarrow> (string \<times> time \<times> duration) option" where
  "mem_lock_row k m =
     (case k of (d, s, c) \<Rightarrow>
        map_option (\<lambda>l. (ls_holder l, ls_heldUntil l, ls_ttl l)) (lockState d s c m))"

definition mem_acquire ::
  "(LockReleasedEvent \<Rightarrow> goerror option) \<Rightarrow> (memory \<Rightarrow> string list) \<Rightarrow> time \<Rightarrow> consumer_key \<Rightarrow> string
     \<Rightarrow> duration \<Rightarrow> memory \<Rightarrow> memory \<times> bool" where
  "mem_acquire emit order now k h ttl m =
     (case k of (d, s, c) \<Rightarrow>
        (case mem_TryAcquire emit (order m) None now d s c h ttl m of
           (m', Ok (Some r, _)) \<Rightarrow> (m', lr_acquired r)
         | (m', _) \<Rightarrow> (m', False)))"

definition mem_release ::
  "(LockReleasedEvent \<Rightarrow> goerror option) \<Rightarrow> time \<Rightarrow> consumer_key \<Rightarrow> string \<Rightarrow> memory \<Rightarrow> memory \<times> bool" where
  "mem_release emit now k h m =
     (case k of (d, s, c) \<Rightarrow>
        (case releaseInternal now d s c h m of
           (m', r) \<Rightarrow> (fst (mem_Release emit None now d s c h m), r = Ok True)))"

definition mem_beat ::
  "time \<Rightarrow> consumer_key \<Rightarrow> string \<Rightarrow> int64 \<Rightarrow> memory \<Rightarrow> memory \<times> bool" where
  "mem_beat now k h p m =
     (case k of (d, s, c) \<Rightarrow>
        (case mem_HeartbeatWithPosition None now d s c h p m of (m', r) \<Rightarrow> (m', is_ok r)))"

definition mem_setp :: "consumer_key \<Rightarrow> int64 \<Rightarrow> memory \<Rightarrow> memory \<times> bool" where
  "mem_setp k v m =
     (case k of (d, s, c) \<Rightarrow> (case mem_SetPosition None d s c v m of (m', r) \<Rightarrow> (m', is_ok r)))"

definition mem_getp :: "consumer_key \<Rightarrow> memory \<Rightarrow> int64 option" where
  "mem_getp k m =
     (case k of (d, s, c) \<Rightarrow>
        (case snd (mem_GetPosition None d s c m) of Ok (i, True) \<Rightarrow> Some i | _ \<Rightarrow> None))"

definition mem_delp :: "consumer_key \<Rightarrow> memory \<Rightarrow> memory" where
  "mem_delp k m = (case k of (d, s, c) \<Rightarrow> fst (mem_DeletePosition None d s c m))"

text \<open>
  Positions are stored under the text \<open>domain/stream/consumer\<close>: the names are told apart as
  long as the domain has no slash.
\<close>

definition plain_domain :: "consumer_key \<Rightarrow> bool" where
  "plain_domain k \<longleftrightarrow> CHR ''/'' \<notin> set (fst k)"

subsection \<open>Positions: lemmas\<close>

lemma split_at_slash:
  "CHR ''/'' \<notin> set d \<Longrightarrow> CHR ''/'' \<notin> set d' \<Longrightarrow> d @ CHR ''/'' # r = d' @ CHR ''/'' # r' \<Longrightarrow>
     d = d' \<and> r = r'"
  by (induction d arbitrary: d') (auto simp: Cons_eq_append_conv append_eq_Cons_conv)

lemma positionKey_inj:
  assumes "CHR ''/'' \<notin> set d" "CHR ''/'' \<notin> set d'" "positionKey d s c = positionKey d' s' c"
  shows "d = d' \<and> s = s'"
  using split_at_slash[OF assms(1,2), of "s @ ''/'' @ c" "s' @ ''/'' @ c"] assms(3)
  by (simp add: positionKey_def)

lemma position_of_store_same [simp]:
  "position_of d s c (store_position d s c v m) = Some v"
  by (simp add: position_of_def store_position_def Let_def)

lemma position_of_store_other:
  "positionKey d' s' c' \<noteq> positionKey d s c \<or> c' \<noteq> c \<Longrightarrow>
     position_of d' s' c' (store_position d s c v m) = position_of d' s' c' m"
  by (auto simp: position_of_def store_position_def Let_def split: option.splits)

lemma store_position_frame [frame_simps, simp]:
  "m_locks (store_position d s c v m) = m_locks m"
  "m_domains (store_position d s c v m) = m_domains m"
  "m_timers (store_position d s c v m) = m_timers m"
  "m_input (store_position d s c v m) = m_input m"
  "lockState d' s' c' (store_position d s c v m) = lockState d' s' c' m"
  by (simp_all add: store_position_def Let_def)

lemma position_of_frame [simp]:
  "position_of d s c (setLock d' s' c' st m) = position_of d s c m"
  "position_of d s c (deleteLock d' s' c' m) = position_of d s c m"
  "position_of d s c (stop_timer t m) = position_of d s c m"
  "position_of d s c (snd (after_func a op m)) = position_of d s c m"
  by (simp_all add: position_of_def)

lemma mem_getp_position_of: "mem_getp (d, s, c) m = position_of d s c m"
  by (simp add: mem_getp_def mem_GetPosition_def split: option.splits)

lemma position_of_delete_same:
  "position_of d s c (fst (mem_DeletePosition net d s c m)) = None"
  by (auto simp: mem_DeletePosition_def position_of_def Let_def split: option.splits)

lemma position_of_delete_other:
  "positionKey d' s' c' \<noteq> positionKey d s c \<or> c' \<noteq> c \<Longrightarrow>
     position_of d' s' c' (fst (mem_DeletePosition net d s c m)) = position_of d' s' c' m"
  by (auto simp: mem_DeletePosition_def position_of_def Let_def mapping_is_empty_lookup
           split: option.splits)

lemma plain_domain_separates:
  assumes "plain_domain k" "plain_domain k'" "k \<noteq> k'" "k = (d, s, c)" "k' = (d', s', c')"
  shows "positionKey d' s' c' \<noteq> positionKey d s c \<or> c' \<noteq> c"
proof (rule ccontr)
  assume "\<not> ?thesis"
  with positionKey_inj[of d' d s' c s] assms show False by (auto simp: plain_domain_def)
qed

interpretation mem_positions: position_store mem_setp mem_getp mem_delp "\<lambda>k m. plain_domain k" "\<lambda>m. True"
proof (unfold_locales, goal_cases)
  case (1 s k v)
  obtain d st c where "k = (d, st, c)" by (cases k)
  with 1(3) show ?case
    by (fastforce simp: mem_setp_def mem_getp_position_of mem_SetPosition_def split: option.splits)
next
  case (2 s k c v)
  obtain d st co where "k = (d, st, co)" by (cases k)
  with 2 show ?case
    by (auto simp: mem_setp_def mem_getp_position_of mem_SetPosition_def split: option.splits)
next
  case (3 s k k' v)
  obtain d st c d' st' c' where k: "k = (d, st, c)" "k' = (d', st', c')" by (cases k, cases k')
  with plain_domain_separates[of k k' d st c d' st' c'] 3
  show ?case
    by (auto simp: mem_setp_def mem_getp_position_of mem_SetPosition_def position_of_store_other
             split: option.splits)
next
  case (4 s k)
  then show ?case
    by (cases k) (simp add: mem_delp_def mem_getp_position_of position_of_delete_same)
next
  case (5 s k k')
  obtain d st c d' st' c' where k: "k = (d, st, c)" "k' = (d', st', c')" by (cases k, cases k')
  with plain_domain_separates[of k k' d st c d' st' c'] 5
  show ?case by (auto simp: mem_delp_def mem_getp_position_of position_of_delete_other)
qed simp_all

subsection \<open>Locks: lemmas\<close>

text \<open>What the cleanup does: it deletes only locks that have run out, at most 128 of them.\<close>

lemma clean_loop_keeps:
  "lockState d' s' c' m = Some l \<Longrightarrow> now \<le> ls_heldUntil l \<Longrightarrow>
     lockState d' s' c' (fst (clean_loop d s ex now order n m)) = Some l"
proof (induction order arbitrary: n m)
  case Nil
  then show ?case by simp
next
  case (Cons x order)
  have "lockState d' s' c' (deleteLock d s x (stop_timer t m)) = Some l"
    if "lockState d s x m = Some a" "ls_heldUntil a < now" for a t
    using that Cons.prems by auto
  with Cons show ?case by (cases "lockState d s x m") (simp_all add: case_prod_beta)
qed

lemma clean_loop_excluded:
  "lockState d s ex (fst (clean_loop d s ex now order n m)) = lockState d s ex m"
proof (induction order arbitrary: n m)
  case Nil
  then show ?case by simp
next
  case (Cons x order)
  then show ?case by (cases "lockState d s x m") (auto simp: case_prod_beta)
qed

lemma clean_loop_other_stream:
  "(d', s') \<noteq> (d, s) \<Longrightarrow>
     lockState d' s' c' (fst (clean_loop d s ex now order n m)) = lockState d' s' c' m"
proof (induction order arbitrary: n m)
  case Nil
  then show ?case by simp
next
  case (Cons x order)
  then show ?case by (cases "lockState d s x m") (auto simp: case_prod_beta)
qed

lemma clean_loop_frame [frame_simps, simp]:
  "m_domains (fst (clean_loop d s ex now order n m)) = m_domains m"
  "m_positions (fst (clean_loop d s ex now order n m)) = m_positions m"
  "m_input (fst (clean_loop d s ex now order n m)) = m_input m"
  by (induction order arbitrary: n m) (auto simp: case_prod_beta split: option.splits)

lemma clean_loop_bound: "n \<le> 128 \<Longrightarrow> n + length (snd (clean_loop d s ex now order n m)) \<le> 128"
proof (induction order arbitrary: n m)
  case Nil
  then show ?case by simp
next
  case (Cons x order)
  from Cons.IH[of "Suc n"] Cons.IH[of n] Cons.prems show ?case
    by (cases "lockState d s x m") (simp_all add: case_prod_beta)
qed

text \<open>Every deleted lock had run out and is announced with its holder, and nothing else is.\<close>

lemma clean_loop_events:
  "evt \<in> set (snd (clean_loop d s ex now order n m)) \<Longrightarrow>
     ev_domain evt = d \<and> ev_stream evt = s \<and> ev_consumer evt \<in> set order \<and> ev_consumer evt \<noteq> ex
     \<and> (\<exists>l. lockState d s (ev_consumer evt) m = Some l \<and> ls_heldUntil l < now \<and> ev_holder evt = ls_holder l)"
proof (induction order arbitrary: n m)
  case Nil
  then show ?case by simp
next
  case (Cons x order)
  show ?case
  proof (cases "lockState d s x m")
    case None
    with Cons show ?thesis by (auto split: if_splits)
  next
    case (Some a)
    let ?m = "deleteLock d s x (stop_timer (ls_expiryTimer a) m)"
    consider (same) "evt \<in> set (snd (clean_loop d s ex now order n m))"
      | (hit) "x \<noteq> ex" "ls_heldUntil a < now"
          "evt = \<lparr>ev_domain = d, ev_stream = s, ev_consumer = x, ev_holder = ls_holder a\<rparr>"
      | (rest) "evt \<in> set (snd (clean_loop d s ex now order (Suc n) ?m))"
      using Cons.prems Some by (auto simp: case_prod_beta split: if_splits)
    then show ?thesis
    proof cases
      case same
      from Cons.IH[OF this] show ?thesis by auto
    next
      case hit
      with Some show ?thesis by auto
    next
      case rest
      from Cons.IH[OF this] show ?thesis by (auto split: if_splits)
    qed
  qed
qed

lemma clean_loop_complete:
  assumes "n + length (snd (clean_loop d s ex now order n m)) < 128" "c \<in> set order" "c \<noteq> ex"
    "lockState d s c (fst (clean_loop d s ex now order n m)) = Some l"
  shows "now \<le> ls_heldUntil l"
  using assms
proof (induction order arbitrary: n m)
  case Nil
  then show ?case by simp
next
  case (Cons x order)
  show ?case
  proof (cases "c \<in> set order")
    case True
    show ?thesis
    proof (cases "lockState d s x m")
      case None
      with True Cons show ?thesis by (auto split: if_splits)
    next
      case (Some a)
      with True Cons.prems Cons.IH[of n m]
        Cons.IH[of "Suc n" "deleteLock d s x (stop_timer (ls_expiryTimer a) m)"]
      show ?thesis by (auto simp: case_prod_beta split: if_splits)
    qed
  next
    case False
    then have c: "c = x" using Cons.prems by simp
    have gone: "lockState d s x (fst (clean_loop d s ex now order n' m')) \<noteq> Some l'"
      if "lockState d s x m' = None" for n' m' l'
      using that
    proof (induction order arbitrary: n' m')
      case Nil
      then show ?case by simp
    next
      case (Cons y order)
      then show ?case by (cases "lockState d s y m'") (auto simp: case_prod_beta)
    qed
    have keep: "lockState d s x (fst (clean_loop d s ex now order n m)) = Some a"
      if "lockState d s x m = Some a" "now \<le> ls_heldUntil a" for a
      using that by (rule clean_loop_keeps)
    show ?thesis
    proof (cases "lockState d s x m")
      case None
      with Cons.prems c gone[OF None] show ?thesis by (auto split: if_splits)
    next
      case (Some a)
      with Cons.prems c gone keep show ?thesis
        by (cases "ls_heldUntil a < now") (auto simp: case_prod_beta split: if_splits)
    qed
  qed
qed

text \<open>The state after an acquisition attempt, by cases.\<close>

lemma tryAcquire_held:
  assumes "lockState d s c m = Some l" "now \<le> ls_heldUntil l" "ls_holder l \<noteq> h"
  shows "tryAcquireInternal order now d s c h ttl m =
    (m, \<lparr>lr_acquired = False, lr_heldBy = ls_holder l, lr_guaranteeUntil = ls_guaranteeUntil l,
         lr_heldUntil = ls_heldUntil l, lr_position = - 1\<rparr>, [])"
  using assms by (simp add: tryAcquireInternal_def)

lemma tryAcquire_free:
  assumes "\<And>l. lockState d s c m = Some l \<Longrightarrow> ls_heldUntil l < now \<or> ls_holder l = h"
  shows "tryAcquireInternal order now d s c h ttl m =
    (let m1 = fst (clean_loop d s c now order 0 m);
         op = \<lparr>xo_domain = d, xo_stream = s, xo_consumer = c, xo_generation = 0\<rparr>
     in (setLock d s c
           \<lparr>ls_holder = h, ls_acquiredAt = now, ls_heartbeatAt = now, ls_ttl = ttl,
            ls_guaranteeUntil = now + scale09 ttl, ls_heldUntil = now + ttl,
            ls_expiryTimer = Some (m_nextTimer m1), ls_generation = 0\<rparr>
           (snd (after_func (now + ttl) op m1)),
         \<lparr>lr_acquired = True, lr_heldBy = h, lr_guaranteeUntil = now + scale09 ttl,
          lr_heldUntil = now + ttl,
          lr_position = (case position_of d s c m of None \<Rightarrow> 0 | Some p \<Rightarrow> p)\<rparr>,
         snd (clean_loop d s c now order 0 m)))"
proof -
  have "(case lockState d s c m of None \<Rightarrow> None
         | Some existing \<Rightarrow> if \<not> now > ls_heldUntil existing \<and> ls_holder existing \<noteq> h
                            then Some existing else None) = None"
    using assms by (auto split: option.splits)
  moreover have "position_of d s c (fst (clean_loop d s c now order 0 m)) = position_of d s c m"
    by (simp add: position_of_def)
  ultimately show ?thesis
    by (simp add: tryAcquireInternal_def cleanExpiredLocks_def Let_def case_prod_beta after_func_def
                  position_of_def)
qed

lemma tryAcquire_cases:
  obtains (held) l where "lockState d s c m = Some l" "now \<le> ls_heldUntil l" "ls_holder l \<noteq> h"
  | (free) "\<And>l. lockState d s c m = Some l \<Longrightarrow> ls_heldUntil l < now \<or> ls_holder l = h"
  by (metis not_le)

lemma mem_TryAcquire_state:
  "fst (mem_TryAcquire emit order net now d s c h ttl m) =
     (if ttl < LockMinimumTTL then m else fst (tryAcquireInternal order now d s c h ttl m))"
  by (auto simp: mem_TryAcquire_def simulateNetwork_def case_prod_beta split: option.splits)

lemma mem_acquire_eq:
  "mem_acquire emit order now (d, s, c) h ttl m =
     (if ttl < LockMinimumTTL then (m, False)
      else case tryAcquireInternal (order m) now d s c h ttl m of (m', r, _) \<Rightarrow> (m', lr_acquired r))"
  by (simp add: mem_acquire_def mem_TryAcquire_def case_prod_beta)

lemma mem_release_eq:
  "mem_release emit now (d, s, c) h m =
     (fst (releaseInternal now d s c h m), snd (releaseInternal now d s c h m) = Ok True)"
  by (auto simp: mem_release_def mem_Release_def case_prod_beta split: outcome.splits)

lemma mem_beat_eq:
  "mem_beat now (d, s, c) h p m =
     (fst (heartbeatLockAndPosition now d s c h p m),
      is_ok (snd (heartbeatLockAndPosition now d s c h p m)))"
  by (simp add: mem_beat_def mem_HeartbeatWithPosition_def case_prod_beta)

lemma tryAcquire_other:
  assumes "lockState d' s' c' m = Some l" "now \<le> ls_heldUntil l" "(d', s', c') \<noteq> (d, s, c)"
  shows "lockState d' s' c' (fst (tryAcquireInternal order now d s c h ttl m)) = Some l"
proof (cases rule: tryAcquire_cases[of d s c m now h])
  case (held l')
  with assms show ?thesis by (simp add: tryAcquire_held)
next
  case free
  with assms show ?thesis by (auto simp: tryAcquire_free Let_def clean_loop_keeps)
qed

lemma beat_other:
  "(d', s', c') \<noteq> (d, s, c) \<or> (\<exists>l. lockState d s c m = Some l \<and> ls_holder l \<noteq> h) \<Longrightarrow>
     lockState d' s' c' (fst (heartbeatLockAndPosition now d s c h p m)) = lockState d' s' c' m"
  by (auto simp: heartbeatLockAndPosition_def Let_def case_prod_beta split: option.splits)

lemma release_keeps_other:
  "lockState d' s' c' m = Some l \<Longrightarrow> (d', s', c') \<noteq> (d, s, c) \<or> ls_holder l \<noteq> h \<Longrightarrow>
     lockState d' s' c' (fst (releaseInternal now d s c h m)) = Some l"
  by (auto simp: releaseInternal_def split: option.splits)

lemma mem_lock_row_Some:
  "mem_lock_row (d, s, c) m = Some (h, u, ttl) \<longleftrightarrow>
     (\<exists>l. lockState d s c m = Some l \<and> ls_holder l = h \<and> ls_heldUntil l = u \<and> ls_ttl l = ttl)"
  by (auto simp: mem_lock_row_def)

interpretation mem_locks: lock_service "mem_acquire emit order" "mem_release emit" mem_beat mem_lock_row
  "\<lambda>m. True" "\<lambda>k m. True" "\<lambda>h. True" for emit order
proof (unfold_locales, goal_cases)
  case (1 m k h' u d' now h ttl)
  obtain d s c where k: "k = (d, s, c)" by (cases k)
  with 1 show ?case by (auto simp: mem_acquire_eq mem_lock_row_Some tryAcquire_held)
next
  case (2 m k ttl now h)
  obtain d s c where k: "k = (d, s, c)" by (cases k)
  with 2(4) have "ls_heldUntil l < now \<or> ls_holder l = h" if "lockState d s c m = Some l" for l
    using that by (auto simp: mem_lock_row_Some)
  with 2(3) k show ?case
    by (auto simp: mem_acquire_eq tryAcquire_free Let_def mem_lock_row_Some)
next
  case (3 m j k h' u d' now h ttl)
  obtain d s c e t b where k: "k = (d, s, c)" "j = (e, t, b)" by (cases k, cases j)
  with 3 obtain l where l: "lockState e t b m = Some l" "now \<le> ls_heldUntil l"
    by (auto simp: mem_lock_row_Some)
  with 3 k tryAcquire_other[OF l, of d s c "order m" h ttl] show ?case
    by (auto simp: mem_acquire_eq case_prod_beta mem_lock_row_def)
next
  case (4 m j h' u d' k h now)
  obtain d s c e t b where k: "k = (d, s, c)" "j = (e, t, b)" by (cases k, cases j)
  with 4 obtain l where l: "lockState e t b m = Some l" "ls_holder l = h'"
    by (auto simp: mem_lock_row_Some)
  with 4 k release_keeps_other[OF l(1), of d s c h now] show ?case
    by (auto simp: mem_release_eq mem_lock_row_def)
next
  case (5 m k h u d' now)
  obtain d s c where k: "k = (d, s, c)" by (cases k)
  with 5 show ?case
    by (auto simp: mem_release_eq releaseInternal_def mem_lock_row_Some mem_lock_row_def)
next
  case (6 m j k h now p)
  obtain d s c e t b where k: "k = (d, s, c)" "j = (e, t, b)" by (cases k, cases j)
  have "(e, t, b) \<noteq> (d, s, c) \<or> (\<exists>l. lockState d s c m = Some l \<and> ls_holder l \<noteq> h)"
    using 6 k by (auto simp: mem_lock_row_Some)
  from beat_other[OF this, of now p] k show ?case
    by (simp add: mem_beat_eq mem_lock_row_def)
next
  case (7 m k h u ttl now p)
  obtain d s c where k: "k = (d, s, c)" by (cases k)
  with 7 show ?case
    by (auto simp: mem_beat_eq heartbeatLockAndPosition_def Let_def case_prod_beta mem_lock_row_Some
             split: option.splits)
qed simp_all


lemma acquire_absent:
  assumes "lockState d s c m = None" "LockMinimumTTL \<le> ttl"
  shows "snd (mem_acquire emit order now (d, s, c) h ttl m)"
  using assms tryAcquire_free[of d s c m now h "order m" ttl]
  by (simp add: mem_acquire_eq Let_def)

lemma tryAcquire_acquired:
  "lr_acquired (fst (snd (tryAcquireInternal order now d s c h ttl m))) \<Longrightarrow>
     \<exists>l. lockState d s c (fst (tryAcquireInternal order now d s c h ttl m)) = Some l
       \<and> ls_holder l = h \<and> ls_heldUntil l = now + ttl \<and> ls_ttl l = ttl"
  by (cases rule: tryAcquire_cases[of d s c m now h])
     (auto simp: tryAcquire_held tryAcquire_free Let_def)

lemma tryAcquireWithLease_Ok:
  assumes "tryAcquireWithLease emit order net now d s c h ttl m = (m', Ok r)"
  shows "LockMinimumTTL \<le> ttl \<and> net = None \<and> m' = fst (tryAcquireInternal order now d s c h ttl m)
    \<and> (r \<noteq> None \<longleftrightarrow> lr_acquired (fst (snd (tryAcquireInternal order now d s c h ttl m))))
    \<and> (\<forall>lock pos. r = Some (lock, pos) \<longrightarrow>
          lock = \<lparr>ml_domain = d, ml_stream = s, ml_consumer = c, ml_holder = h\<rparr>
          \<and> pos = lr_position (fst (snd (tryAcquireInternal order now d s c h ttl m))))"
  using assms
  by (auto simp: tryAcquireWithLease_def mem_TryAcquire_def simulateNetwork_def case_prod_beta
           split: if_splits option.splits prod.splits)

subsection \<open>Properties\<close>


text \<open>
  Consumer positions of the in-memory transport are forward-only: after any sequence of
  \<open>SetPosition\<close> calls of several consumers, \<open>GetPosition\<close> gives each consumer the high-water mark
  of its own reports, as long as domain names have no slash.
\<close>

theorem mem_positions_high_water:
  assumes "\<forall>(k, v) \<in> set reports. plain_domain k" "plain_domain k"
  shows "mem_getp k (run_reports mem_setp reports m) =
           high_water (mem_getp k m) (map snd (filter (\<lambda>r. fst r = k) reports))"
  using assms by (intro mem_positions.run_sets_high_water) auto

text \<open>
  A heartbeat is atomic. It succeeds exactly when the lock is held, unexpired, by this holder
  and the reported position is not behind the stored one; then the lock is renewed for its full
  TTL and the position is stored. In every other case the whole state is unchanged and the
  error says which condition failed.
\<close>

theorem heartbeat_atomic:
  "case mem_HeartbeatWithPosition None now d s c h p m of
     (m', r) \<Rightarrow>
       (case lockState d s c m of
          None \<Rightarrow> m' = m \<and> r = Err (LockExpiredError c d s)
        | Some l \<Rightarrow>
            (if now > ls_heldUntil l then m' = m \<and> r = Err (LockExpiredError c d s)
             else if ls_holder l \<noteq> h then m' = m \<and> r = Err (LockNotHeldError c h d s)
             else case position_of d s c m of
                    Some q \<Rightarrow>
                      (if p < q then m' = m \<and> r = Err (HeartbeatConflictError p q)
                       else r = Ok () \<and> position_of d s c m' = Some p
                            \<and> mem_lock_row (d, s, c) m' = Some (h, now + ls_ttl l, ls_ttl l))
                  | None \<Rightarrow> r = Ok () \<and> position_of d s c m' = Some p
                            \<and> mem_lock_row (d, s, c) m' = Some (h, now + ls_ttl l, ls_ttl l)))"
  by (auto simp: mem_HeartbeatWithPosition_def heartbeatLockAndPosition_def checkPositionConflict_def
                 Let_def case_prod_beta mem_lock_row_def split: option.splits)

text \<open>
  The cleanup that runs inside an acquisition deletes at most 128 locks; each of them had run
  out, belonged to another consumer of the same stream and is announced with its holder; and when
  fewer than 128 are deleted, no expired lock of the other consumers is left.
\<close>

theorem cleanup_sound_and_complete:
  assumes "cleanExpiredLocks order d s ex now m = (m', events)"
  shows "length events \<le> 128
    \<and> (\<forall>evt \<in> set events. ev_consumer evt \<noteq> ex
         \<and> (\<exists>l. lockState d s (ev_consumer evt) m = Some l \<and> ls_heldUntil l < now
                \<and> ev_holder evt = ls_holder l))
    \<and> (\<forall>d' s' c l. lockState d' s' c m = Some l \<and> now \<le> ls_heldUntil l \<longrightarrow>
         lockState d' s' c m' = Some l)
    \<and> (length events < 128 \<longrightarrow>
         (\<forall>c \<in> set order. \<forall>l. c \<noteq> ex \<and> lockState d s c m' = Some l \<longrightarrow> now \<le> ls_heldUntil l))"
proof -
  from assms have eq: "m' = fst (clean_loop d s ex now order 0 m)"
    "events = snd (clean_loop d s ex now order 0 m)"
    by (simp_all add: cleanExpiredLocks_def)
  have "length events \<le> 128" using clean_loop_bound[of 0 d s ex now order m] by (simp add: eq)
  moreover have "\<forall>evt \<in> set events. ev_consumer evt \<noteq> ex
      \<and> (\<exists>l. lockState d s (ev_consumer evt) m = Some l \<and> ls_heldUntil l < now
             \<and> ev_holder evt = ls_holder l)"
    using clean_loop_events[of _ d s ex now order 0 m] by (auto simp: eq)
  moreover have "\<forall>d' s' c l. lockState d' s' c m = Some l \<and> now \<le> ls_heldUntil l \<longrightarrow>
      lockState d' s' c m' = Some l"
    by (auto simp: eq clean_loop_keeps)
  moreover have "now \<le> ls_heldUntil l"
    if "length events < 128" "c \<in> set order" "c \<noteq> ex" "lockState d s c m' = Some l" for c l
    using clean_loop_complete[of 0 d s ex now order m c l] that by (simp add: eq)
  ultimately show ?thesis by blast
qed

text \<open>
  \<open>WaitForLock\<close> returns a lease only for a lock that its caller holds, for the full TTL from the
  attempt that succeeded, with the position of that moment and the guarantee period as heartbeat
  interval.
\<close>

theorem wait_for_lock_holds:
  "mem_WaitForLock attempts d s c h ttl m = (m', Some (Ok (lease, position, interval))) \<Longrightarrow>
     lease = \<lparr>ml_domain = d, ml_stream = s, ml_consumer = c, ml_holder = h\<rparr> \<and> interval = scale09 ttl
     \<and> (\<exists>a \<in> set attempts. mem_lock_row (d, s, c) m' = Some (h, at_now a + ttl, ttl)
          \<and> position = (case position_of d s c m' of None \<Rightarrow> 0 | Some p \<Rightarrow> p))"
proof (induction attempts arbitrary: m)
  case Nil
  then show ?case by simp
next
  case (Cons a attempts)
  obtain m1 r where att: "tryAcquireWithLease (at_emit a) (at_order a) (at_net a) (at_now a) d s c h ttl m
      = (m1, r)" by fastforce
  show ?case
  proof (cases "\<exists>lk p. r = Ok (Some (lk, p))")
    case True
    then obtain lk p where r: "r = Ok (Some (lk, p))" by blast
    with Cons.prems att have m': "m' = m1" "lease = lk" "position = p" "interval = scale09 ttl" by auto
    from tryAcquireWithLease_Ok[OF att[unfolded r]]
    have ok: "m1 = fst (tryAcquireInternal (at_order a) (at_now a) d s c h ttl m)"
      "lk = \<lparr>ml_domain = d, ml_stream = s, ml_consumer = c, ml_holder = h\<rparr>"
      "lr_acquired (fst (snd (tryAcquireInternal (at_order a) (at_now a) d s c h ttl m)))"
      "p = lr_position (fst (snd (tryAcquireInternal (at_order a) (at_now a) d s c h ttl m)))"
      by auto
    show ?thesis
    proof (cases rule: tryAcquire_cases[of d s c m "at_now a" h])
      case (held l)
      with ok show ?thesis by (simp add: tryAcquire_held)
    next
      case free
      with ok m' show ?thesis
        by (auto simp: tryAcquire_free Let_def mem_lock_row_def position_of_def)
    qed
  next
    case False
    with Cons.prems att have r: "r = Ok None" "at_ctx a = None"
      "mem_WaitForLock attempts d s c h ttl (at_env a m1) = (m', Some (Ok (lease, position, interval)))"
      by (auto split: outcome.splits option.splits prod.splits)
    from Cons.IH[OF r(3)] show ?thesis by auto
  qed
qed

subsection \<open>Witnesses\<close>

lemmas tryAcquire_new = tryAcquire_free[of _ _ _ NewMemoryTransport, simplified]

lemma mem_acquire_new:
  "LockMinimumTTL \<le> ttl \<Longrightarrow>
     mem_acquire emit order t k h ttl NewMemoryTransport =
       (fst (mem_acquire emit order t k h ttl NewMemoryTransport), True)"
  by (cases k) (simp add: mem_acquire_eq tryAcquire_new Let_def case_prod_beta)

lemma min_ttl_30s [simp]: "LockMinimumTTL \<le> 30000000000" "\<not> 30000000000 < LockMinimumTTL"
  by (simp_all add: LockMinimumTTL_def second_def)


theorem mem_positions_high_water_witness:
  "mem_getp (''d'', ''s'', ''c'')
     (run_reports mem_setp [((''d'', ''s'', ''c''), 4), ((''d'', ''s'', ''x''), 9), ((''d'', ''s'', ''c''), 2)]
        NewMemoryTransport) = Some 4"
  by (subst mem_positions_high_water)
     (simp_all add: plain_domain_def mem_getp_position_of position_of_def NewMemoryTransport_def)

theorem cleanup_sound_and_complete_witness:
  "length (snd (cleanExpiredLocks [''c''] ''d'' ''s'' ''x'' 31000000000
      (fst (mem_acquire (\<lambda>e. None) (\<lambda>m. []) 0 (''d'', ''s'', ''c'') ''a'' 30000000000
              NewMemoryTransport)))) \<le> 128"
  using cleanup_sound_and_complete[OF surjective_pairing] by blast

theorem wait_for_lock_holds_witness:
  "\<exists>m' lease position interval.
     mem_WaitForLock [\<lparr>at_emit = (\<lambda>e. None), at_order = [], at_net = None, at_now = 5,
                       at_ctx = None, at_env = id\<rparr>] ''d'' ''s'' ''c'' ''a'' 30000000000 NewMemoryTransport
       = (m', Some (Ok (lease, position, interval)))
     \<and> mem_lock_row (''d'', ''s'', ''c'') m' = Some (''a'', 30000000005, 30000000000)"
proof -
  let ?a = "\<lparr>at_emit = (\<lambda>e. None), at_order = [], at_net = None, at_now = 5,
             at_ctx = None, at_env = id\<rparr> :: attempt"
  obtain m' lease position interval where w:
    "mem_WaitForLock [?a] ''d'' ''s'' ''c'' ''a'' 30000000000 NewMemoryTransport
       = (m', Some (Ok (lease, position, interval)))"
    by (simp add: tryAcquireWithLease_def mem_TryAcquire_def tryAcquire_new Let_def
                  LockMinimumTTL_def second_def emit_all_def)
  with wait_for_lock_holds[OF w] show ?thesis by auto
qed

end
