(* ===== verification/MemoryExpiry.thy ===== *)
theory MemoryExpiry
  imports MemoryLocks
begin

text \<open>
  The expiry timers of the in-memory locks (\<open>src/pkg/v1/memory.go\<close>: \<open>lockExpiryOp\<close>,
  \<open>tryAcquireInternal\<close>, \<open>heartbeatLockAndPosition\<close>, \<open>runService\<close>), interleaved with the clients'
  operations. An event is a client operation, a due timer that fires (which queues its expiry
  command), or the service goroutine taking the next queued expiry command. The step relation
  \<open>mem_step\<close> allows every interleaving; \<open>mem_reachable\<close> are the states reached from a fresh
  transport.
\<close>

datatype mem_event =
    Client "consumer_key lock_op"
  | TimerFires time nat
  | PerformInput

fun mem_event_step ::
  "(LockReleasedEvent \<Rightarrow> goerror option) \<Rightarrow> (memory \<Rightarrow> string list) \<Rightarrow> mem_event \<Rightarrow> memory \<Rightarrow> memory" where
  "mem_event_step emit order (Client op) m =
     fst (lock_step (mem_acquire emit order) (mem_release emit) mem_beat op m)"
| "mem_event_step emit order (TimerFires now i) m = fire_timer now i m"
| "mem_event_step emit order PerformInput m = fst (perform_input emit m)"

fun mem_event_run ::
  "(LockReleasedEvent \<Rightarrow> goerror option) \<Rightarrow> (memory \<Rightarrow> string list) \<Rightarrow> mem_event list \<Rightarrow> memory \<Rightarrow> memory" where
  "mem_event_run emit order [] m = m"
| "mem_event_run emit order (e # es) m = mem_event_run emit order es (mem_event_step emit order e m)"

inductive mem_reachable :: "memory \<Rightarrow> bool" where
  mem_init: "mem_reachable NewMemoryTransport"
| mem_step: "mem_reachable m \<Longrightarrow> mem_reachable (mem_event_step (\<lambda>evt. None) order e m)"

fun event_keeps_hold :: "consumer_key \<Rightarrow> string \<Rightarrow> time \<Rightarrow> time \<Rightarrow> mem_event \<Rightarrow> bool" where
  "event_keeps_hold k h t u (Client op) \<longleftrightarrow> t \<le> op_time op \<and> op_time op < u \<and> keeps_hold k h op"
| "event_keeps_hold k h t u (TimerFires now i) \<longleftrightarrow> now < u"
| "event_keeps_hold k h t u PerformInput \<longleftrightarrow> True"

definition op_key :: "lockExpiryOp \<Rightarrow> consumer_key" where
  "op_key op = (xo_domain op, xo_stream op, xo_consumer op)"

definition lock_at :: "consumer_key \<Rightarrow> memory \<Rightarrow> memoryLockState option" where
  "lock_at k m = (case k of (d, s, c) \<Rightarrow> lockState d s c m)"

text \<open>No expiry command for the consumer is armed or queued.\<close>

definition no_pending_expiry :: "consumer_key \<Rightarrow> memory \<Rightarrow> bool" where
  "no_pending_expiry k m \<longleftrightarrow>
     (\<forall>op \<in> set (m_input m). op_key op \<noteq> k) \<and>
     (\<forall>i t. Mapping.lookup (m_timers m) i = Some t \<longrightarrow> op_key (tm_op t) \<noteq> k)"

definition guarded :: "consumer_key \<Rightarrow> string \<Rightarrow> time \<Rightarrow> duration \<Rightarrow> memory \<Rightarrow> bool" where
  "guarded k h u ttl m \<longleftrightarrow>
     (\<exists>l. lock_at k m = Some l \<and> ls_holder l = h \<and> u \<le> ls_heldUntil l \<and> ls_ttl l = ttl
        \<and> (\<forall>op \<in> set (m_input m). op_key op = k \<longrightarrow> xo_generation op < ls_generation l)
        \<and> (\<forall>i t. Mapping.lookup (m_timers m) i = Some t \<and> op_key (tm_op t) = k \<longrightarrow>
              xo_generation (tm_op t) < ls_generation l
              \<or> xo_generation (tm_op t) = ls_generation l \<and> u \<le> tm_at t))"

text \<open>Taking every queued expiry command.\<close>

fun drain_input :: "(LockReleasedEvent \<Rightarrow> goerror option) \<Rightarrow> nat \<Rightarrow> memory \<Rightarrow> memory" where
  "drain_input emit 0 m = m"
| "drain_input emit (Suc n) m = drain_input emit n (fst (perform_input emit m))"

text \<open>Every lock has its expiry coming: its own timer is armed for its end, or has fired.\<close>

definition expiry_coming :: "memory \<Rightarrow> bool" where
  "expiry_coming m \<longleftrightarrow>
     (\<forall>k l. lock_at k m = Some l \<longrightarrow>
        (\<exists>i op. ls_expiryTimer l = Some i \<and> i < m_nextTimer m \<and> op_key op = k
           \<and> xo_generation op = ls_generation l
           \<and> (Mapping.lookup (m_timers m) i = Some \<lparr>tm_at = ls_heldUntil l, tm_op = op\<rparr>
              \<or> op \<in> set (m_input m))))
     \<and> (\<forall>k k' l l'. lock_at k m = Some l \<and> lock_at k' m = Some l' \<and> ls_expiryTimer l = ls_expiryTimer l'
          \<longrightarrow> k = k')"

text \<open>The lock record after a heartbeat.\<close>

definition renewed_lock :: "time \<Rightarrow> nat \<Rightarrow> memoryLockState \<Rightarrow> memoryLockState" where
  "renewed_lock now timer l =
     l\<lparr>ls_heartbeatAt := now, ls_guaranteeUntil := now + scale09 (ls_ttl l),
       ls_heldUntil := now + ls_ttl l, ls_generation := ls_generation l + 1,
       ls_expiryTimer := Some timer\<rparr>"

subsection \<open>A hold is not cut short\<close>

lemma lock_at_simps [simp]: "lock_at (d, s, c) m = lockState d s c m"
  by (simp add: lock_at_def)

lemma lookup_after_func [simp]:
  "Mapping.lookup (m_timers (snd (after_func a op m))) i =
     (if i = m_nextTimer m then Some \<lparr>tm_at = a, tm_op = op\<rparr> else Mapping.lookup (m_timers m) i)"
  by (simp add: after_func_def)

lemma clean_loop_timers:
  "Mapping.lookup (m_timers (fst (clean_loop d s ex now order n m))) i = Some t \<Longrightarrow>
     Mapping.lookup (m_timers m) i = Some t"
proof (induction order arbitrary: n m)
  case Nil
  then show ?case by simp
next
  case (Cons x order)
  from Cons.prems show ?case
    by (cases "lockState d s x m") (auto simp: case_prod_beta split: if_splits dest!: Cons.IH)
qed

lemma guarded_acquire:
  assumes "guarded k h u ttl m" "now < u" "k' \<noteq> k \<or> h' \<noteq> h"
  shows "guarded k h u ttl (fst (mem_acquire emit order now k' h' ttl' m))"
proof -
  obtain d s c d' s' c' where k: "k = (d, s, c)" "k' = (d', s', c')" by (cases k, cases k')
  from assms(1) k obtain l where l: "lockState d s c m = Some l" "ls_holder l = h" "u \<le> ls_heldUntil l"
    by (auto simp: guarded_def)
  show ?thesis
  proof (cases rule: tryAcquire_cases[of d' s' c' m now h'])
    case (held l')
    with assms k show ?thesis by (simp add: mem_acquire_eq tryAcquire_held)
  next
    case free
    with assms l k have ne: "(d, s, c) \<noteq> (d', s', c')" by auto
    from tryAcquire_other[OF l(1) _ ne, of now "order m" h' ttl'] assms(2) l(3)
    have st: "lockState d s c (fst (tryAcquireInternal (order m) now d' s' c' h' ttl' m)) = Some l"
      by simp
    show ?thesis
    proof (cases "ttl' < LockMinimumTTL")
      case True
      with assms k show ?thesis by (simp add: mem_acquire_eq)
    next
      case False
      with free ne k st assms(1) l show ?thesis
        by (auto simp: guarded_def mem_acquire_eq tryAcquire_free Let_def op_key_def
                 dest!: clean_loop_timers split: if_splits)
    qed
  qed
qed

lemma heartbeat_cases:
  "fst (heartbeatLockAndPosition now d s c h p m) = m \<or>
   (\<exists>l. lockState d s c m = Some l \<and> ls_holder l = h \<and>
      fst (heartbeatLockAndPosition now d s c h p m) =
        store_position d s c p
           (setLock d s c (renewed_lock now (m_nextTimer m) l)
              (snd (after_func (now + ls_ttl l)
                 \<lparr>xo_domain = d, xo_stream = s, xo_consumer = c, xo_generation = ls_generation l + 1\<rparr>
                 (stop_timer (ls_expiryTimer l) m)))))"
  by (cases "lockState d s c m"; cases "checkPositionConflict d s c p m")
     (simp_all add: heartbeatLockAndPosition_def Let_def after_func_def renewed_lock_def)

lemma guarded_release:
  assumes "guarded k h u ttl m" "k' \<noteq> k \<or> h' \<noteq> h"
  shows "guarded k h u ttl (fst (mem_release emit now k' h' m))"
proof -
  obtain d s c d' s' c' where "k = (d, s, c)" "k' = (d', s', c')" by (cases k, cases k')
  with assms show ?thesis
    by (auto simp: guarded_def mem_release_eq releaseInternal_def split: option.splits if_splits)
qed

lemma guarded_beat:
  assumes "guarded k h u ttl m" "u \<le> now + ttl"
  shows "guarded k h u ttl (fst (mem_beat now k' h' p m))"
proof -
  obtain d s c d' s' c' where k: "k = (d, s, c)" "k' = (d', s', c')" by (cases k, cases k')
  let ?m = "fst (heartbeatLockAndPosition now d' s' c' h' p m)"
  from assms(1) k obtain l where l: "lockState d s c m = Some l" "ls_holder l = h" "u \<le> ls_heldUntil l"
    "ls_ttl l = ttl"
    "\<forall>op \<in> set (m_input m). op_key op = k \<longrightarrow> xo_generation op < ls_generation l"
    "\<And>i t. Mapping.lookup (m_timers m) i = Some t \<Longrightarrow> op_key (tm_op t) = k \<Longrightarrow>
        xo_generation (tm_op t) < ls_generation l
        \<or> xo_generation (tm_op t) = ls_generation l \<and> u \<le> tm_at t"
    by (auto simp: guarded_def)
  from heartbeat_cases[of now d' s' c' h' p m]
  consider (unchanged) "?m = m"
    | (renewed) l' where "lockState d' s' c' m = Some l'" "ls_holder l' = h'"
        "?m = store_position d' s' c' p
           (setLock d' s' c' (renewed_lock now (m_nextTimer m) l')
              (snd (after_func (now + ls_ttl l')
                 \<lparr>xo_domain = d', xo_stream = s', xo_consumer = c', xo_generation = ls_generation l' + 1\<rparr>
                 (stop_timer (ls_expiryTimer l') m))))"
    by blast
  then show ?thesis
  proof cases
    case unchanged
    with assms k show ?thesis by (simp add: mem_beat_eq)
  next
    case renewed
    show ?thesis
    proof (cases "k' = k")
      case True
      with renewed l k assms(2) show ?thesis
        by (fastforce simp: guarded_def mem_beat_eq op_key_def renewed_lock_def split: if_splits)
    next
      case False
      with renewed l k show ?thesis
        by (auto simp: guarded_def mem_beat_eq op_key_def renewed_lock_def split: if_splits)
    qed
  qed
qed

lemma guarded_fire:
  assumes "guarded k h u ttl m" "now < u"
  shows "guarded k h u ttl (fire_timer now i m)"
proof (cases "\<exists>t. Mapping.lookup (m_timers m) i = Some t \<and> tm_at t \<le> now")
  case True
  then obtain t where t: "Mapping.lookup (m_timers m) i = Some t" "tm_at t \<le> now" by blast
  obtain d s c where k: "k = (d, s, c)" by (cases k)
  from assms(1) obtain l where l: "lock_at k m = Some l" "ls_holder l = h" "u \<le> ls_heldUntil l"
    "ls_ttl l = ttl"
    "\<forall>op \<in> set (m_input m). op_key op = k \<longrightarrow> xo_generation op < ls_generation l"
    "\<forall>i t. Mapping.lookup (m_timers m) i = Some t \<and> op_key (tm_op t) = k \<longrightarrow>
        xo_generation (tm_op t) < ls_generation l
        \<or> xo_generation (tm_op t) = ls_generation l \<and> u \<le> tm_at t"
    unfolding guarded_def by blast
  from l(6) t assms(2) have "op_key (tm_op t) = k \<longrightarrow> xo_generation (tm_op t) < ls_generation l"
    by fastforce
  with t l k show ?thesis by (auto simp: guarded_def fire_timer_def lockState_def)
next
  case False
  then have "fire_timer now i m = m" by (auto simp: fire_timer_def split: option.splits)
  with assms show ?thesis by simp
qed

lemma guarded_perform:
  assumes "guarded k h u ttl m"
  shows "guarded k h u ttl (fst (perform_input emit m))"
proof (cases "m_input m")
  case Nil
  with assms show ?thesis by (simp add: perform_input_def)
next
  case (Cons op ops)
  obtain d s c where k: "k = (d, s, c)" by (cases k)
  have stays: "guarded k h u ttl (m\<lparr>m_input := ops\<rparr>)"
    using assms Cons k by (auto simp: guarded_def)
  have other: "op_key op \<noteq> k \<or> (\<exists>l. lockState d s c m = Some l \<and> ls_generation l \<noteq> xo_generation op)"
    using assms Cons k by (auto simp: guarded_def)
  show ?thesis
  proof (cases "fst (perform_input emit m) = m\<lparr>m_input := ops\<rparr>")
    case True
    with stays show ?thesis by simp
  next
    case False
    then have "fst (perform_input emit m) =
        deleteLock (xo_domain op) (xo_stream op) (xo_consumer op) (m\<lparr>m_input := ops\<rparr>)"
      "\<exists>l. lockState (xo_domain op) (xo_stream op) (xo_consumer op) m = Some l
          \<and> ls_generation l = xo_generation op"
      using Cons by (auto simp: perform_input_def lockExpiryOp_perform_def Let_def
                          split: option.splits if_splits)
    with stays other k show ?thesis by (auto simp: guarded_def op_key_def)
  qed
qed

lemma guarded_step:
  assumes "guarded k h (t + ttl) ttl m" "event_keeps_hold k h t (t + ttl) e"
  shows "guarded k h (t + ttl) ttl (mem_event_step emit order e m)"
proof (cases e)
  case (Client op)
  with assms show ?thesis
    by (cases op) (auto intro!: guarded_acquire guarded_release guarded_beat)
next
  case (TimerFires now i)
  with assms show ?thesis by (simp add: guarded_fire)
next
  case PerformInput
  with assms show ?thesis by (simp add: guarded_perform)
qed

lemma guarded_run:
  "guarded k h (t + ttl) ttl m \<Longrightarrow> (\<forall>e \<in> set es. event_keeps_hold k h t (t + ttl) e) \<Longrightarrow>
     guarded k h (t + ttl) ttl (mem_event_run emit order es m)"
  by (induction es arbitrary: m) (auto intro: guarded_step)

lemma guarded_start:
  assumes "mem_acquire emit order t k h ttl m = (m1, True)" "no_pending_expiry k m"
  shows "guarded k h (t + ttl) ttl m1"
proof -
  obtain d s c where k: "k = (d, s, c)" by (cases k)
  show ?thesis
  proof (cases rule: tryAcquire_cases[of d s c m t h])
    case (held l)
    with assms k show ?thesis by (auto simp: mem_acquire_eq tryAcquire_held split: if_splits)
  next
    case free
    with assms k show ?thesis
      by (auto simp: mem_acquire_eq tryAcquire_free Let_def guarded_def no_pending_expiry_def
               dest!: clean_loop_timers split: if_splits)
  qed
qed

subsection \<open>Expiry comes\<close>

lemma perform_input_cases:
  "m_input m = op # ops \<Longrightarrow>
     fst (perform_input (\<lambda>evt. None) m) =
       (case lock_at (op_key op) m of
          Some l \<Rightarrow> (if ls_generation l = xo_generation op
                     then deleteLock (xo_domain op) (xo_stream op) (xo_consumer op) (m\<lparr>m_input := ops\<rparr>)
                     else m\<lparr>m_input := ops\<rparr>)
        | None \<Rightarrow> m\<lparr>m_input := ops\<rparr>)"
  by (auto simp: perform_input_def lockExpiryOp_perform_def op_key_def split: option.splits)

lemma perform_input_input: "m_input (fst (perform_input (\<lambda>evt. None) m)) = tl (m_input m)"
proof (cases "m_input m")
  case Nil
  then show ?thesis by (simp add: perform_input_def)
next
  case (Cons op ops)
  then show ?thesis by (simp add: perform_input_cases split: option.splits)
qed

lemma lock_at_perform:
  "m_input m = op # ops \<Longrightarrow>
     lock_at k (fst (perform_input (\<lambda>evt. None) m)) =
       (if k = op_key op \<and> (\<exists>l. lock_at k m = Some l \<and> ls_generation l = xo_generation op)
        then None else lock_at k m)"
  by (cases k) (auto simp: perform_input_cases op_key_def split: option.splits)

lemma drain_input_removes:
  "n = length (m_input m) \<Longrightarrow> op \<in> set (m_input m) \<Longrightarrow>
     (\<forall>l. lock_at (op_key op) m = Some l \<longrightarrow> ls_generation l = xo_generation op) \<Longrightarrow>
     lock_at (op_key op) (drain_input (\<lambda>evt. None) n m) = None"
proof -
  have none: "lock_at k (drain_input (\<lambda>evt. None) n m) = None" if "lock_at k m = None" for k n m
    using that
  proof (induction n arbitrary: m)
    case 0
    then show ?case by simp
  next
    case (Suc n)
    have "lock_at k (fst (perform_input (\<lambda>evt. None) m)) = None"
      using Suc.prems lock_at_perform[of m _ _ k]
      by (cases "m_input m") (simp add: perform_input_def, simp)
    then show ?case using Suc.IH by simp
  qed
  show "n = length (m_input m) \<Longrightarrow> op \<in> set (m_input m) \<Longrightarrow>
     (\<forall>l. lock_at (op_key op) m = Some l \<longrightarrow> ls_generation l = xo_generation op) \<Longrightarrow>
     lock_at (op_key op) (drain_input (\<lambda>evt. None) n m) = None"
  proof (induction n arbitrary: m)
    case 0
    then show ?case by simp
  next
    case (Suc n)
    then obtain x xs where m: "m_input m = x # xs" by (cases "m_input m") auto
    let ?m = "fst (perform_input (\<lambda>evt. None) m)"
    show ?case
    proof (cases "lock_at (op_key op) ?m")
      case None
      then show ?thesis by (simp add: none)
    next
      case (Some l)
      with m Suc.prems have "op \<noteq> x" by (auto simp: lock_at_perform split: if_splits)
      with m Suc.prems have "op \<in> set (m_input ?m)" by (simp add: perform_input_input)
      moreover from m Suc.prems have "n = length (m_input ?m)" by (simp add: perform_input_input)
      moreover from m Suc.prems
      have "\<forall>l. lock_at (op_key op) ?m = Some l \<longrightarrow> ls_generation l = xo_generation op"
        by (auto simp: lock_at_perform)
      ultimately show ?thesis using Suc.IH by simp
    qed
  qed
qed

lemma expiry_comingI:
  assumes "\<And>k l. lock_at k m = Some l \<Longrightarrow>
        (\<exists>i op. ls_expiryTimer l = Some i \<and> i < m_nextTimer m \<and> op_key op = k
           \<and> xo_generation op = ls_generation l
           \<and> (Mapping.lookup (m_timers m) i = Some \<lparr>tm_at = ls_heldUntil l, tm_op = op\<rparr>
              \<or> op \<in> set (m_input m)))"
    and "\<And>k k' l l'. lock_at k m = Some l \<Longrightarrow> lock_at k' m = Some l' \<Longrightarrow>
        ls_expiryTimer l = ls_expiryTimer l' \<Longrightarrow> k = k'"
  shows "expiry_coming m"
  using assms unfolding expiry_coming_def by blast

lemma expiry_comingD:
  assumes "expiry_coming m" "lock_at k m = Some l"
  obtains i op where "ls_expiryTimer l = Some i" "i < m_nextTimer m" "op_key op = k"
    "xo_generation op = ls_generation l"
    "Mapping.lookup (m_timers m) i = Some \<lparr>tm_at = ls_heldUntil l, tm_op = op\<rparr> \<or> op \<in> set (m_input m)"
  using assms unfolding expiry_coming_def by blast

lemma expiry_coming_inj:
  "expiry_coming m \<Longrightarrow> lock_at k m = Some l \<Longrightarrow> lock_at k' m = Some l' \<Longrightarrow>
     ls_expiryTimer l = ls_expiryTimer l' \<Longrightarrow> k = k'"
  unfolding expiry_coming_def by blast

lemma lock_at_deleteLock [simp]:
  "lock_at k (deleteLock d s c m) = (if k = (d, s, c) then None else lock_at k m)"
  by (cases k) auto

lemma lock_at_setLock [simp]:
  "lock_at k (setLock d s c x m) = (if k = (d, s, c) then Some x else lock_at k m)"
  by (cases k) auto

lemma lock_at_timer [simp]:
  "lock_at k (stop_timer t m) = lock_at k m" "lock_at k (snd (after_func a op m)) = lock_at k m"
  "lock_at k (m\<lparr>m_input := i\<rparr>) = lock_at k m" "lock_at k (m\<lparr>m_timers := x\<rparr>) = lock_at k m"
  "lock_at k (store_position d s c v m) = lock_at k m"
  by (cases k; simp add: lockState_def)+

lemma nextTimer_after_func [simp]: "m_nextTimer (snd (after_func a op m)) = Suc (m_nextTimer m)"
  by (simp add: after_func_def)

lemma nextTimer_store [simp]: "m_nextTimer (store_position d s c v m) = m_nextTimer m"
  by (simp add: store_position_def Let_def)

text \<open>Deleting a lock together with its timer keeps the invariant.\<close>

lemma expiry_coming_delete:
  assumes "expiry_coming m" "lockState d s c m = Some l" "t = ls_expiryTimer l"
  shows "expiry_coming (deleteLock d s c (stop_timer t m))"
proof (rule expiry_comingI)
  fix k l' assume k: "lock_at k (deleteLock d s c (stop_timer t m)) = Some l'"
  then have k': "lock_at k m = Some l'" "k \<noteq> (d, s, c)" by (auto split: if_splits)
  then have ne: "ls_expiryTimer l' \<noteq> ls_expiryTimer l"
    using expiry_coming_inj[OF assms(1) k'(1), of "(d, s, c)" l] assms(2) by auto
  from expiry_comingD[OF assms(1) k'(1)] ne assms(3)
  show "\<exists>i op. ls_expiryTimer l' = Some i \<and> i < m_nextTimer (deleteLock d s c (stop_timer t m))
      \<and> op_key op = k \<and> xo_generation op = ls_generation l'
      \<and> (Mapping.lookup (m_timers (deleteLock d s c (stop_timer t m))) i =
            Some \<lparr>tm_at = ls_heldUntil l', tm_op = op\<rparr>
         \<or> op \<in> set (m_input (deleteLock d s c (stop_timer t m))))"
    by (metis (full_types) lock_table_frame(8,9,10) lookup_timers timer_frame(4,5))
next
  fix k k' l1 l2
  assume "lock_at k (deleteLock d s c (stop_timer t m)) = Some l1"
    "lock_at k' (deleteLock d s c (stop_timer t m)) = Some l2" "ls_expiryTimer l1 = ls_expiryTimer l2"
  then show "k = k'" using expiry_coming_inj[OF assms(1)] by (auto split: if_splits)
qed

lemma expiry_coming_arm:
  assumes inv: "expiry_coming m" and t: "t = None \<or> (\<exists>l. lockState d s c m = Some l \<and> t = ls_expiryTimer l)"
    and x: "ls_expiryTimer x = Some (m_nextTimer m)" "ls_heldUntil x = a" "ls_generation x = g"
  shows "expiry_coming (setLock d s c x (snd (after_func a
           \<lparr>xo_domain = d, xo_stream = s, xo_consumer = c, xo_generation = g\<rparr> (stop_timer t m))))"
    (is "expiry_coming ?m'")
proof (rule expiry_comingI)
  fix k l' assume k: "lock_at k ?m' = Some l'"
  show "\<exists>i op. ls_expiryTimer l' = Some i \<and> i < m_nextTimer ?m' \<and> op_key op = k
      \<and> xo_generation op = ls_generation l'
      \<and> (Mapping.lookup (m_timers ?m') i = Some \<lparr>tm_at = ls_heldUntil l', tm_op = op\<rparr>
         \<or> op \<in> set (m_input ?m'))"
  proof (cases "k = (d, s, c)")
    case True
    with k x show ?thesis
      by (intro exI[of _ "m_nextTimer m"]
            exI[of _ "\<lparr>xo_domain = d, xo_stream = s, xo_consumer = c, xo_generation = g\<rparr>"])
         (auto simp: op_key_def)
  next
    case False
    with k have k': "lock_at k m = Some l'" by simp
    have ne: "t = None \<or> ls_expiryTimer l' \<noteq> t"
      using t expiry_coming_inj[OF inv k', of "(d, s, c)"] False by auto
    from expiry_comingD[OF inv k'] obtain i op where i: "ls_expiryTimer l' = Some i"
      "i < m_nextTimer m" "op_key op = k" "xo_generation op = ls_generation l'"
      "Mapping.lookup (m_timers m) i = Some \<lparr>tm_at = ls_heldUntil l', tm_op = op\<rparr> \<or> op \<in> set (m_input m)" .
    with ne have "Mapping.lookup (m_timers ?m') i = Some \<lparr>tm_at = ls_heldUntil l', tm_op = op\<rparr>
        \<or> op \<in> set (m_input ?m')" by auto
    with i show ?thesis by fastforce
  qed
next
  fix k k' l1 l2
  assume a: "lock_at k ?m' = Some l1" "lock_at k' ?m' = Some l2" "ls_expiryTimer l1 = ls_expiryTimer l2"
  have fresh: "ls_expiryTimer l \<noteq> Some (m_nextTimer m)" if "lock_at j m = Some l" for j l
    by (rule expiry_comingD[OF inv that]) simp
  from a x fresh expiry_coming_inj[OF inv] show "k = k'" by (auto split: if_splits)
qed

lemma expiry_coming_clean:
  "expiry_coming m \<Longrightarrow> expiry_coming (fst (clean_loop d s ex now order n m))"
proof (induction order arbitrary: n m)
  case Nil
  then show ?case by simp
next
  case (Cons x order)
  then show ?case
    by (cases "lockState d s x m") (simp_all add: case_prod_beta expiry_coming_delete)
qed

lemma expiry_coming_acquire:
  assumes "expiry_coming m"
  shows "expiry_coming (fst (mem_acquire emit order now k h ttl m))"
proof -
  obtain d s c where k: "k = (d, s, c)" by (cases k)
  show ?thesis
  proof (cases rule: tryAcquire_cases[of d s c m now h])
    case (held l)
    with assms k show ?thesis by (simp add: mem_acquire_eq tryAcquire_held)
  next
    case free
    let ?m = "fst (clean_loop d s c now (order m) 0 m)"
    have "expiry_coming ?m" using assms by (rule expiry_coming_clean)
    from expiry_coming_arm[OF this, of None d s c] free assms k show ?thesis
      by (simp add: mem_acquire_eq tryAcquire_free Let_def stop_timer_def)
  qed
qed

lemma expiry_coming_release:
  "expiry_coming m \<Longrightarrow> expiry_coming (fst (mem_release emit now k h m))"
  by (cases k) (auto simp: mem_release_eq releaseInternal_def expiry_coming_delete split: option.splits)

lemma expiry_coming_store [simp]:
  "expiry_coming (store_position d s c p m) = expiry_coming m"
  by (simp add: expiry_coming_def)

lemma expiry_coming_beat:
  assumes "expiry_coming m"
  shows "expiry_coming (fst (mem_beat now k h p m))"
proof -
  obtain d s c where k: "k = (d, s, c)" by (cases k)
  from heartbeat_cases[of now d s c h p m] assms k expiry_coming_arm[OF assms, of _ d s c] show ?thesis
    by (auto simp: mem_beat_eq renewed_lock_def)
qed

lemma expiry_coming_fire:
  assumes "expiry_coming m"
  shows "expiry_coming (fire_timer now i m)"
proof (cases "\<exists>t. Mapping.lookup (m_timers m) i = Some t \<and> tm_at t \<le> now")
  case True
  then obtain t where t: "Mapping.lookup (m_timers m) i = Some t" "tm_at t \<le> now" by blast
  then have eq: "fire_timer now i m =
      m\<lparr>m_timers := Mapping.delete i (m_timers m), m_input := m_input m @ [tm_op t]\<rparr>"
    by (simp add: fire_timer_def)
  show ?thesis
  proof (rule expiry_comingI)
    fix k l assume "lock_at k (fire_timer now i m) = Some l"
    then have "lock_at k m = Some l" by (simp add: eq)
    from expiry_comingD[OF assms this] obtain j op where j: "ls_expiryTimer l = Some j"
      "j < m_nextTimer m" "op_key op = k" "xo_generation op = ls_generation l"
      "Mapping.lookup (m_timers m) j = Some \<lparr>tm_at = ls_heldUntil l, tm_op = op\<rparr> \<or> op \<in> set (m_input m)" .
    with t have "Mapping.lookup (m_timers (fire_timer now i m)) j =
        Some \<lparr>tm_at = ls_heldUntil l, tm_op = op\<rparr> \<or> op \<in> set (m_input (fire_timer now i m))"
      by (auto simp: eq)
    with j show "\<exists>j op. ls_expiryTimer l = Some j \<and> j < m_nextTimer (fire_timer now i m)
        \<and> op_key op = k \<and> xo_generation op = ls_generation l
        \<and> (Mapping.lookup (m_timers (fire_timer now i m)) j = Some \<lparr>tm_at = ls_heldUntil l, tm_op = op\<rparr>
           \<or> op \<in> set (m_input (fire_timer now i m)))"
      by (auto simp: eq)
  next
    fix k k' l l'
    assume "lock_at k (fire_timer now i m) = Some l" "lock_at k' (fire_timer now i m) = Some l'"
      "ls_expiryTimer l = ls_expiryTimer l'"
    then show "k = k'" using expiry_coming_inj[OF assms] by (simp add: eq)
  qed
next
  case False
  then have "fire_timer now i m = m" by (auto simp: fire_timer_def split: option.splits)
  with assms show ?thesis by simp
qed

lemma perform_frame:
  "m_timers (fst (perform_input (\<lambda>evt. None) m)) = m_timers m"
  "m_nextTimer (fst (perform_input (\<lambda>evt. None) m)) = m_nextTimer m"
proof -
  have "m_timers (fst (perform_input (\<lambda>evt. None) m)) = m_timers m
      \<and> m_nextTimer (fst (perform_input (\<lambda>evt. None) m)) = m_nextTimer m"
  proof (cases "m_input m")
    case Nil
    then show ?thesis by (simp add: perform_input_def)
  next
    case (Cons op ops)
    then show ?thesis by (auto simp: perform_input_cases split: option.splits)
  qed
  then show "m_timers (fst (perform_input (\<lambda>evt. None) m)) = m_timers m"
    "m_nextTimer (fst (perform_input (\<lambda>evt. None) m)) = m_nextTimer m" by simp_all
qed

lemma expiry_coming_perform:
  assumes "expiry_coming m"
  shows "expiry_coming (fst (perform_input (\<lambda>evt. None) m))"
proof (cases "m_input m")
  case Nil
  with assms show ?thesis by (simp add: perform_input_def)
next
  case (Cons x xs)
  let ?m = "fst (perform_input (\<lambda>evt. None) m)"
  show ?thesis
  proof (rule expiry_comingI)
    fix k l assume k: "lock_at k ?m = Some l"
    with Cons have k': "lock_at k m = Some l" "k \<noteq> op_key x \<or> ls_generation l \<noteq> xo_generation x"
      by (auto simp: lock_at_perform split: if_splits)
    from expiry_comingD[OF assms k'(1)] obtain j op where j: "ls_expiryTimer l = Some j"
      "j < m_nextTimer m" "op_key op = k" "xo_generation op = ls_generation l"
      "Mapping.lookup (m_timers m) j = Some \<lparr>tm_at = ls_heldUntil l, tm_op = op\<rparr> \<or> op \<in> set (m_input m)" .
    with k'(2) Cons have "Mapping.lookup (m_timers ?m) j = Some \<lparr>tm_at = ls_heldUntil l, tm_op = op\<rparr>
        \<or> op \<in> set (m_input ?m)"
      by (auto simp: perform_input_input perform_frame)
    with j show "\<exists>j op. ls_expiryTimer l = Some j \<and> j < m_nextTimer ?m
        \<and> op_key op = k \<and> xo_generation op = ls_generation l
        \<and> (Mapping.lookup (m_timers ?m) j = Some \<lparr>tm_at = ls_heldUntil l, tm_op = op\<rparr>
           \<or> op \<in> set (m_input ?m))"
      by (auto simp: perform_frame)
  next
    fix k k' l l'
    assume "lock_at k ?m = Some l" "lock_at k' ?m = Some l'" "ls_expiryTimer l = ls_expiryTimer l'"
    then show "k = k'"
      using expiry_coming_inj[OF assms] by (auto simp: lock_at_perform[OF Cons] split: if_splits)
  qed
qed

lemma expiry_coming_step:
  assumes "expiry_coming m"
  shows "expiry_coming (mem_event_step (\<lambda>evt. None) order e m)"
proof (cases e)
  case (Client op)
  with assms show ?thesis
    by (cases op) (simp_all add: expiry_coming_acquire expiry_coming_release expiry_coming_beat)
qed (use assms in \<open>simp_all add: expiry_coming_fire expiry_coming_perform\<close>)

lemma reachable_expiry_coming: "mem_reachable m \<Longrightarrow> expiry_coming m"
proof (induction rule: mem_reachable.induct)
  case mem_init
  have "lock_at k NewMemoryTransport = None" for k by (cases k) simp
  then show ?case by (simp add: expiry_coming_def)
next
  case (mem_step m order e)
  then show ?case by (simp add: expiry_coming_step)
qed


lemma new_fields:
  "m_nextTimer NewMemoryTransport = 0" "m_input NewMemoryTransport = []"
  "Mapping.lookup (m_timers NewMemoryTransport) i = None"
  by (simp_all add: NewMemoryTransport_def)

subsection \<open>Properties\<close>

text \<open>
  C7. A hold is not cut short by expiry: when the lock is granted to \<open>h\<close> at \<open>t\<close> with no expiry
  command of that consumer armed or queued, then up to \<open>t + ttl\<close> it stays held by \<open>h\<close>, with at least that expiry time, through
  every interleaving of client operations, heartbeats of \<open>h\<close>, firing timers and expiry commands.
\<close>

theorem hold_survives_expiry:
  assumes "mem_acquire emit order t k h ttl m = (m1, True)" "no_pending_expiry k m"
    and "\<forall>e \<in> set es. event_keeps_hold k h t (t + ttl) e"
  shows "\<exists>u. mem_lock_row k (mem_event_run emit order es m1) = Some (h, u, ttl) \<and> t + ttl \<le> u"
proof -
  obtain d s c where k: "k = (d, s, c)" by (cases k)
  from guarded_run[OF guarded_start[OF assms(1,2)] assms(3), of emit order] k show ?thesis
    by (auto simp: guarded_def mem_lock_row_def)
qed


text \<open>
  Re-acquiring a lock does not disarm its earlier expiry timer, whose generation is that of
  the new hold: \<open>a\<close> acquires at 0 s and again at 20 s with a TTL of 30 s, so its hold runs to
  50 s; the timer of the first acquisition fires at 30 s, the lock is deleted, and \<open>b\<close> is granted
  it at 31 s.
\<close>

theorem reacquire_loses_lock:
  "let run = mem_event_run (\<lambda>evt. None) (\<lambda>m. [''c'']);
       m = run [Client (Acquire 0 (''d'', ''s'', ''c'') ''a'' 30000000000),
                Client (Acquire 20000000000 (''d'', ''s'', ''c'') ''a'' 30000000000)] NewMemoryTransport
   in mem_lock_row (''d'', ''s'', ''c'') m = Some (''a'', 50000000000, 30000000000)
      \<and> snd (mem_acquire (\<lambda>evt. None) (\<lambda>m. [''c'']) 31000000000 (''d'', ''s'', ''c'') ''b'' 30000000000
               (run [TimerFires 30000000000 0, PerformInput] m))"
proof -
  let ?acq = "\<lambda>t m. mem_event_step (\<lambda>evt. None) (\<lambda>m. [''c''])
                 (Client (Acquire t (''d'', ''s'', ''c'') ''a'' 30000000000)) m"
  let ?m2 = "?acq 20000000000 (?acq 0 NewMemoryTransport)"
  have free: "ls_heldUntil l < 20000000000 \<or> ls_holder l = ''a''"
    if "lockState ''d'' ''s'' ''c'' (?acq 0 NewMemoryTransport) = Some l" for l
    using that by (auto simp: mem_acquire_eq tryAcquire_new Let_def)
  have row: "mem_lock_row (''d'', ''s'', ''c'') ?m2 = Some (''a'', 50000000000, 30000000000)"
    and gen: "lockState ''d'' ''s'' ''c'' ?m2 \<noteq> None"
      "\<And>l. lockState ''d'' ''s'' ''c'' ?m2 = Some l \<Longrightarrow> ls_generation l = 0"
    and timer: "Mapping.lookup (m_timers ?m2) 0 =
      Some \<lparr>tm_at = 30000000000,
            tm_op = \<lparr>xo_domain = ''d'', xo_stream = ''s'', xo_consumer = ''c'', xo_generation = 0\<rparr>\<rparr>"
    and input: "m_input ?m2 = []"
    using tryAcquire_free[of "''d''" "''s''" "''c''" "?acq 0 NewMemoryTransport" 20000000000 "''a''", OF free]
    by (simp_all add: mem_acquire_eq tryAcquire_new Let_def case_prod_beta mem_lock_row_def new_fields)
  let ?m4 = "mem_event_run (\<lambda>evt. None) (\<lambda>m. [''c'']) [TimerFires 30000000000 0, PerformInput] ?m2"
  have "lock_at (''d'', ''s'', ''c'') ?m4 = None"
    using timer input gen by (auto simp: fire_timer_def perform_input_def lockExpiryOp_perform_def)
  then have "snd (mem_acquire (\<lambda>evt. None) (\<lambda>m. [''c'']) 31000000000 (''d'', ''s'', ''c'') ''b''
               30000000000 ?m4)"
    by (intro acquire_absent) (simp_all only: lock_at_simps min_ttl_30s)
  with row show ?thesis by (simp only: mem_event_run.simps Let_def)
qed

subsection \<open>Witnesses\<close>

theorem hold_survives_expiry_witness:
  "\<exists>u. mem_lock_row (''d'', ''s'', ''c'')
      (mem_event_run (\<lambda>e. None) (\<lambda>m. [])
         [Client (Beat 10000000000 (''d'', ''s'', ''c'') ''a'' 3), TimerFires 20000000000 0, PerformInput]
         (fst (mem_acquire (\<lambda>e. None) (\<lambda>m. []) 0 (''d'', ''s'', ''c'') ''a'' 30000000000
                 NewMemoryTransport))) = Some (''a'', u, 30000000000) \<and> 0 + 30000000000 \<le> u"
  by (rule hold_survives_expiry[OF mem_acquire_new])
     (simp_all add: no_pending_expiry_def NewMemoryTransport_def)


end
