(* ===== verification/Database.thy ===== *)
theory Database
  imports Wire
begin

text \<open>
  The Postgres tables that the service's storage code works on (\<open>src/migrations/primary\<close>), and what
  the code relies on of SQL. A table is the list of its rows in the order in which a scan meets
  them; a statement is modelled where the Go code issues it, as an operation on these lists.

  \<^item> A statement may fail: operations take \<open>fault\<close>, which gives for the name of a statement the error
    that the driver reports for it, if any. A failed statement changes nothing.
  \<^item> \<open>BIGSERIAL\<close> sequences hand out a fresh number for every attempted insert and are not rolled back.
  \<^item> A transaction works on its own view; \<open>commit\<close> makes the view the committed state, and \<open>rollback\<close>
    keeps the committed one except for the sequences.
  \<^item> \<open>NOW()\<close> is the database's clock and an argument; \<open>time.Now()\<close> is the service's clock and another.
    Instants and intervals are not rounded to the microseconds that Postgres stores.
\<close>

record stream_row =
  es_id :: int64
  es_app :: string
  es_stream :: string

record name_row =
  cn_id :: int64
  cn_name :: string

record lock_row =
  cl_stream_id :: int64
  cl_consumer_id :: int64
  cl_holder :: string
  cl_acquired_at :: time
  cl_heartbeat_at :: time
  cl_ttl :: duration
  cl_guarantee_until :: time
  cl_held_until :: time

record position_row =
  cp_stream_id :: int64
  cp_consumer :: string
  cp_consumer_id :: "int64 option"
  cp_event_id :: int64

record kind_row =
  ek_id :: int64
  ek_kind :: string

record event_row =
  ee_id :: int64
  ee_stream_id :: "int64 option"
  ee_kind_id :: "int64 option"
  ee_when :: time
  ee_event :: json

record db =
  db_streams :: "stream_row list"
  db_stream_seq :: int64
  db_kinds :: "kind_row list"
  db_kind_seq :: int64
  db_events :: "event_row list"
  db_event_seq :: int64
  db_names :: "name_row list"
  db_name_seq :: int64
  db_locks :: "lock_row list"
  db_positions :: "position_row list"

type_synonym faults = "string \<Rightarrow> goerror option"

abbreviation ErrNoRows :: goerror where
  "ErrNoRows \<equiv> DriverError ''no rows in result set''"

definition empty_db :: db where
  "empty_db = \<lparr>db_streams = [], db_stream_seq = 1, db_kinds = [], db_kind_seq = 1, db_events = [],
     db_event_seq = 1, db_names = [], db_name_seq = 1, db_locks = [], db_positions = []\<rparr>"

text \<open>What a rolled-back transaction leaves: the committed tables, and the advanced sequences.\<close>

definition rollback :: "db \<Rightarrow> db \<Rightarrow> db" where
  "rollback committed view =
     committed\<lparr>db_stream_seq := db_stream_seq view, db_kind_seq := db_kind_seq view,
               db_event_seq := db_event_seq view, db_name_seq := db_name_seq view\<rparr>"

subsection \<open>Scans\<close>

text \<open>\<open>SELECT id FROM events_stream WHERE app = $1 AND stream = $2\<close>\<close>

definition stream_id :: "string \<Rightarrow> string \<Rightarrow> db \<Rightarrow> int64 option" where
  "stream_id domain stream d =
     map_option es_id (List.find (\<lambda>r. es_app r = domain \<and> es_stream r = stream) (db_streams d))"

text \<open>\<open>SELECT id FROM consumer_names WHERE name = $1\<close>\<close>

definition name_id :: "string \<Rightarrow> db \<Rightarrow> int64 option" where
  "name_id name d = map_option cn_id (List.find (\<lambda>r. cn_name r = name) (db_names d))"

text \<open>\<open>JOIN consumer_names cn ON ... = cn.id\<close>\<close>

definition name_of :: "int64 \<Rightarrow> db \<Rightarrow> string option" where
  "name_of i d = map_option cn_name (List.find (\<lambda>r. cn_id r = i) (db_names d))"

text \<open>\<open>INSERT INTO consumer_names (name) VALUES ($1) ON CONFLICT (name) DO NOTHING\<close>\<close>

definition insert_name :: "string \<Rightarrow> db \<Rightarrow> db" where
  "insert_name name d =
     (case name_id name d of
        Some _ \<Rightarrow> d\<lparr>db_name_seq := db_name_seq d + 1\<rparr>
      | None \<Rightarrow> d\<lparr>db_names := db_names d @ [\<lparr>cn_id = db_name_seq d, cn_name = name\<rparr>],
                  db_name_seq := db_name_seq d + 1\<rparr>)"

text \<open>The row of \<open>consumer_locks\<close> with the given primary key.\<close>

definition find_lock :: "int64 \<Rightarrow> int64 \<Rightarrow> db \<Rightarrow> lock_row option" where
  "find_lock sid cid d =
     List.find (\<lambda>r. cl_stream_id r = sid \<and> cl_consumer_id r = cid) (db_locks d)"

subsection \<open>Integrity\<close>

text \<open>
  The constraints of the schema that the proofs use: primary keys, the foreign key of the locks, and
  that a position's \<open>consumer_id\<close>, where it is set, refers to the name in its \<open>consumer\<close> column.
\<close>

definition db_ok :: "db \<Rightarrow> bool" where
  "db_ok d \<longleftrightarrow>
     distinct (map es_id (db_streams d)) \<and> distinct (map cn_id (db_names d))
     \<and> (\<forall>r \<in> set (db_names d). cn_id r < db_name_seq d)
     \<and> (\<forall>r \<in> set (db_locks d). cl_consumer_id r < db_name_seq d)
     \<and> (\<forall>r \<in> set (db_positions d). \<forall>i. cp_consumer_id r = Some i \<longrightarrow> name_id (cp_consumer r) d = Some i)"

subsection \<open>Lemmas on scans\<close>

lemma name_id_SomeD:
  "name_id n d = Some i \<Longrightarrow> \<exists>r \<in> set (db_names d). cn_id r = i \<and> cn_name r = n"
  by (auto simp: name_id_def dest!: find_SomeD)

lemma stream_id_inj:
  assumes "db_ok d" "stream_id a s d = Some i" "stream_id a' s' d = Some i"
  shows "a = a' \<and> s = s'"
proof -
  from assms(2) obtain x where x: "x \<in> set (db_streams d)" "es_id x = i" "es_app x = a" "es_stream x = s"
    by (auto simp: stream_id_def dest!: find_SomeD)
  from assms(3) obtain y where y: "y \<in> set (db_streams d)" "es_id y = i" "es_app y = a'" "es_stream y = s'"
    by (auto simp: stream_id_def dest!: find_SomeD)
  from assms(1) have "distinct (map es_id (db_streams d))" by (simp add: db_ok_def)
  from distinct_map_eq[OF this x(1) y(1)] x y show ?thesis by simp
qed

lemma name_id_inj:
  assumes "db_ok d" "name_id n d = Some i" "name_id n' d = Some i"
  shows "n = n'"
proof -
  from name_id_SomeD[OF assms(2)] name_id_SomeD[OF assms(3)] obtain x y where
    x: "x \<in> set (db_names d)" "cn_id x = i" "cn_name x = n" and
    y: "y \<in> set (db_names d)" "cn_id y = i" "cn_name y = n'" by blast
  from assms(1) have "distinct (map cn_id (db_names d))" by (simp add: db_ok_def)
  from distinct_map_eq[OF this x(1) y(1)] x y show ?thesis by simp
qed

lemma name_of_name_id: "db_ok d \<Longrightarrow> name_id n d = Some i \<Longrightarrow> name_of i d = Some n"
proof -
  assume "db_ok d" "name_id n d = Some i"
  from name_id_SomeD[OF this(2)] obtain r where r: "r \<in> set (db_names d)" "cn_id r = i" "cn_name r = n"
    by blast
  moreover from \<open>db_ok d\<close> have "distinct (map cn_id (db_names d))" by (simp add: db_ok_def)
  ultimately show ?thesis using find_unique[of cn_id "db_names d" r] by (simp add: name_of_def)
qed

lemma insert_name_frame [frame_simps, simp]:
  "db_streams (insert_name n d) = db_streams d" "db_locks (insert_name n d) = db_locks d"
  "db_positions (insert_name n d) = db_positions d" "db_kinds (insert_name n d) = db_kinds d"
  "db_events (insert_name n d) = db_events d" "db_event_seq (insert_name n d) = db_event_seq d"
  "db_kind_seq (insert_name n d) = db_kind_seq d" "db_stream_seq (insert_name n d) = db_stream_seq d"
  "db_name_seq (insert_name n d) = db_name_seq d + 1"
  "stream_id a s (insert_name n d) = stream_id a s d" "find_lock x y (insert_name n d) = find_lock x y d"
  by (simp_all add: insert_name_def stream_id_def find_lock_def split: option.splits)

lemma name_id_insert:
  "name_id n' (insert_name n d) =
     (if n' = n \<and> name_id n d = None then Some (db_name_seq d) else name_id n' d)"
  by (auto simp: insert_name_def name_id_def find_append split: option.splits)

lemma name_id_insert_same: "\<exists>i. name_id n (insert_name n d) = Some i"
  by (cases "name_id n d") (simp_all add: name_id_insert)

lemma name_id_insert_mono: "name_id n' d = Some i \<Longrightarrow> name_id n' (insert_name n d) = Some i"
  by (auto simp: name_id_insert)

lemma db_ok_insert_name:
  assumes "db_ok d"
  shows "db_ok (insert_name n d)"
proof -
  have "name_id (cp_consumer r) (insert_name n d) = Some i"
    if "r \<in> set (db_positions d)" "cp_consumer_id r = Some i" for r i
    using that assms by (intro name_id_insert_mono) (simp add: db_ok_def)
  with assms show ?thesis
    by (auto simp: db_ok_def) (auto simp: insert_name_def split: option.splits)
qed

end
