(* ===== verification/ConsumerStore.thy ===== *)
theory ConsumerStore
  imports Database Interfaces
begin

text \<open>
  The Postgres store of consumer locks and positions: \<open>src/internal/service/storage/consumer.go\<close>.

  Statements inside a transaction work on the transaction's view, statements on the pool on the
  committed state: \<open>cleanExpiredLocks\<close> and \<open>getConflictVersion\<close> are issued on the pool while a
  transaction is open. The advisory lock of \<open>TryAcquire\<close> serialises the calls for a consumer, so a call is
  one transition. \<open>imul\<close> stands for Postgres's product of an interval and
  \<open>DefaultGuaranteeFraction\<close>. Spans and metrics are not part of the model.
\<close>

type_synonym LockReleasedInfo = LockReleasedEvent

subsection \<open>Names and streams\<close>

definition resolveConsumerName :: "faults \<Rightarrow> string \<Rightarrow> db \<Rightarrow> db \<times> int64 outcome" where
  "resolveConsumerName fault name d =
     (case fault ''insert consumer name'' of
        Some e \<Rightarrow> (d, Err (OperationError ''insert consumer name'' e))
      | None \<Rightarrow>
          (let d1 = insert_name name d
           in case fault ''select consumer id'' of
                Some e \<Rightarrow> (d1, Err (OperationError ''select consumer id'' e))
              | None \<Rightarrow>
                  (case name_id name d1 of
                     None \<Rightarrow> (d1, Err (OperationError ''select consumer id'' ErrNoRows))
                   | Some i \<Rightarrow> (d1, Ok i))))"

text \<open>The same two statements inside a transaction.\<close>

definition resolveConsumerNameInTx :: "faults \<Rightarrow> string \<Rightarrow> db \<Rightarrow> db \<times> int64 outcome" where
  "resolveConsumerNameInTx fault name t =
     (case fault ''insert consumer name'' of
        Some e \<Rightarrow> (t, Err (OperationError ''insert consumer name'' e))
      | None \<Rightarrow>
          (let t1 = insert_name name t
           in case fault ''select consumer id'' of
                Some e \<Rightarrow> (t1, Err (OperationError ''select consumer id'' e))
              | None \<Rightarrow>
                  (case name_id name t1 of
                     None \<Rightarrow> (t1, Err (OperationError ''select consumer id'' ErrNoRows))
                   | Some i \<Rightarrow> (t1, Ok i))))"

definition resolveStreamID :: "faults \<Rightarrow> string \<Rightarrow> string \<Rightarrow> db \<Rightarrow> int64 outcome" where
  "resolveStreamID fault domain stream t =
     (case fault ''resolve stream'' of
        Some e \<Rightarrow> (if e = ErrNoRows then Err (StreamNotFoundError domain stream)
                   else Err (OperationError ''resolve stream'' e))
      | None \<Rightarrow>
          (case stream_id domain stream t of
             None \<Rightarrow> Err (StreamNotFoundError domain stream)
           | Some i \<Rightarrow> Ok i))"

text \<open>The lock row of a consumer on a stream: the join of \<open>consumer_locks\<close> and \<open>events_stream\<close>.\<close>

definition joined_lock :: "string \<Rightarrow> string \<Rightarrow> int64 \<Rightarrow> db \<Rightarrow> lock_row option" where
  "joined_lock domain stream cid d =
     (case stream_id domain stream d of None \<Rightarrow> None | Some sid \<Rightarrow> find_lock sid cid d)"

definition ResolveAndCheckLock ::
  "faults \<Rightarrow> time \<Rightarrow> string \<Rightarrow> string \<Rightarrow> Lock \<Rightarrow> db \<Rightarrow> db \<times> unit outcome" where
  "ResolveAndCheckLock fault now domain stream lock t =
     (case resolveConsumerNameInTx fault (lock_consumer lock) t of
        (t1, Err e) \<Rightarrow> (t1, Err e)
      | (t1, Panic p) \<Rightarrow> (t1, Panic p)
      | (t1, Ok consumerID) \<Rightarrow>
          (case fault ''check lock held'' of
             Some e \<Rightarrow> (t1, Err e)
           | None \<Rightarrow>
               (if (case joined_lock domain stream consumerID t1 of
                      None \<Rightarrow> False
                    | Some r \<Rightarrow> cl_holder r = lock_holder lock \<and> cl_held_until r > now)
                then (t1, Ok ())
                else (t1, Err (LockNotHeldError (lock_consumer lock) (lock_holder lock) domain stream)))))"

subsection \<open>Acquiring\<close>

definition queryConflictHolder ::
  "faults \<Rightarrow> time \<Rightarrow> int64 \<Rightarrow> int64 \<Rightarrow> db \<Rightarrow> string outcome" where
  "queryConflictHolder fault now sid cid t =
     (case fault ''query conflict holder'' of
        Some e \<Rightarrow> (if e = ErrNoRows then Ok '''' else Err (OperationError ''query conflict holder'' e))
      | None \<Rightarrow>
          (case find_lock sid cid t of
             None \<Rightarrow> Ok ''''
           | Some r \<Rightarrow> Ok (if cl_held_until r > now then cl_holder r else '''')))"

definition position_matches :: "int64 \<Rightarrow> int64 \<Rightarrow> string \<Rightarrow> position_row \<Rightarrow> bool" where
  "position_matches sid cid consumer r \<longleftrightarrow>
     cp_stream_id r = sid \<and>
     (cp_consumer_id r = Some cid \<or> (cp_consumer_id r = None \<and> cp_consumer r = consumer))"

definition queryPositionInTx ::
  "faults \<Rightarrow> int64 \<Rightarrow> int64 \<Rightarrow> string \<Rightarrow> db \<Rightarrow> int64 outcome" where
  "queryPositionInTx fault sid cid consumer t =
     (case fault ''query position in acquire'' of
        Some e \<Rightarrow> Err (OperationError ''query position in acquire'' e)
      | None \<Rightarrow>
          Ok (case map cp_event_id (filter (position_matches sid cid consumer) (db_positions t)) of
                [] \<Rightarrow> 0
              | i # is \<Rightarrow> fold max is i))"

text \<open>
  The cleanup, issued on the pool: up to 128 rows of the stream, other than the excluded consumer's,
  that have run out are deleted; the result lists them with their consumers' names.
\<close>

definition expired_rows :: "time \<Rightarrow> string \<Rightarrow> string \<Rightarrow> int64 \<Rightarrow> db \<Rightarrow> lock_row list" where
  "expired_rows now domain stream ex d =
     (case stream_id domain stream d of
        None \<Rightarrow> []
      | Some sid \<Rightarrow>
          take 128 (filter (\<lambda>r. cl_stream_id r = sid \<and> cl_held_until r < now \<and> cl_consumer_id r \<noteq> ex)
                      (db_locks d)))"

definition delete_locks :: "lock_row list \<Rightarrow> db \<Rightarrow> db" where
  "delete_locks rows d = d\<lparr>db_locks := filter (\<lambda>r. r \<notin> set rows) (db_locks d)\<rparr>"

definition cs_cleanExpiredLocks ::
  "faults \<Rightarrow> time \<Rightarrow> string \<Rightarrow> string \<Rightarrow> int64 \<Rightarrow> db \<times> db \<Rightarrow> (db \<times> db) \<times> LockReleasedInfo list" where
  "cs_cleanExpiredLocks fault now domain stream ex ct =
     (case ct of (c, t) \<Rightarrow>
        (case fault ''clean expired locks'' of
           Some e \<Rightarrow> ((c, t), [])
         | None \<Rightarrow>
             (let rows = expired_rows now domain stream ex c
              in ((delete_locks rows c, delete_locks rows t),
                  List.map_filter (\<lambda>r. map_option (\<lambda>n. \<lparr>ev_domain = domain, ev_stream = stream,
                       ev_consumer = n, ev_holder = cl_holder r\<rparr>) (name_of (cl_consumer_id r) c)) rows))))"

text \<open>\<open>INSERT INTO consumer_locks ... ON CONFLICT ... DO UPDATE ... RETURNING holder\<close>\<close>

definition upsert_lock ::
  "time \<Rightarrow> int64 \<Rightarrow> int64 \<Rightarrow> string \<Rightarrow> duration \<Rightarrow> time \<Rightarrow> time \<Rightarrow> db \<Rightarrow> db \<times> string option" where
  "upsert_lock now sid cid holder ttl guaranteeUntil heldUntil t =
     (let row = \<lparr>cl_stream_id = sid, cl_consumer_id = cid, cl_holder = holder, cl_acquired_at = now,
                 cl_heartbeat_at = now, cl_ttl = ttl, cl_guarantee_until = guaranteeUntil,
                 cl_held_until = heldUntil\<rparr>
      in case find_lock sid cid t of
           None \<Rightarrow> (t\<lparr>db_locks := db_locks t @ [row]\<rparr>, Some holder)
         | Some r \<Rightarrow>
             (if cl_held_until r < now \<or> cl_holder r = holder
              then (t\<lparr>db_locks := map (\<lambda>x. if cl_stream_id x = sid \<and> cl_consumer_id x = cid
                                          then row else x) (db_locks t)\<rparr>, Some holder)
              else (t, None)))"

definition buildAcquiredResult ::
  "faults \<Rightarrow> time \<Rightarrow> string \<Rightarrow> string \<Rightarrow> string \<Rightarrow> string \<Rightarrow> int64 \<Rightarrow> int64 \<Rightarrow> time \<Rightarrow> time \<Rightarrow> db \<times> db
     \<Rightarrow> (db \<times> db) \<times> (LockResult \<times> LockReleasedInfo list) outcome" where
  "buildAcquiredResult fault now domain stream consumer holder sid cid guaranteeUntil heldUntil ct =
     (case cs_cleanExpiredLocks fault now domain stream cid ct of
        ((c1, t1), expiredLocks) \<Rightarrow>
          ((c1, t1),
           bindo (queryPositionInTx fault sid cid consumer t1) (\<lambda>position.
             Ok (\<lparr>lr_acquired = True, lr_heldBy = holder, lr_guaranteeUntil = guaranteeUntil,
                  lr_heldUntil = heldUntil, lr_position = position\<rparr>, expiredLocks))))"

text \<open>\<open>g1\<close> and \<open>g2\<close> are the two readings of \<open>time.Now()\<close>.\<close>

definition tryAcquireInTx ::
  "faults \<Rightarrow> time \<Rightarrow> time \<Rightarrow> time \<Rightarrow> string \<Rightarrow> string \<Rightarrow> string \<Rightarrow> string \<Rightarrow> duration \<Rightarrow> db \<times> db
     \<Rightarrow> (db \<times> db) \<times> (LockResult \<times> LockReleasedInfo list) outcome" where
  "tryAcquireInTx fault now g1 g2 domain stream consumer holder ttl ct =
     (case ct of (c, t) \<Rightarrow>
        (case fault ''advisory lock'' of
           Some e \<Rightarrow> ((c, t), Err (OperationError ''advisory lock'' e))
         | None \<Rightarrow>
             (case resolveConsumerNameInTx fault consumer t of
                (t1, Err e) \<Rightarrow> ((c, t1), Err e)
              | (t1, Panic p) \<Rightarrow> ((c, t1), Panic p)
              | (t1, Ok cid) \<Rightarrow>
                  (case resolveStreamID fault domain stream t1 of
                     Err e \<Rightarrow> ((c, t1), Err e)
                   | Panic p \<Rightarrow> ((c, t1), Panic p)
                   | Ok sid \<Rightarrow>
                       (let guaranteeUntil = g1 + scale09 ttl;
                            heldUntil = g2 + ttl
                        in case fault ''try acquire lock'' of
                             Some e \<Rightarrow> ((c, t1), Err (OperationError ''try acquire lock'' e))
                           | None \<Rightarrow>
                               (case upsert_lock now sid cid holder ttl guaranteeUntil heldUntil t1 of
                                  (t2, Some _) \<Rightarrow>
                                    buildAcquiredResult fault now domain stream consumer holder sid cid
                                      guaranteeUntil heldUntil (c, t2)
                                | (t2, None) \<Rightarrow>
                                    ((c, t2),
                                     bindo (queryConflictHolder fault now sid cid t2) (\<lambda>currentHolder.
                                       Ok (\<lparr>lr_acquired = False, lr_heldBy = currentHolder,
                                            lr_guaranteeUntil = guaranteeUntil,
                                            lr_heldUntil = heldUntil, lr_position = - 1\<rparr>, [])))))))))"

definition cs_TryAcquire ::
  "faults \<Rightarrow> time \<Rightarrow> time \<Rightarrow> time \<Rightarrow> string \<Rightarrow> string \<Rightarrow> string \<Rightarrow> string \<Rightarrow> duration \<Rightarrow> db
     \<Rightarrow> db \<times> (LockResult \<times> LockReleasedInfo list) outcome" where
  "cs_TryAcquire fault now g1 g2 domain stream consumer holder ttl d =
     (if ttl < LockMinimumTTL then (d, Err (TTLTooLowError ttl LockMinimumTTL))
      else case fault ''begin'' of
             Some e \<Rightarrow> (d, Err (OperationError ''begin acquire transaction'' e))
           | None \<Rightarrow>
               (case tryAcquireInTx fault now g1 g2 domain stream consumer holder ttl (d, d) of
                  ((c, t), Panic p) \<Rightarrow> (rollback c t, Panic p)
                | ((c, t), Err e) \<Rightarrow> (rollback c t, Err (the (join_err (Some e) (fault ''rollback''))))
                | ((c, t), Ok r) \<Rightarrow>
                    (case fault ''commit'' of
                       Some e \<Rightarrow> (rollback c t, Err (the (join_err (Some (OperationError ''commit acquire'' e))
                                                          (fault ''rollback''))))
                     | None \<Rightarrow> (t, Ok r))))"

subsection \<open>Releasing and inspecting\<close>

definition validateReleaseParams :: "string \<Rightarrow> string \<Rightarrow> string \<Rightarrow> string \<Rightarrow> goerror option" where
  "validateReleaseParams domain stream consumer holder =
     (if domain = '''' \<or> stream = '''' \<or> consumer = '''' \<or> holder = ''''
      then Some (TextError ''invalid parameters: domain, stream, consumer, and holder are required'')
      else None)"

definition queryActiveLock ::
  "faults \<Rightarrow> time \<Rightarrow> string \<Rightarrow> string \<Rightarrow> int64 \<Rightarrow> db \<Rightarrow> lock_row option outcome" where
  "queryActiveLock fault now domain stream cid d =
     (case fault ''query lock for release'' of
        Some e \<Rightarrow> (if e = ErrNoRows then Ok None else Err (OperationError ''query lock for release'' e))
      | None \<Rightarrow>
          Ok (case joined_lock domain stream cid d of
                None \<Rightarrow> None
              | Some r \<Rightarrow> (if cl_held_until r > now then Some r else None)))"

definition queryAndValidateLock ::
  "faults \<Rightarrow> time \<Rightarrow> string \<Rightarrow> string \<Rightarrow> int64 \<Rightarrow> string \<Rightarrow> string \<Rightarrow> db \<Rightarrow> lock_row option outcome" where
  "queryAndValidateLock fault now domain stream cid consumer holder d =
     bindo (queryActiveLock fault now domain stream cid d) (\<lambda>info.
       case info of
         None \<Rightarrow> Ok None
       | Some r \<Rightarrow> (if cl_holder r \<noteq> holder then Err (LockNotHeldError consumer holder domain stream)
                    else Ok (Some r)))"

definition deleteLockAndRecordMetrics ::
  "faults \<Rightarrow> string \<Rightarrow> string \<Rightarrow> int64 \<Rightarrow> db \<Rightarrow> db \<times> unit outcome" where
  "deleteLockAndRecordMetrics fault domain stream cid d =
     (case fault ''release lock'' of
        Some e \<Rightarrow> (d, Err (OperationError ''release lock'' e))
      | None \<Rightarrow>
          (d\<lparr>db_locks := filter (\<lambda>r. \<not> (stream_id domain stream d = Some (cl_stream_id r)
                                          \<and> cl_consumer_id r = cid)) (db_locks d)\<rparr>, Ok ()))"

definition cs_Release ::
  "faults \<Rightarrow> time \<Rightarrow> string \<Rightarrow> string \<Rightarrow> string \<Rightarrow> string \<Rightarrow> db \<Rightarrow> db \<times> LockReleasedInfo option outcome" where
  "cs_Release fault now domain stream consumer holder d =
     (case validateReleaseParams domain stream consumer holder of
        Some e \<Rightarrow> (d, Err e)
      | None \<Rightarrow>
          (case resolveConsumerName fault consumer d of
             (d1, Err e) \<Rightarrow> (d1, Err e)
           | (d1, Panic p) \<Rightarrow> (d1, Panic p)
           | (d1, Ok cid) \<Rightarrow>
               (case queryAndValidateLock fault now domain stream cid consumer holder d1 of
                  Err e \<Rightarrow> (d1, Err e)
                | Panic p \<Rightarrow> (d1, Panic p)
                | Ok None \<Rightarrow> (d1, Ok None)
                | Ok (Some info) \<Rightarrow>
                    (case deleteLockAndRecordMetrics fault domain stream cid d1 of
                       (d2, Err e) \<Rightarrow> (d2, Err e)
                     | (d2, Panic p) \<Rightarrow> (d2, Panic p)
                     | (d2, Ok _) \<Rightarrow>
                         (d2, Ok (Some \<lparr>ev_domain = domain, ev_stream = stream, ev_consumer = consumer,
                                       ev_holder = holder\<rparr>))))))"

definition row_state :: "string \<Rightarrow> string \<Rightarrow> string \<Rightarrow> lock_row \<Rightarrow> LockState" where
  "row_state name domain stream r =
     \<lparr>lk_consumer = name, lk_domain = domain, lk_stream = stream, lk_holder = cl_holder r,
      lk_acquiredAt = cl_acquired_at r, lk_heartbeatAt = cl_heartbeat_at r, lk_ttl = cl_ttl r,
      lk_guaranteeUntil = cl_guarantee_until r, lk_heldUntil = cl_held_until r\<rparr>"

definition cs_GetLock ::
  "faults \<Rightarrow> time \<Rightarrow> string \<Rightarrow> string \<Rightarrow> string \<Rightarrow> db \<Rightarrow> db \<times> LockState option outcome" where
  "cs_GetLock fault gonow domain stream consumer d =
     (case resolveConsumerName fault consumer d of
        (d1, Err e) \<Rightarrow> (d1, Err e)
      | (d1, Panic p) \<Rightarrow> (d1, Panic p)
      | (d1, Ok cid) \<Rightarrow>
          (d1, case fault ''get lock'' of
                 Some e \<Rightarrow> (if e = ErrNoRows then Ok None else Err (OperationError ''get lock'' e))
               | None \<Rightarrow>
                   (case joined_lock domain stream cid d1 of
                      None \<Rightarrow> Ok None
                    | Some r \<Rightarrow>
                        (case name_of cid d1 of
                           None \<Rightarrow> Ok None
                         | Some n \<Rightarrow>
                             (if cl_held_until r < gonow then Ok None
                              else Ok (Some (row_state n domain stream r)))))))"

definition cs_ListLocks ::
  "faults \<Rightarrow> time \<Rightarrow> string \<Rightarrow> string \<Rightarrow> db \<Rightarrow> LockState list outcome" where
  "cs_ListLocks fault now domain stream d =
     (case fault ''list locks'' of
        Some e \<Rightarrow> Err (OperationError ''list locks'' e)
      | None \<Rightarrow>
          (case fault ''list locks iterate'' of
             Some e \<Rightarrow> Err (OperationError ''list locks iterate'' e)
           | None \<Rightarrow>
               Ok (sort_key lk_acquiredAt
                     (List.map_filter (\<lambda>r.
                        if stream_id domain stream d = Some (cl_stream_id r) \<and> cl_held_until r > now
                        then map_option (\<lambda>n. row_state n domain stream r) (name_of (cl_consumer_id r) d)
                        else None) (db_locks d)))))"

subsection \<open>Heartbeats\<close>

definition checkLockState ::
  "faults \<Rightarrow> string \<Rightarrow> string \<Rightarrow> int64 \<Rightarrow> db \<Rightarrow> lock_row option outcome" where
  "checkLockState fault domain stream cid t =
     (case fault ''check lock state'' of
        Some e \<Rightarrow> (if e = ErrNoRows then Ok None else Err (OperationError ''check lock state'' e))
      | None \<Rightarrow> Ok (joined_lock domain stream cid t))"

definition beat_row :: "(duration \<Rightarrow> duration) \<Rightarrow> time \<Rightarrow> lock_row \<Rightarrow> lock_row" where
  "beat_row imul now r =
     r\<lparr>cl_heartbeat_at := now, cl_guarantee_until := now + imul (cl_ttl r),
       cl_held_until := now + cl_ttl r\<rparr>"

definition beat_matches :: "time \<Rightarrow> string \<Rightarrow> string \<Rightarrow> int64 \<Rightarrow> string \<Rightarrow> db \<Rightarrow> lock_row \<Rightarrow> bool" where
  "beat_matches now domain stream cid holder t r \<longleftrightarrow>
     stream_id domain stream t = Some (cl_stream_id r) \<and> cl_consumer_id r = cid
     \<and> cl_holder r = holder \<and> cl_held_until r > now"

definition updateLockHeartbeat ::
  "faults \<Rightarrow> (duration \<Rightarrow> duration) \<Rightarrow> time \<Rightarrow> string \<Rightarrow> string \<Rightarrow> int64 \<Rightarrow> string \<Rightarrow> db
     \<Rightarrow> db \<times> bool outcome" where
  "updateLockHeartbeat fault imul now domain stream cid holder t =
     (case fault ''heartbeat lock update'' of
        Some e \<Rightarrow> (t, Err (OperationError ''heartbeat lock update'' e))
      | None \<Rightarrow>
          (t\<lparr>db_locks := map (\<lambda>r. if beat_matches now domain stream cid holder t r
                                  then beat_row imul now r else r) (db_locks t)\<rparr>,
           Ok (0 < length (filter (beat_matches now domain stream cid holder t) (db_locks t)))))"

text \<open>\<open>INSERT INTO consumer_positions ... ON CONFLICT (stream_id, consumer) DO UPDATE ... WHERE ...\<close>\<close>

definition upsert_position ::
  "int64 \<Rightarrow> string \<Rightarrow> int64 \<Rightarrow> int64 \<Rightarrow> db \<Rightarrow> db \<times> bool" where
  "upsert_position sid consumer cid position t =
     (let row = \<lparr>cp_stream_id = sid, cp_consumer = consumer, cp_consumer_id = Some cid,
                 cp_event_id = position\<rparr>
      in case List.find (\<lambda>r. cp_stream_id r = sid \<and> cp_consumer r = consumer) (db_positions t) of
           None \<Rightarrow> (t\<lparr>db_positions := db_positions t @ [row]\<rparr>, True)
         | Some r \<Rightarrow>
             (if cp_event_id r \<le> position
              then (t\<lparr>db_positions := map (\<lambda>x. if cp_stream_id x = sid \<and> cp_consumer x = consumer
                                              then row else x) (db_positions t)\<rparr>, True)
              else (t, False)))"

definition updatePosition ::
  "faults \<Rightarrow> string \<Rightarrow> string \<Rightarrow> string \<Rightarrow> int64 \<Rightarrow> int64 \<Rightarrow> db \<Rightarrow> db \<times> bool outcome" where
  "updatePosition fault domain stream consumer cid position t =
     (case fault ''heartbeat position update'' of
        Some e \<Rightarrow> (t, Err (OperationError ''heartbeat position update'' e))
      | None \<Rightarrow>
          (case stream_id domain stream t of
             None \<Rightarrow> (t, Ok False)
           | Some sid \<Rightarrow> (case upsert_position sid consumer cid position t of (t', b) \<Rightarrow> (t', Ok b))))"

definition getConflictVersion :: "faults \<Rightarrow> string \<Rightarrow> string \<Rightarrow> string \<Rightarrow> db \<Rightarrow> int64" where
  "getConflictVersion fault domain stream consumer c =
     (case fault ''conflict version'' of
        Some e \<Rightarrow> 0
      | None \<Rightarrow>
          (case List.find (\<lambda>r. stream_id domain stream c = Some (cp_stream_id r) \<and> cp_consumer r = consumer)
                  (db_positions c) of
             None \<Rightarrow> 0
           | Some r \<Rightarrow> cp_event_id r))"

definition resolveLockError ::
  "time \<Rightarrow> lock_row option \<Rightarrow> string \<Rightarrow> string \<Rightarrow> string \<Rightarrow> string \<Rightarrow> goerror" where
  "resolveLockError gonow state domain stream consumer holder =
     (case state of
        None \<Rightarrow> LockNotFoundError domain stream consumer holder
      | Some r \<Rightarrow>
          (if cl_holder r \<noteq> holder then LockNotHeldError consumer holder domain stream
           else if cl_held_until r < gonow then LockExpiredError consumer domain stream
           else LockNotFoundError domain stream consumer holder))"

text \<open>
  The last statement is the commit: with \<open>Ok ()\<close> the returned view has become the committed state,
  otherwise the caller rolls back.
\<close>

definition heartbeatWithinTx ::
  "faults \<Rightarrow> (duration \<Rightarrow> duration) \<Rightarrow> time \<Rightarrow> time \<Rightarrow> string \<Rightarrow> string \<Rightarrow> string \<Rightarrow> string \<Rightarrow> int64 \<Rightarrow> int64
     \<Rightarrow> db \<Rightarrow> db \<Rightarrow> db \<times> unit outcome" where
  "heartbeatWithinTx fault imul now gonow domain stream consumer holder cid position c t =
     (case checkLockState fault domain stream cid t of
        Err e \<Rightarrow> (t, Err e)
      | Panic p \<Rightarrow> (t, Panic p)
      | Ok state \<Rightarrow>
          (case updateLockHeartbeat fault imul now domain stream cid holder t of
             (t1, Err e) \<Rightarrow> (t1, Err e)
           | (t1, Panic p) \<Rightarrow> (t1, Panic p)
           | (t1, Ok updated) \<Rightarrow>
               (if \<not> updated then (t1, Err (resolveLockError gonow state domain stream consumer holder))
                else case updatePosition fault domain stream consumer cid position t1 of
                       (t2, Err e) \<Rightarrow> (t2, Err e)
                     | (t2, Panic p) \<Rightarrow> (t2, Panic p)
                     | (t2, Ok positionUpdated) \<Rightarrow>
                         (if \<not> positionUpdated
                          then (t2, Err (HeartbeatConflictError position
                                  (getConflictVersion fault domain stream consumer c)))
                          else (t2, case fault ''commit'' of None \<Rightarrow> Ok () | Some e \<Rightarrow> Err e)))))"

definition cs_HeartbeatWithPosition ::
  "faults \<Rightarrow> (duration \<Rightarrow> duration) \<Rightarrow> time \<Rightarrow> time \<Rightarrow> string \<Rightarrow> string \<Rightarrow> string \<Rightarrow> string \<Rightarrow> int64
     \<Rightarrow> db \<Rightarrow> db \<times> unit outcome" where
  "cs_HeartbeatWithPosition fault imul now gonow domain stream consumer holder position d =
     (case resolveConsumerName fault consumer d of
        (c, Err e) \<Rightarrow> (c, Err e)
      | (c, Panic p) \<Rightarrow> (c, Panic p)
      | (c, Ok cid) \<Rightarrow>
          (case fault ''begin'' of
             Some e \<Rightarrow> (c, Err (OperationError ''begin heartbeat transaction'' e))
           | None \<Rightarrow>
               (case heartbeatWithinTx fault imul now gonow domain stream consumer holder cid position c c of
                  (t, Ok _) \<Rightarrow> (t, Ok ())
                | (t, Err e) \<Rightarrow> (rollback c t, Err (the (join_err (Some e) (fault ''rollback''))))
                | (t, Panic p) \<Rightarrow> (rollback c t, Panic p))))"

subsection \<open>Positions\<close>

definition cs_SetPosition ::
  "faults \<Rightarrow> string \<Rightarrow> string \<Rightarrow> string \<Rightarrow> int64 \<Rightarrow> db \<Rightarrow> db \<times> SetPositionResult outcome" where
  "cs_SetPosition fault domain stream consumer eventID d =
     (case resolveConsumerName fault consumer d of
        (d1, Err e) \<Rightarrow> (d1, Err e)
      | (d1, Panic p) \<Rightarrow> (d1, Panic p)
      | (d1, Ok cid) \<Rightarrow>
          (case fault ''select stream'' of
             Some e \<Rightarrow> (d1, if e = ErrNoRows then Err (StreamNotFoundError domain stream) else Err e)
           | None \<Rightarrow>
               (case stream_id domain stream d1 of
                  None \<Rightarrow> (d1, Err (StreamNotFoundError domain stream))
                | Some sid \<Rightarrow>
                    (case fault ''upsert position'' of
                       Some e \<Rightarrow> (d1, Err e)
                     | None \<Rightarrow>
                         (let previous = map_option cp_event_id
                                (List.find (\<lambda>r. cp_stream_id r = sid \<and> cp_consumer r = consumer)
                                   (db_positions d1))
                          in case upsert_position sid consumer cid eventID d1 of
                               (d2, True) \<Rightarrow> (d2, Ok \<lparr>sp_previous = previous, sp_current = eventID\<rparr>)
                             | (d2, False) \<Rightarrow>
                                 (case previous of
                                    None \<Rightarrow> (d2, Panic ''nil pointer dereference'')
                                  | Some p \<Rightarrow> (d2, Err (BackwardPositionError consumer p eventID))))))))"

text \<open>
  The \<open>WHERE\<close> clause of \<open>GetPosition\<close>: \<open>cn.name = $3 OR (cp.consumer_id IS NULL AND cp.consumer = $3)\<close>, with
  \<open>cn\<close> left-joined by \<open>consumer_id\<close>.
\<close>

definition position_name :: "db \<Rightarrow> position_row \<Rightarrow> string option" where
  "position_name d r = (case cp_consumer_id r of None \<Rightarrow> None | Some i \<Rightarrow> name_of i d)"

definition position_of_consumer :: "string \<Rightarrow> string \<Rightarrow> string \<Rightarrow> db \<Rightarrow> position_row \<Rightarrow> bool" where
  "position_of_consumer domain stream consumer d r \<longleftrightarrow>
     stream_id domain stream d = Some (cp_stream_id r)
     \<and> (position_name d r = Some consumer \<or> (cp_consumer_id r = None \<and> cp_consumer r = consumer))"

definition cs_GetPosition ::
  "faults \<Rightarrow> string \<Rightarrow> string \<Rightarrow> string \<Rightarrow> db \<Rightarrow> (int64 \<times> bool) outcome" where
  "cs_GetPosition fault domain stream consumer d =
     (case fault ''get position'' of
        Some e \<Rightarrow> (if e = ErrNoRows then Ok (0, False) else Err e)
      | None \<Rightarrow>
          (case List.find (position_of_consumer domain stream consumer d) (db_positions d) of
             None \<Rightarrow> Ok (0, False)
           | Some r \<Rightarrow> Ok (cp_event_id r, True)))"

definition cs_ListConsumers ::
  "faults \<Rightarrow> string \<Rightarrow> string \<Rightarrow> db \<Rightarrow> string list outcome" where
  "cs_ListConsumers fault domain stream d =
     (case fault ''list consumers'' of
        Some e \<Rightarrow> Err (OperationError ''list consumers'' e)
      | None \<Rightarrow>
          (case fault ''list consumers iterate'' of
             Some e \<Rightarrow> Err (OperationError ''list consumers iterate'' e)
           | None \<Rightarrow>
               Ok (remdups (map (\<lambda>r. case position_name d r of None \<Rightarrow> cp_consumer r | Some n \<Rightarrow> n)
                     (filter (\<lambda>r. stream_id domain stream d = Some (cp_stream_id r)) (db_positions d))))))"

definition cs_DeletePosition ::
  "faults \<Rightarrow> string \<Rightarrow> string \<Rightarrow> string \<Rightarrow> db \<Rightarrow> db \<times> unit outcome" where
  "cs_DeletePosition fault domain stream consumer d =
     (case fault ''delete position'' of
        Some e \<Rightarrow> (d, Err (OperationError ''delete position'' e))
      | None \<Rightarrow>
          (d\<lparr>db_positions := filter (\<lambda>r. \<not> (stream_id domain stream d = Some (cp_stream_id r)
               \<and> ((cp_consumer_id r \<noteq> None \<and> cp_consumer_id r = name_id consumer d)
                  \<or> (cp_consumer_id r = None \<and> cp_consumer r = consumer)))) (db_positions d)\<rparr>, Ok ()))"

subsection \<open>The locks and positions as a client sees them\<close>

text \<open>With a working database and with both clocks showing the same time.\<close>

abbreviation no_faults :: faults where
  "no_faults \<equiv> \<lambda>_. None"

type_synonym store_key = "string \<times> string \<times> string"

definition cs_lock_row :: "store_key \<Rightarrow> db \<Rightarrow> (string \<times> time \<times> duration) option" where
  "cs_lock_row k d =
     (case k of (app, str, c) \<Rightarrow>
        (case (stream_id app str d, name_id c d) of
           (Some sid, Some cid) \<Rightarrow>
             map_option (\<lambda>r. (cl_holder r, cl_held_until r, cl_ttl r)) (find_lock sid cid d)
         | _ \<Rightarrow> None))"

definition cs_acquire :: "time \<Rightarrow> store_key \<Rightarrow> string \<Rightarrow> duration \<Rightarrow> db \<Rightarrow> db \<times> bool" where
  "cs_acquire now k h ttl d =
     (case k of (app, str, c) \<Rightarrow>
        (case cs_TryAcquire no_faults now now now app str c h ttl d of
           (d', Ok (r, _)) \<Rightarrow> (d', lr_acquired r)
         | (d', _) \<Rightarrow> (d', False)))"

definition cs_release :: "time \<Rightarrow> store_key \<Rightarrow> string \<Rightarrow> db \<Rightarrow> db \<times> bool" where
  "cs_release now k h d =
     (case k of (app, str, c) \<Rightarrow>
        (case cs_Release no_faults now app str c h d of
           (d', Ok (Some _)) \<Rightarrow> (d', True)
         | (d', _) \<Rightarrow> (d', False)))"

definition cs_beat ::
  "(duration \<Rightarrow> duration) \<Rightarrow> time \<Rightarrow> store_key \<Rightarrow> string \<Rightarrow> int64 \<Rightarrow> db \<Rightarrow> db \<times> bool" where
  "cs_beat imul now k h p d =
     (case k of (app, str, c) \<Rightarrow>
        (case cs_HeartbeatWithPosition no_faults imul now now app str c h p d of (d', r) \<Rightarrow> (d', is_ok r)))"

definition known_key :: "store_key \<Rightarrow> db \<Rightarrow> bool" where
  "known_key k d \<longleftrightarrow>
     (case k of (app, str, c) \<Rightarrow> stream_id app str d \<noteq> None \<and> app \<noteq> '''' \<and> str \<noteq> '''' \<and> c \<noteq> '''')"

definition cs_setp :: "store_key \<Rightarrow> int64 \<Rightarrow> db \<Rightarrow> db \<times> bool" where
  "cs_setp k v d =
     (case k of (app, str, c) \<Rightarrow> (case cs_SetPosition no_faults app str c v d of (d', r) \<Rightarrow> (d', is_ok r)))"

definition cs_getp :: "store_key \<Rightarrow> db \<Rightarrow> int64 option" where
  "cs_getp k d =
     (case k of (app, str, c) \<Rightarrow>
        (case cs_GetPosition no_faults app str c d of Ok (i, True) \<Rightarrow> Some i | _ \<Rightarrow> None))"

definition cs_delp :: "store_key \<Rightarrow> db \<Rightarrow> db" where
  "cs_delp k d = (case k of (app, str, c) \<Rightarrow> fst (cs_DeletePosition no_faults app str c d))"

subsection \<open>Lemmas: locks\<close>

lemma resolve_no_faults:
  "resolveConsumerName no_faults n d = (insert_name n d, Ok (the (name_id n (insert_name n d))))"
  "resolveConsumerNameInTx no_faults n d = (insert_name n d, Ok (the (name_id n (insert_name n d))))"
  using name_id_insert_same[of n d]
  by (auto simp: resolveConsumerName_def resolveConsumerNameInTx_def Let_def)

lemma db_update_frame [simp]:
  "stream_id a s (d\<lparr>db_locks := l\<rparr>) = stream_id a s d" "name_id n (d\<lparr>db_locks := l\<rparr>) = name_id n d"
  "stream_id a s (d\<lparr>db_positions := p\<rparr>) = stream_id a s d"
  "name_id n (d\<lparr>db_positions := p\<rparr>) = name_id n d"
  "name_of i (d\<lparr>db_positions := p\<rparr>) = name_of i d"
  "find_lock x y (d\<lparr>db_positions := p\<rparr>) = find_lock x y d"
  by (simp_all add: stream_id_def name_id_def name_of_def find_lock_def)

lemma cs_lock_row_Some:
  "cs_lock_row (app, str, c) d = Some (h, u, ttl) \<longleftrightarrow>
     (\<exists>sid cid r. stream_id app str d = Some sid \<and> name_id c d = Some cid \<and> find_lock sid cid d = Some r
        \<and> cl_holder r = h \<and> cl_held_until r = u \<and> cl_ttl r = ttl)"
  by (auto simp: cs_lock_row_def split: option.splits)

lemma find_lock_fresh: "db_ok d \<Longrightarrow> find_lock sid (db_name_seq d) d = None"
  by (auto simp: find_lock_def db_ok_def find_None_iff2)

lemma cs_lock_row_insert_name: "db_ok d \<Longrightarrow> cs_lock_row k (insert_name n d) = cs_lock_row k d"
  by (cases k) (auto simp: cs_lock_row_def name_id_insert find_lock_fresh split: option.splits)

lemma rollback_frame [simp]:
  "stream_id a s (rollback d t) = stream_id a s d" "name_id n (rollback d t) = name_id n d"
  "find_lock x y (rollback d t) = find_lock x y d" "db_positions (rollback d t) = db_positions d"
  "db_streams (rollback d t) = db_streams d" "db_locks (rollback d t) = db_locks d"
  by (simp_all add: rollback_def stream_id_def name_id_def find_lock_def)

lemma cs_lock_row_rollback [simp]: "cs_lock_row k (rollback d t) = cs_lock_row k d"
  by (cases k) (simp add: cs_lock_row_def split: option.split)

lemma known_key_cong: "db_streams d' = db_streams d \<Longrightarrow> known_key k d' = known_key k d"
  by (simp add: known_key_def stream_id_def)

lemma db_ok_rollback: "db_ok d \<Longrightarrow> db_name_seq d \<le> db_name_seq t \<Longrightarrow> db_ok (rollback d t)"
  by (fastforce simp: db_ok_def rollback_def name_id_def)

lemma upsert_lock_frame [simp]:
  "stream_id a s (fst (upsert_lock now sid cid h ttl g u t)) = stream_id a s t"
  "name_id n (fst (upsert_lock now sid cid h ttl g u t)) = name_id n t"
  "db_name_seq (fst (upsert_lock now sid cid h ttl g u t)) = db_name_seq t"
  "db_streams (fst (upsert_lock now sid cid h ttl g u t)) = db_streams t"
  "db_positions (fst (upsert_lock now sid cid h ttl g u t)) = db_positions t"
  by (auto simp: upsert_lock_def Let_def split: option.splits)

lemma find_lock_upsert:
  "find_lock sid' cid' (fst (upsert_lock now sid cid h ttl g u t)) =
     (if (sid', cid') = (sid, cid) \<and> snd (upsert_lock now sid cid h ttl g u t) \<noteq> None
      then Some \<lparr>cl_stream_id = sid, cl_consumer_id = cid, cl_holder = h, cl_acquired_at = now,
                 cl_heartbeat_at = now, cl_ttl = ttl, cl_guarantee_until = g, cl_held_until = u\<rparr>
      else find_lock sid' cid' t)"
proof (cases "find_lock sid cid t")
  case None
  then show ?thesis by (auto simp: upsert_lock_def Let_def find_lock_def find_append split: option.splits)
next
  case (Some r)
  let ?row = "\<lparr>cl_stream_id = sid, cl_consumer_id = cid, cl_holder = h, cl_acquired_at = now,
                 cl_heartbeat_at = now, cl_ttl = ttl, cl_guarantee_until = g, cl_held_until = u\<rparr>"
  let ?f = "\<lambda>x. if cl_stream_id x = sid \<and> cl_consumer_id x = cid then ?row else x"
  have "List.find (\<lambda>r. cl_stream_id r = sid' \<and> cl_consumer_id r = cid') (map ?f (db_locks t)) =
      map_option ?f (find_lock sid' cid' t)"
    unfolding find_lock_def by (rule find_map_key) auto
  moreover have "?f x = x" if "find_lock sid' cid' t = Some x" "(sid', cid') \<noteq> (sid, cid)" for x
    using that by (auto simp: find_lock_def dest!: find_SomeD)
  moreover have "cl_stream_id r = sid" "cl_consumer_id r = cid"
    using Some by (auto simp: find_lock_def dest!: find_SomeD)
  ultimately show ?thesis using Some
    by (cases "find_lock sid' cid' t") (auto simp: upsert_lock_def Let_def find_lock_def)
qed

lemma find_lock_delete_keep:
  "find_lock sid cid d = Some r \<Longrightarrow> r \<notin> set rows \<Longrightarrow> find_lock sid cid (delete_locks rows d) = Some r"
  by (simp add: find_lock_def delete_locks_def find_filter_keep)

lemma delete_locks_frame [simp]:
  "stream_id a s (delete_locks rows d) = stream_id a s d" "name_id n (delete_locks rows d) = name_id n d"
  "db_positions (delete_locks rows d) = db_positions d" "db_name_seq (delete_locks rows d) = db_name_seq d"
  "db_names (delete_locks rows d) = db_names d" "db_streams (delete_locks rows d) = db_streams d"
  by (simp_all add: delete_locks_def)

lemma expired_rows_mem:
  "r \<in> set (expired_rows now app str ex d) \<Longrightarrow>
     stream_id app str d = Some (cl_stream_id r) \<and> cl_held_until r < now \<and> cl_consumer_id r \<noteq> ex"
  by (auto simp: expired_rows_def split: option.splits dest!: in_set_takeD)

lemma db_ok_delete_locks: "db_ok d \<Longrightarrow> db_ok (delete_locks rows d)"
  by (auto simp: db_ok_def) (auto simp: delete_locks_def)

lemma db_ok_upsert_lock:
  "db_ok d \<Longrightarrow> cid < db_name_seq d \<Longrightarrow> db_ok (fst (upsert_lock now sid cid h ttl g u d))"
  by (auto simp: db_ok_def upsert_lock_def Let_def split: option.splits)

lemma upsert_lock_None: "snd (upsert_lock now sid cid h ttl g u t) = None \<Longrightarrow>
    fst (upsert_lock now sid cid h ttl g u t) = t"
  by (auto simp: upsert_lock_def Let_def split: option.splits if_splits)

lemma upsert_lock_held_iff:
  "snd (upsert_lock now sid cid h ttl g u t) = None \<longleftrightarrow>
     (\<exists>r. find_lock sid cid t = Some r \<and> now \<le> cl_held_until r \<and> cl_holder r \<noteq> h)"
  by (auto simp: upsert_lock_def Let_def split: option.splits)

lemma cs_acquire_eq:
  "cs_acquire now (app, str, c) h ttl d =
     (if ttl < LockMinimumTTL then (d, False)
      else case stream_id app str d of
             None \<Rightarrow> (rollback d (insert_name c d), False)
           | Some sid \<Rightarrow>
               (let t = insert_name c d; cid = the (name_id c t);
                    up = upsert_lock now sid cid h ttl (now + scale09 ttl) (now + ttl) t
                in if snd up = None then (t, False)
                   else (delete_locks (expired_rows now app str cid d) (fst up), True)))"
proof (cases "stream_id app str d")
  case None
  then show ?thesis
    by (simp add: cs_acquire_def cs_TryAcquire_def tryAcquireInTx_def resolve_no_faults resolveStreamID_def)
next
  case (Some sid)
  let ?t = "insert_name c d"
  let ?cid = "the (name_id c ?t)"
  let ?up = "upsert_lock now sid ?cid h ttl (now + scale09 ttl) (now + ttl) ?t"
  show ?thesis
  proof (cases "snd ?up")
    case None
    then have "?up = (?t, None)" using upsert_lock_None[OF None] by (metis prod.collapse)
    with Some show ?thesis
      by (simp add: cs_acquire_def cs_TryAcquire_def tryAcquireInTx_def resolve_no_faults
            resolveStreamID_def Let_def queryConflictHolder_def split: option.splits)
  next
    case (Some x)
    then obtain t2 where "?up = (t2, Some x)" by (metis prod.collapse)
    with \<open>stream_id app str d = Some sid\<close> show ?thesis
      by (simp add: cs_acquire_def cs_TryAcquire_def tryAcquireInTx_def resolve_no_faults
            resolveStreamID_def Let_def buildAcquiredResult_def cs_cleanExpiredLocks_def
            queryPositionInTx_def)
  qed
qed

lemma name_id_less: "db_ok d \<Longrightarrow> name_id n d = Some i \<Longrightarrow> i < db_name_seq d"
  by (auto simp: db_ok_def dest!: name_id_SomeD)

lemma store_key_separates:
  assumes "db_ok d" "stream_id a s d = Some i" "stream_id a' s' d = Some i'"
    "name_id c d = Some j" "name_id c' d = Some j'" "(a, s, c) \<noteq> (a', s', c')"
  shows "(i, j) \<noteq> (i', j')"
  using stream_id_inj[OF assms(1)] name_id_inj[OF assms(1)] assms by auto

lemma cs_acquire_ok:
  assumes "db_ok d"
  shows "db_ok (fst (cs_acquire now k h ttl d)) \<and> db_streams (fst (cs_acquire now k h ttl d)) = db_streams d"
proof -
  obtain app str c where k: "k = (app, str, c)" by (cases k)
  have ins: "db_ok (insert_name c d)" using assms by (rule db_ok_insert_name)
  obtain i where i: "name_id c (insert_name c d) = Some i" using name_id_insert_same by blast
  from name_id_less[OF ins i] ins i assms k show ?thesis
    by (auto simp: cs_acquire_eq Let_def db_ok_rollback db_ok_delete_locks db_ok_upsert_lock
             split: option.splits)
qed

lemma cs_acquire_free_row:
  assumes "db_ok d" "known_key k d" "LockMinimumTTL \<le> ttl"
    and free: "\<And>h' u d'. cs_lock_row k d = Some (h', u, d') \<Longrightarrow> u < now \<or> h' = h"
  shows "snd (cs_acquire now k h ttl d) \<and> cs_lock_row k (fst (cs_acquire now k h ttl d)) = Some (h, now + ttl, ttl)"
proof -
  obtain app str c where k: "k = (app, str, c)" by (cases k)
  with assms(2) obtain sid where sid: "stream_id app str d = Some sid" by (auto simp: known_key_def)
  let ?t = "insert_name c d"
  obtain cid where cid: "name_id c ?t = Some cid" using name_id_insert_same by blast
  let ?row = "\<lparr>cl_stream_id = sid, cl_consumer_id = cid, cl_holder = h, cl_acquired_at = now,
      cl_heartbeat_at = now, cl_ttl = ttl, cl_guarantee_until = now + scale09 ttl, cl_held_until = now + ttl\<rparr>"
  let ?up = "upsert_lock now sid cid h ttl (now + scale09 ttl) (now + ttl) ?t"
  have up: "snd ?up \<noteq> None"
  proof
    assume "snd ?up = None"
    then obtain r where r: "find_lock sid cid ?t = Some r" "now \<le> cl_held_until r" "cl_holder r \<noteq> h"
      by (auto simp: upsert_lock_held_iff)
    then have "cs_lock_row k ?t = Some (cl_holder r, cl_held_until r, cl_ttl r)"
      using k sid cid by (simp add: cs_lock_row_Some)
    with free r(2,3) show False by (force simp: cs_lock_row_insert_name[OF assms(1)])
  qed
  have "find_lock sid cid (fst ?up) = Some ?row" using up by (simp add: find_lock_upsert)
  then have "find_lock sid cid (delete_locks (expired_rows now app str cid d) (fst ?up)) = Some ?row"
    by (rule find_lock_delete_keep) (auto dest: expired_rows_mem)
  with k sid cid up assms(3) show ?thesis by (simp add: cs_acquire_eq Let_def cs_lock_row_Some)
qed

lemma cs_acquire_other_row:
  assumes "db_ok d" "j \<noteq> k" "cs_lock_row j d = Some (h', u, d')" "now \<le> u"
  shows "cs_lock_row j (fst (cs_acquire now k h ttl d)) = cs_lock_row j d"
proof -
  obtain app str c where k: "k = (app, str, c)" by (cases k)
  obtain app' str' c' where j: "j = (app', str', c')" by (cases j)
  let ?t = "insert_name c d"
  have ok: "db_ok ?t" using assms(1) by (rule db_ok_insert_name)
  from assms(3) j have "cs_lock_row (app', str', c') ?t = Some (h', u, d')"
    by (simp add: cs_lock_row_insert_name[OF assms(1)])
  then obtain sid' cid' r where r: "stream_id app' str' ?t = Some sid'" "name_id c' ?t = Some cid'"
    "find_lock sid' cid' ?t = Some r" "cl_holder r = h'" "cl_held_until r = u" "cl_ttl r = d'"
    unfolding cs_lock_row_Some by blast
  show ?thesis
  proof (cases "stream_id app str d")
    case None
    with k show ?thesis by (simp add: cs_acquire_eq)
  next
    case (Some sid)
    obtain cid where cid: "name_id c ?t = Some cid" using name_id_insert_same by blast
    have "(sid', cid') \<noteq> (sid, cid)"
      using store_key_separates[OF ok r(1) _ r(2) cid, of app str sid] Some assms(2) k j by auto
    then have "find_lock sid' cid' (fst (upsert_lock now sid cid h ttl (now + scale09 ttl) (now + ttl) ?t)) = Some r"
      using r(3) by (auto simp: find_lock_upsert)
    then have "find_lock sid' cid' (delete_locks (expired_rows now app str cid d)
        (fst (upsert_lock now sid cid h ttl (now + scale09 ttl) (now + ttl) ?t))) = Some r"
      using assms(4) r(5) by (intro find_lock_delete_keep) (auto dest: expired_rows_mem)
    then have "cs_lock_row j (delete_locks (expired_rows now app str cid d)
        (fst (upsert_lock now sid cid h ttl (now + scale09 ttl) (now + ttl) ?t))) = Some (h', u, d')"
      using r j by (simp add: cs_lock_row_Some)
    with Some cid k assms(3) show ?thesis
      by (simp add: cs_acquire_eq Let_def cs_lock_row_insert_name[OF assms(1)])
  qed
qed

text \<open>Release and heartbeat without faults.\<close>

lemma cs_release_eq:
  "cs_release now (app, str, c) h d =
     (if validateReleaseParams app str c h \<noteq> None then (d, False)
      else let d1 = insert_name c d; cid = the (name_id c d1)
           in case joined_lock app str cid d1 of
                None \<Rightarrow> (d1, False)
              | Some r \<Rightarrow>
                  (if cl_held_until r > now \<and> cl_holder r = h
                   then (d1\<lparr>db_locks := filter (\<lambda>r. \<not> (stream_id app str d1 = Some (cl_stream_id r)
                                          \<and> cl_consumer_id r = cid)) (db_locks d1)\<rparr>, True)
                   else (d1, False)))"
  by (auto simp: cs_release_def cs_Release_def resolve_no_faults queryAndValidateLock_def
        queryActiveLock_def deleteLockAndRecordMetrics_def Let_def split: option.splits)

lemma cs_release_ok:
  assumes "db_ok d"
  shows "db_ok (fst (cs_release now k h d)) \<and> db_streams (fst (cs_release now k h d)) = db_streams d"
proof -
  obtain app str c where k: "k = (app, str, c)" by (cases k)
  have "db_ok (insert_name c d)" using assms by (rule db_ok_insert_name)
  with assms k show ?thesis
    by (auto simp: cs_release_eq Let_def split: option.splits) (auto simp: db_ok_def)
qed

lemma find_lock_filter_key:
  "find_lock sid' cid' (d\<lparr>db_locks := filter (\<lambda>r. \<not> (Some sid = Some (cl_stream_id r) \<and> cl_consumer_id r = cid))
      (db_locks d)\<rparr>) = (if (sid', cid') = (sid, cid) then None else find_lock sid' cid' d)"
  by (auto simp: find_lock_def find_None_iff2 intro!: find_filter_all)

lemma cs_release_other_row:
  assumes "db_ok d" "cs_lock_row j d = Some (h', u, d')" "j \<noteq> k \<or> h' \<noteq> h"
  shows "cs_lock_row j (fst (cs_release now k h d)) = cs_lock_row j d"
proof -
  obtain app str c where k: "k = (app, str, c)" by (cases k)
  obtain app' str' c' where j: "j = (app', str', c')" by (cases j)
  let ?t = "insert_name c d"
  have ok: "db_ok ?t" using assms(1) by (rule db_ok_insert_name)
  have same: "cs_lock_row j ?t = cs_lock_row j d" by (rule cs_lock_row_insert_name[OF assms(1)])
  from assms(2) j have "cs_lock_row (app', str', c') ?t = Some (h', u, d')"
    by (simp add: cs_lock_row_insert_name[OF assms(1)])
  then obtain sid' cid' r where r: "stream_id app' str' ?t = Some sid'" "name_id c' ?t = Some cid'"
    "find_lock sid' cid' ?t = Some r" "cl_holder r = h'" "cl_held_until r = u" "cl_ttl r = d'"
    unfolding cs_lock_row_Some by blast
  obtain cid where cid: "name_id c ?t = Some cid" using name_id_insert_same by blast
  show ?thesis
  proof (cases "snd (cs_release now k h d)")
    case False
    with k same show ?thesis
      by (auto simp: cs_release_eq Let_def split: option.splits if_splits)
  next
    case True
    with k cid obtain sid r0 where sid: "stream_id app str d = Some sid" "find_lock sid cid ?t = Some r0"
      "cl_holder r0 = h"
      and eq: "fst (cs_release now k h d) = ?t\<lparr>db_locks := filter (\<lambda>r. \<not> (stream_id app str ?t = Some (cl_stream_id r)
                                          \<and> cl_consumer_id r = cid)) (db_locks ?t)\<rparr>"
      by (auto simp: cs_release_eq Let_def joined_lock_def split: option.splits if_splits)
    have ne: "(sid', cid') \<noteq> (sid, cid)"
    proof
      assume "(sid', cid') = (sid, cid)"
      with r sid have "h' = h" by auto
      with assms(3) have "j \<noteq> k" by simp
      with store_key_separates[OF ok r(1) _ r(2) cid, of app str sid] sid k j \<open>(sid', cid') = (sid, cid)\<close>
      show False by auto
    qed
    have "find_lock sid' cid' (fst (cs_release now k h d)) = Some r"
      using ne r(3) sid(1) find_lock_filter_key[of sid' cid' sid cid ?t] unfolding eq by simp
    with r j have "cs_lock_row j (fst (cs_release now k h d)) = Some (h', u, d')"
      unfolding eq by (simp add: cs_lock_row_Some)
    with assms(2) show ?thesis by simp
  qed
qed

lemma cs_release_held:
  assumes "db_ok d" "known_key k d" "h \<noteq> ''''" "cs_lock_row k d = Some (h, u, d')" "now < u"
  shows "snd (cs_release now k h d) \<and> cs_lock_row k (fst (cs_release now k h d)) = None"
proof -
  obtain app str c where k: "k = (app, str, c)" by (cases k)
  let ?t = "insert_name c d"
  from assms(4) k have "cs_lock_row (app, str, c) ?t = Some (h, u, d')"
    by (simp add: cs_lock_row_insert_name[OF assms(1)])
  then obtain sid cid r where r: "stream_id app str ?t = Some sid" "name_id c ?t = Some cid"
    "find_lock sid cid ?t = Some r" "cl_holder r = h" "cl_held_until r = u" "cl_ttl r = d'"
    unfolding cs_lock_row_Some by blast
  from assms(2,3) k have "validateReleaseParams app str c h = None"
    by (simp add: validateReleaseParams_def known_key_def)
  with r assms(5) k find_lock_filter_key[of sid cid sid cid ?t] show ?thesis
    by (simp add: cs_release_eq Let_def joined_lock_def cs_lock_row_def)
qed

lemma upsert_position_frame [simp]:
  "stream_id a s (fst (upsert_position sid c cid p t)) = stream_id a s t"
  "name_id n (fst (upsert_position sid c cid p t)) = name_id n t"
  "name_of i (fst (upsert_position sid c cid p t)) = name_of i t"
  "find_lock x y (fst (upsert_position sid c cid p t)) = find_lock x y t"
  "db_locks (fst (upsert_position sid c cid p t)) = db_locks t"
  "db_streams (fst (upsert_position sid c cid p t)) = db_streams t"
  "db_names (fst (upsert_position sid c cid p t)) = db_names t"
  "db_name_seq (fst (upsert_position sid c cid p t)) = db_name_seq t"
  by (auto simp: upsert_position_def Let_def split: option.splits)

text \<open>The view after the lock update of a heartbeat.\<close>

definition beaten :: "(duration \<Rightarrow> duration) \<Rightarrow> time \<Rightarrow> string \<Rightarrow> string \<Rightarrow> int64 \<Rightarrow> string \<Rightarrow> db \<Rightarrow> db" where
  "beaten imul now app str cid h t =
     t\<lparr>db_locks := map (\<lambda>r. if beat_matches now app str cid h t r then beat_row imul now r else r) (db_locks t)\<rparr>"

lemma beaten_frame [simp]:
  "stream_id a s (beaten imul now app str cid h t) = stream_id a s t"
  "name_id n (beaten imul now app str cid h t) = name_id n t"
  "db_positions (beaten imul now app str cid h t) = db_positions t"
  "db_streams (beaten imul now app str cid h t) = db_streams t"
  "db_name_seq (beaten imul now app str cid h t) = db_name_seq t"
  by (simp_all add: beaten_def)

lemma find_lock_beaten:
  "find_lock sid' cid' (beaten imul now app str cid h t) =
     map_option (\<lambda>r. if beat_matches now app str cid h t r then beat_row imul now r else r) (find_lock sid' cid' t)"
  unfolding find_lock_def beaten_def by (simp, rule find_map_key) (auto simp: beat_row_def)

text \<open>What a heartbeat does: nothing but registering the name, or the renewal and the position together.\<close>

lemma cs_beat_eq:
  "cs_beat imul now (app, str, c) h p d =
     (let t = insert_name c d; cid = the (name_id c t)
      in case stream_id app str d of
           None \<Rightarrow> (rollback t (beaten imul now app str cid h t), False)
         | Some sid \<Rightarrow>
             (if \<not> (\<exists>r \<in> set (db_locks d). beat_matches now app str cid h t r)
              then (rollback t (beaten imul now app str cid h t), False)
              else case upsert_position sid c cid p (beaten imul now app str cid h t) of
                     (t', True) \<Rightarrow> (t', True)
                   | (t', False) \<Rightarrow> (rollback t t', False)))"
proof (cases "stream_id app str d")
  case None
  then have "\<not> beat_matches now app str cid h (insert_name c d) r" for cid r
    by (simp add: beat_matches_def)
  with None show ?thesis
    by (simp add: cs_beat_def cs_HeartbeatWithPosition_def resolve_no_faults heartbeatWithinTx_def
          checkLockState_def updateLockHeartbeat_def Let_def beaten_def)
next
  case (Some sid)
  let ?t = "insert_name c d"
  let ?m = "beat_matches now app str (the (name_id c ?t)) h ?t"
  have len: "0 < length (filter ?m (db_locks d)) \<longleftrightarrow> (\<exists>r \<in> set (db_locks d). ?m r)"
    by (auto simp: filter_empty_conv)
  obtain t' b where up: "upsert_position sid c (the (name_id c ?t)) p
      (beaten imul now app str (the (name_id c ?t)) h ?t) = (t', b)" by fastforce
  show ?thesis
  proof (cases "\<exists>r \<in> set (db_locks d). ?m r")
    case False
    with Some len show ?thesis
      by (simp add: cs_beat_def cs_HeartbeatWithPosition_def resolve_no_faults heartbeatWithinTx_def
            checkLockState_def updateLockHeartbeat_def Let_def beaten_def)
  next
    case True
    with Some len up show ?thesis
      by (cases b) (simp_all add: cs_beat_def cs_HeartbeatWithPosition_def resolve_no_faults
            heartbeatWithinTx_def checkLockState_def updateLockHeartbeat_def updatePosition_def Let_def
            beaten_def, blast)
  qed
qed

lemma db_ok_locks_map:
  "db_ok t \<Longrightarrow> (\<And>r. cl_consumer_id (f r) = cl_consumer_id r) \<Longrightarrow> db_ok (t\<lparr>db_locks := map f (db_locks t)\<rparr>)"
  by (auto simp: db_ok_def)

lemma db_ok_beaten: "db_ok t \<Longrightarrow> db_ok (beaten imul now app str cid h t)"
  unfolding beaten_def by (rule db_ok_locks_map) (auto simp: beat_row_def)

lemma db_ok_upsert_position:
  "db_ok t \<Longrightarrow> name_id c t = Some cid \<Longrightarrow> db_ok (fst (upsert_position sid c cid p t))"
  by (auto simp: db_ok_def upsert_position_def Let_def split: option.splits)

lemma upsert_position_pair: "upsert_position sid c cid p t = (t', b) \<Longrightarrow> t' = fst (upsert_position sid c cid p t)"
  by simp

lemma cs_beat_ok:
  assumes "db_ok d"
  shows "db_ok (fst (cs_beat imul now k h p d)) \<and> db_streams (fst (cs_beat imul now k h p d)) = db_streams d"
proof -
  obtain app str c where k: "k = (app, str, c)" by (cases k)
  let ?t = "insert_name c d"
  obtain cid where cid: "name_id c ?t = Some cid" using name_id_insert_same by blast
  let ?b = "beaten imul now app str cid h ?t"
  have ok: "db_ok ?t" "db_ok ?b" using assms by (simp_all add: db_ok_insert_name db_ok_beaten)
  have up: "db_ok (fst (upsert_position sid c cid p ?b))" for sid
    using ok(2) cid by (intro db_ok_upsert_position) simp_all
  have "db_ok (rollback ?t (fst (upsert_position sid c cid p ?b)))" "db_ok (rollback ?t ?b)" for sid
    using ok(1) by (simp_all add: db_ok_rollback)
  with ok up k cid show ?thesis
    by (auto simp: cs_beat_eq Let_def dest!: upsert_position_pair split: option.splits prod.splits bool.splits)
qed

lemma cs_lock_row_upsert_position [simp]:
  "cs_lock_row j (fst (upsert_position sid c cid p t)) = cs_lock_row j t"
  by (cases j) (simp add: cs_lock_row_def split: option.split)

lemma cs_beat_cases:
  assumes "db_ok d" "name_id c (insert_name c d) = Some cid"
  shows "cs_lock_row j (fst (cs_beat imul now (app, str, c) h p d)) = cs_lock_row j d \<or>
      cs_lock_row j (fst (cs_beat imul now (app, str, c) h p d)) =
        cs_lock_row j (beaten imul now app str cid h (insert_name c d))"
proof -
  let ?b = "beaten imul now app str cid h (insert_name c d)"
  have "cs_lock_row j t' = cs_lock_row j ?b" if "upsert_position sid c cid p ?b = (t', b)" for sid t' b
    using that cs_lock_row_upsert_position[of j sid c cid p ?b] by simp
  with assms(2) cs_lock_row_insert_name[OF assms(1), of j c] show ?thesis
    by (auto simp: cs_beat_eq Let_def split: option.splits prod.splits bool.splits)
qed

lemma cs_lock_row_beaten_None: "cs_lock_row j t = None \<Longrightarrow> cs_lock_row j (beaten imul now app str cid h t) = None"
  by (cases j) (auto simp: cs_lock_row_def find_lock_beaten split: option.splits)

text \<open>The lock rows after a heartbeat: only rows that match are renewed.\<close>

lemma cs_beat_row:
  assumes "db_ok d" "j = (app', str', c')" "stream_id app' str' d = Some sid'"
    "name_id c' d = Some cid'" "find_lock sid' cid' d = Some r"
  shows "cs_lock_row j (fst (cs_beat imul now k h p d)) = cs_lock_row j d \<or>
     (j = k \<and> cl_holder r = h \<and>
      cs_lock_row j (fst (cs_beat imul now k h p d)) = Some (h, now + cl_ttl r, cl_ttl r))"
proof -
  obtain app str c where k: "k = (app, str, c)" by (cases k)
  let ?t = "insert_name c d"
  obtain cid where cid: "name_id c ?t = Some cid" using name_id_insert_same by blast
  let ?b = "beaten imul now app str cid h ?t"
  have ok: "db_ok ?t" using assms(1) by (rule db_ok_insert_name)
  have same: "cs_lock_row j ?t = cs_lock_row j d" by (rule cs_lock_row_insert_name[OF assms(1)])
  have id': "name_id c' ?t = Some cid'" using assms(4) by (rule name_id_insert_mono)
  have jrow: "cs_lock_row j ?b = (if beat_matches now app str cid h ?t r
      then Some (cl_holder r, now + cl_ttl r, cl_ttl r) else cs_lock_row j d)"
    using assms(2-5) id' by (simp add: cs_lock_row_def find_lock_beaten beat_row_def)
  have hit: "j = k \<and> cl_holder r = h" if m: "beat_matches now app str cid h ?t r"
  proof -
    from m assms(5) have "stream_id app str ?t = Some sid'" "cid' = cid" "cl_holder r = h"
      by (auto simp: beat_matches_def find_lock_def dest!: find_SomeD)
    with stream_id_inj[OF ok, of app str sid' app' str'] name_id_inj[OF ok cid, of c'] assms(2,3) id' k
    show ?thesis by auto
  qed
  from cs_beat_cases[OF assms(1) cid, of j imul now app str h p] k jrow hit show ?thesis
    by (auto split: if_splits)
qed

lemma known_key_after:
  "db_ok d \<Longrightarrow> known_key j (fst (cs_acquire now k h ttl d)) = known_key j d"
  "db_ok d \<Longrightarrow> known_key j (fst (cs_release now k h d)) = known_key j d"
  "db_ok d \<Longrightarrow> known_key j (fst (cs_beat imul now k h p d)) = known_key j d"
  using cs_acquire_ok[of d now k h ttl] cs_release_ok[of d now k h] cs_beat_ok[of d imul now k h p]
  by (simp_all add: known_key_def stream_id_def)

interpretation cs_locks: lock_service cs_acquire cs_release "cs_beat imul" cs_lock_row db_ok known_key
  "\<lambda>h. h \<noteq> ''''" for imul
proof (unfold_locales, goal_cases)
  case (1 d k h' u d' now h ttl)
  obtain app str c where k: "k = (app, str, c)" by (cases k)
  let ?t = "insert_name c d"
  from 1(3) k have "cs_lock_row (app, str, c) ?t = Some (h', u, d')"
    by (simp add: cs_lock_row_insert_name[OF 1(1)])
  then obtain sid cid r where r: "stream_id app str ?t = Some sid" "name_id c ?t = Some cid"
    "find_lock sid cid ?t = Some r" "cl_holder r = h'" "cl_held_until r = u"
    unfolding cs_lock_row_Some by blast
  with 1(4,5) have "snd (upsert_lock now sid cid h ttl (now + scale09 ttl) (now + ttl) ?t) = None"
    by (auto simp: upsert_lock_held_iff)
  with r k show ?case by (simp add: cs_acquire_eq Let_def cs_lock_row_insert_name[OF 1(1)])
next
  case (2 d k ttl now h)
  then show ?case by (intro cs_acquire_free_row) auto
next
  case (3 d j k h' u d' now h ttl)
  then show ?case by (rule cs_acquire_other_row)
next
  case (4 d j h' u d' k h now)
  then show ?case by (rule cs_release_other_row)
next
  case (5 d k h u d' now)
  then show ?case by (intro cs_release_held) auto
next
  case (6 d j k h now p)
  obtain app' str' c' where j: "j = (app', str', c')" by (cases j)
  show ?case
  proof (cases "cs_lock_row j d")
    case None
    obtain app str c where k: "k = (app, str, c)" by (cases k)
    obtain cid where cid: "name_id c (insert_name c d) = Some cid" using name_id_insert_same by blast
    from cs_beat_cases[OF 6(1) cid, of j imul now app str h p] k None
      cs_lock_row_beaten_None[of j "insert_name c d"] cs_lock_row_insert_name[OF 6(1), of j c]
    show ?thesis by auto
  next
    case (Some row)
    then obtain sid' cid' r where "stream_id app' str' d = Some sid'" "name_id c' d = Some cid'"
      "find_lock sid' cid' d = Some r" using j by (cases row) (auto simp: cs_lock_row_Some)
    from cs_beat_row[OF 6(1) j this, of imul now k h p] 6(2) Some j this show ?thesis
      by (auto simp: cs_lock_row_Some)
  qed
next
  case (7 d k h u ttl now p)
  obtain app str c where k: "k = (app, str, c)" by (cases k)
  with 7(2) obtain sid cid r where r: "stream_id app str d = Some sid" "name_id c d = Some cid"
    "find_lock sid cid d = Some r" "cl_holder r = h" "cl_held_until r = u" "cl_ttl r = ttl"
    by (auto simp: cs_lock_row_Some)
  from cs_beat_row[OF 7(1) k r(1-3), of imul now k h p] 7(2) r(4-6) show ?case by auto
qed (simp_all add: cs_acquire_ok cs_release_ok cs_beat_ok known_key_after)

subsection \<open>Lemmas: positions\<close>

text \<open>
  In a database that meets the constraints, the row that \<open>GetPosition\<close> finds is the one with the
  consumer's name in its \<open>consumer\<close> column.
\<close>

lemma position_of_consumer_iff:
  assumes "db_ok d" "r \<in> set (db_positions d)"
  shows "position_of_consumer app str c d r \<longleftrightarrow>
    stream_id app str d = Some (cp_stream_id r) \<and> cp_consumer r = c"
proof (cases "cp_consumer_id r")
  case None
  then show ?thesis by (auto simp: position_of_consumer_def position_name_def)
next
  case (Some i)
  with assms have "name_id (cp_consumer r) d = Some i" by (auto simp: db_ok_def)
  with assms(1) have "name_of i d = Some (cp_consumer r)" by (rule name_of_name_id)
  with Some show ?thesis by (auto simp: position_of_consumer_def position_name_def)
qed

lemma find_cong2: "(\<And>x. x \<in> set xs \<Longrightarrow> P x = Q x) \<Longrightarrow> List.find P xs = List.find Q xs"
  by (induction xs) auto

lemma cs_getp_eq:
  assumes "db_ok d" "stream_id app str d = Some sid"
  shows "cs_getp (app, str, c) d =
    map_option cp_event_id (List.find (\<lambda>r. cp_stream_id r = sid \<and> cp_consumer r = c) (db_positions d))"
proof -
  have "List.find (position_of_consumer app str c d) (db_positions d) =
      List.find (\<lambda>r. cp_stream_id r = sid \<and> cp_consumer r = c) (db_positions d)"
    using assms by (intro find_cong2) (auto simp: position_of_consumer_iff)
  then show ?thesis by (simp add: cs_getp_def cs_GetPosition_def split: option.split)
qed

lemma upsert_position_snd:
  "snd (upsert_position sid c cid v d) \<longleftrightarrow>
     (case map_option cp_event_id (List.find (\<lambda>r. cp_stream_id r = sid \<and> cp_consumer r = c) (db_positions d)) of
        None \<Rightarrow> True | Some q \<Rightarrow> q \<le> v)"
  by (auto simp: upsert_position_def Let_def split: option.splits)

lemma find_upsert_position:
  "List.find (\<lambda>r. cp_stream_id r = sid' \<and> cp_consumer r = c') (db_positions (fst (upsert_position sid c cid v d))) =
     (if (sid', c') = (sid, c) \<and> snd (upsert_position sid c cid v d)
      then Some \<lparr>cp_stream_id = sid, cp_consumer = c, cp_consumer_id = Some cid, cp_event_id = v\<rparr>
      else List.find (\<lambda>r. cp_stream_id r = sid' \<and> cp_consumer r = c') (db_positions d))"
proof (cases "List.find (\<lambda>r. cp_stream_id r = sid \<and> cp_consumer r = c) (db_positions d)")
  case None
  then show ?thesis by (auto simp: upsert_position_def Let_def find_append split: option.splits)
next
  case (Some r)
  let ?row = "\<lparr>cp_stream_id = sid, cp_consumer = c, cp_consumer_id = Some cid, cp_event_id = v\<rparr>"
  let ?f = "\<lambda>x. if cp_stream_id x = sid \<and> cp_consumer x = c then ?row else x"
  let ?find = "List.find (\<lambda>r. cp_stream_id r = sid' \<and> cp_consumer r = c')"
  have "?find (map ?f (db_positions d)) = map_option ?f (?find (db_positions d))"
    by (rule find_map_key) auto
  moreover have "?f x = x" if "?find (db_positions d) = Some x" "(sid', c') \<noteq> (sid, c)" for x
    using that by (auto dest!: find_SomeD)
  moreover have "cp_stream_id r = sid" "cp_consumer r = c" using Some by (auto dest!: find_SomeD)
  ultimately show ?thesis using Some
    by (cases "?find (db_positions d)") (auto simp: upsert_position_def Let_def)
qed

lemma cs_setp_eq:
  assumes "stream_id app str d = Some sid" "name_id c (insert_name c d) = Some cid"
  shows "cs_setp (app, str, c) v d = upsert_position sid c cid v (insert_name c d)"
proof (cases "upsert_position sid c cid v (insert_name c d)")
  case (Pair d2 b)
  show ?thesis
  proof (cases b)
    case True
    with Pair assms show ?thesis by (simp add: cs_setp_def cs_SetPosition_def resolve_no_faults Let_def)
  next
    case False
    with Pair upsert_position_snd[of sid c cid v "insert_name c d"] assms show ?thesis
      by (auto simp: cs_setp_def cs_SetPosition_def resolve_no_faults Let_def split: option.splits)
  qed
qed

lemma cs_setp_ok:
  assumes "db_ok d" "stream_id app str d = Some sid"
  shows "db_ok (fst (cs_setp (app, str, c) v d)) \<and> db_streams (fst (cs_setp (app, str, c) v d)) = db_streams d"
proof -
  obtain cid where cid: "name_id c (insert_name c d) = Some cid" using name_id_insert_same by blast
  have "db_ok (insert_name c d)" using assms(1) by (rule db_ok_insert_name)
  with cid show ?thesis by (simp add: cs_setp_eq[OF assms(2) cid] db_ok_upsert_position)
qed

lemma cs_getp_setp:
  assumes "db_ok d" "stream_id app str d = Some sid" "stream_id app' str' d = Some sid'"
  shows "cs_getp (app', str', c') (fst (cs_setp (app, str, c) v d)) =
    (if (app', str', c') = (app, str, c) \<and> snd (cs_setp (app, str, c) v d)
     then Some v else cs_getp (app', str', c') d)"
proof -
  obtain cid where cid: "name_id c (insert_name c d) = Some cid" using name_id_insert_same by blast
  let ?d = "fst (cs_setp (app, str, c) v d)"
  have ok: "db_ok ?d" "stream_id app' str' ?d = Some sid'"
    using cs_setp_ok[OF assms(1,2)] assms(3) by (simp_all add: stream_id_def)
  have "sid' = sid \<longleftrightarrow> app' = app \<and> str' = str" using stream_id_inj[OF assms(1)] assms(2,3) by fastforce
  with cs_getp_eq[OF ok] cs_getp_eq[OF assms(1,3)] cid show ?thesis
    by (auto simp: cs_setp_eq[OF assms(2) cid] find_upsert_position)
qed

lemma cs_setp_snd:
  assumes "db_ok d" "stream_id app str d = Some sid"
  shows "snd (cs_setp (app, str, c) v d) \<longleftrightarrow>
    (case cs_getp (app, str, c) d of None \<Rightarrow> True | Some q \<Rightarrow> q \<le> v)"
proof -
  obtain cid where cid: "name_id c (insert_name c d) = Some cid" using name_id_insert_same by blast
  show ?thesis
    by (simp add: cs_setp_eq[OF assms(2) cid] upsert_position_snd cs_getp_eq[OF assms])
qed

lemma cs_delp_matches:
  assumes "db_ok d" "r \<in> set (db_positions d)"
  shows "(cp_consumer_id r \<noteq> None \<and> cp_consumer_id r = name_id c d) \<or> (cp_consumer_id r = None \<and> cp_consumer r = c)
    \<longleftrightarrow> cp_consumer r = c"
proof (cases "cp_consumer_id r")
  case None
  then show ?thesis by simp
next
  case (Some i)
  with assms have "name_id (cp_consumer r) d = Some i" by (auto simp: db_ok_def)
  with Some name_id_inj[OF assms(1) this, of c] show ?thesis by auto
qed

lemma cs_delp_eq:
  assumes "db_ok d" "stream_id app str d = Some sid"
  shows "cs_delp (app, str, c) d =
    d\<lparr>db_positions := filter (\<lambda>r. \<not> (cp_stream_id r = sid \<and> cp_consumer r = c)) (db_positions d)\<rparr>"
proof -
  have "filter (\<lambda>r. \<not> (stream_id app str d = Some (cp_stream_id r)
               \<and> ((cp_consumer_id r \<noteq> None \<and> cp_consumer_id r = name_id c d)
                  \<or> (cp_consumer_id r = None \<and> cp_consumer r = c)))) (db_positions d)
      = filter (\<lambda>r. \<not> (cp_stream_id r = sid \<and> cp_consumer r = c)) (db_positions d)"
    using assms by (intro filter_cong refl) (simp only: cs_delp_matches option.inject, auto)
  then show ?thesis by (simp add: cs_delp_def cs_DeletePosition_def)
qed

lemma cs_delp_ok:
  "db_ok d \<Longrightarrow> stream_id app str d = Some sid \<Longrightarrow> db_ok (cs_delp (app, str, c) d)"
  by (auto simp: cs_delp_eq db_ok_def)

interpretation cs_positions: position_store cs_setp cs_getp cs_delp known_key db_ok
proof (unfold_locales, goal_cases)
  case (1 d k v)
  obtain app str c where k: "k = (app, str, c)" by (cases k)
  with 1(2) obtain sid where sid: "stream_id app str d = Some sid" by (auto simp: known_key_def)
  with 1 k have "snd (cs_setp k v d)" by (auto simp: cs_setp_snd[OF 1(1) sid] split: option.splits)
  with k cs_getp_setp[OF 1(1) sid sid, of c c v] show ?case by auto
next
  case (2 d k q v)
  obtain app str c where k: "k = (app, str, c)" by (cases k)
  with 2(2) obtain sid where sid: "stream_id app str d = Some sid" by (auto simp: known_key_def)
  with 2 k have "\<not> snd (cs_setp k v d)" by (auto simp: cs_setp_snd[OF 2(1) sid] split: option.splits)
  with k 2(3) cs_getp_setp[OF 2(1) sid sid, of c c v] show ?case by auto
next
  case (3 d k k' v)
  obtain app str c where k: "k = (app, str, c)" by (cases k)
  obtain app' str' c' where k': "k' = (app', str', c')" by (cases k')
  from 3 k k' obtain sid sid' where sid: "stream_id app str d = Some sid" "stream_id app' str' d = Some sid'"
    by (auto simp: known_key_def)
  from cs_getp_setp[OF 3(1) sid, of c' c v] 3(4) k k' show ?case by auto
next
  case (4 d k)
  obtain app str c where k: "k = (app, str, c)" by (cases k)
  with 4(2) obtain sid where sid: "stream_id app str d = Some sid" by (auto simp: known_key_def)
  from cs_delp_ok[OF 4(1) sid, of c] have "db_ok (cs_delp k d)" "stream_id app str (cs_delp k d) = Some sid"
    using sid k by (simp_all add: cs_delp_eq[OF 4(1) sid])
  from cs_getp_eq[OF this, of c] k show ?case
    by (simp add: cs_delp_eq[OF 4(1) sid] find_None_iff2)
next
  case (5 d k k')
  obtain app str c where k: "k = (app, str, c)" by (cases k)
  obtain app' str' c' where k': "k' = (app', str', c')" by (cases k')
  from 5 k k' obtain sid sid' where sid: "stream_id app str d = Some sid" "stream_id app' str' d = Some sid'"
    by (auto simp: known_key_def)
  have ne: "(sid', c') \<noteq> (sid, c)" using stream_id_inj[OF 5(1)] sid 5(4) k k' by fastforce
  from cs_delp_ok[OF 5(1) sid(1), of c] have "db_ok (cs_delp k d)" "stream_id app' str' (cs_delp k d) = Some sid'"
    using sid k by (simp_all add: cs_delp_eq[OF 5(1) sid(1)])
  from cs_getp_eq[OF this, of c'] cs_getp_eq[OF 5(1) sid(2), of c'] k k' ne show ?case
    by (auto simp: cs_delp_eq[OF 5(1) sid(1)] intro!: arg_cong[of _ _ "map_option cp_event_id"] find_filter_all)
next
  case (6 d k v)
  then show ?case by (cases k) (auto simp: known_key_def dest: cs_setp_ok)
next
  case (7 d k)
  then show ?case by (cases k) (auto simp: known_key_def dest: cs_delp_ok)
next
  case (8 d k k' v)
  obtain app str c where k: "k = (app, str, c)" by (cases k)
  with 8(2) obtain sid where "stream_id app str d = Some sid" by (auto simp: known_key_def)
  from cs_setp_ok[OF 8(1) this, of c v] k show ?case by (simp add: known_key_def stream_id_def)
next
  case (9 d k k')
  obtain app str c where k: "k = (app, str, c)" by (cases k)
  with 9(2) obtain sid where "stream_id app str d = Some sid" by (auto simp: known_key_def)
  from cs_delp_eq[OF 9(1) this, of c] k show ?case by (simp add: known_key_def)
qed

lemma tryAcquireInTx_committed:
  assumes "tryAcquireInTx fault now g1 g2 app str c h ttl (d, d) = ((x, t), r)"
  shows "x = d \<or> (\<exists>cid. x = delete_locks (expired_rows now app str cid d) d
                    \<and> (\<forall>i. name_id c d = Some i \<longrightarrow> cid = i))"
proof -
  have "\<forall>i. name_id c d = Some i \<longrightarrow> cid = i" if "resolveConsumerNameInTx fault c d = (t1, Ok cid)" for t1 cid
    using that by (auto simp: resolveConsumerNameInTx_def Let_def name_id_insert split: option.splits if_splits)
  with assms show ?thesis
    by (auto simp: tryAcquireInTx_def Let_def buildAcquiredResult_def cs_cleanExpiredLocks_def
             split: option.splits prod.splits outcome.splits)
qed

subsection \<open>Lemmas: what a heartbeat answers\<close>

text \<open>The primary key of \<open>consumer_locks\<close>.\<close>

definition locks_keyed :: "db \<Rightarrow> bool" where
  "locks_keyed d \<longleftrightarrow> distinct (map (\<lambda>r. (cl_stream_id r, cl_consumer_id r)) (db_locks d))"

text \<open>
  The abstract heartbeat: the verdict on a holder's heartbeat from the stored lock and position, an
  error or the TTL of the renewed lock.
\<close>

definition beat_verdict ::
  "time \<Rightarrow> store_key \<Rightarrow> string \<Rightarrow> int64 \<Rightarrow> (string \<times> time \<times> duration) option \<Rightarrow> int64 option \<Rightarrow> goerror + duration" where
  "beat_verdict now k h p row current =
     (case k of (app, str, c) \<Rightarrow>
        (case row of
           None \<Rightarrow> Inl (LockNotFoundError app str c h)
         | Some (h', u, ttl) \<Rightarrow>
             (if h' \<noteq> h then Inl (LockNotHeldError c h app str)
              else if u < now then Inl (LockExpiredError c app str)
              else if u = now then Inl (LockNotFoundError app str c h)
              else case current of
                     Some q \<Rightarrow> (if p < q then Inl (HeartbeatConflictError p q) else Inr ttl)
                   | None \<Rightarrow> Inr ttl)))"

lemma keyed_match:
  assumes "locks_keyed d" "find_lock sid cid d = Some r" "stream_id app str t = Some sid"
  shows "(\<exists>x \<in> set (db_locks d). beat_matches now app str cid h t x) \<longleftrightarrow> cl_holder r = h \<and> now < cl_held_until r"
proof -
  have r: "r \<in> set (db_locks d)" "cl_stream_id r = sid" "cl_consumer_id r = cid"
    using assms(2) by (auto simp: find_lock_def dest!: find_SomeD)
  have same: "x = r" if "x \<in> set (db_locks d)" "beat_matches now app str cid h t x" for x
    using distinct_map_eq[OF assms(1)[unfolded locks_keyed_def] that(1) r(1)] that(2) r assms(3)
    by (simp add: beat_matches_def)
  have "beat_matches now app str cid h t r \<longleftrightarrow> cl_holder r = h \<and> now < cl_held_until r"
    using r assms(3) by (simp add: beat_matches_def)
  then show ?thesis using same r(1) by blast
qed

lemma no_match: "find_lock sid cid d = None \<Longrightarrow> stream_id app str t = Some sid \<Longrightarrow>
    \<not> (\<exists>x \<in> set (db_locks d). beat_matches now app str cid h t x)"
  by (auto simp: find_lock_def find_None_iff2 beat_matches_def)

lemma getConflictVersion_eq:
  assumes "stream_id app str t = Some sid"
  shows "getConflictVersion no_faults app str c t =
     (case List.find (\<lambda>r. cp_stream_id r = sid \<and> cp_consumer r = c) (db_positions t) of
        None \<Rightarrow> 0 | Some r \<Rightarrow> cp_event_id r)"
proof -
  have "List.find (\<lambda>r. stream_id app str t = Some (cp_stream_id r) \<and> cp_consumer r = c) (db_positions t)
      = List.find (\<lambda>r. cp_stream_id r = sid \<and> cp_consumer r = c) (db_positions t)"
    by (rule find_cong2) (auto simp: assms)
  then show ?thesis by (simp only: getConflictVersion_def option.case)
qed

lemma heartbeat_no_lock:
  assumes "\<not> (\<exists>x \<in> set (db_locks d). beat_matches now app str (the (name_id c (insert_name c d))) h (insert_name c d) x)"
  shows "\<exists>t. cs_HeartbeatWithPosition no_faults imul now now app str c h p d =
    (rollback (insert_name c d) t, Err (JoinError [resolveLockError now
       (joined_lock app str (the (name_id c (insert_name c d))) (insert_name c d)) app str c h]))"
  using assms
  by (auto simp: cs_HeartbeatWithPosition_def resolve_no_faults heartbeatWithinTx_def checkLockState_def
      updateLockHeartbeat_def filter_empty_conv)

text \<open>
  The store's heartbeat implements the verdict: on an error nothing but the name table and the sequences
  has changed, otherwise the lock is renewed and the position stored.
\<close>

lemma heartbeat_verdict:
  assumes "db_ok d" "locks_keyed d" "stream_id app str d \<noteq> None"
  shows "case beat_verdict now (app, str, c) h p (cs_lock_row (app, str, c) d) (cs_getp (app, str, c) d) of
      Inl e \<Rightarrow> \<exists>t. cs_HeartbeatWithPosition no_faults imul now now app str c h p d =
                 (rollback (insert_name c d) t, Err (JoinError [e]))
    | Inr ttl \<Rightarrow> snd (cs_HeartbeatWithPosition no_faults imul now now app str c h p d) = Ok ()
        \<and> cs_lock_row (app, str, c) (fst (cs_HeartbeatWithPosition no_faults imul now now app str c h p d))
            = Some (h, now + ttl, ttl)
        \<and> cs_getp (app, str, c) (fst (cs_HeartbeatWithPosition no_faults imul now now app str c h p d)) = Some p"
proof -
  let ?t = "insert_name c d"
  obtain sid where sid: "stream_id app str d = Some sid" using assms(3) by blast
  obtain cid where cid: "name_id c ?t = Some cid" using name_id_insert_same by blast
  have row: "cs_lock_row (app, str, c) d = map_option (\<lambda>r. (cl_holder r, cl_held_until r, cl_ttl r)) (find_lock sid cid d)"
    using cs_lock_row_insert_name[OF assms(1), of "(app, str, c)" c] sid cid by (simp add: cs_lock_row_def)
  have joined: "joined_lock app str cid ?t = find_lock sid cid d" using sid by (simp add: joined_lock_def)
  note cur = cs_getp_eq[OF assms(1) sid, of c]
  show ?thesis
  proof (cases "find_lock sid cid d")
    case None
    with no_match[of sid cid d app str ?t now h] sid have "\<not> (\<exists>x \<in> set (db_locks d). beat_matches now app str cid h ?t x)"
      by simp
    from heartbeat_no_lock[of d now app str c h imul p] this cid joined None row show ?thesis
      by (simp add: beat_verdict_def resolveLockError_def)
  next
    case (Some r)
    note hit = keyed_match[OF assms(2) Some, of app str ?t now h]
    show ?thesis
    proof (cases "cl_holder r = h \<and> now < cl_held_until r")
      case False
      with hit sid have "\<not> (\<exists>x \<in> set (db_locks d). beat_matches now app str cid h ?t x)" by simp
      from heartbeat_no_lock[of d now app str c h imul p] this cid joined Some row False show ?thesis
        by (auto simp: beat_verdict_def resolveLockError_def)
    next
      case True
      let ?b = "beaten imul now app str cid h ?t"
      have beat: "beat_matches now app str cid h ?t r"
        using True Some sid by (auto simp: beat_matches_def find_lock_def dest!: find_SomeD)
      obtain t' b where up: "upsert_position sid c cid p ?b = (t', b)" by fastforce
      have nonempty: "filter (beat_matches now app str cid h ?t) (db_locks d) \<noteq> []"
        using hit True sid by (auto simp: filter_empty_conv)
      have eval: "cs_HeartbeatWithPosition no_faults imul now now app str c h p d =
          (if b then (t', Ok ())
           else (rollback ?t t', Err (JoinError [HeartbeatConflictError p (getConflictVersion no_faults app str c ?t)])))"
        using up sid cid nonempty
        by (simp add: cs_HeartbeatWithPosition_def resolve_no_faults heartbeatWithinTx_def checkLockState_def
            updateLockHeartbeat_def updatePosition_def beaten_def)
      have b: "b \<longleftrightarrow> (case cs_getp (app, str, c) d of None \<Rightarrow> True | Some q \<Rightarrow> q \<le> p)"
        using upsert_position_snd[of sid c cid p ?b] up cur by simp
      have t': "t' = fst (upsert_position sid c cid p ?b)" using up by simp
      have "cs_lock_row (app, str, c) t' = cs_lock_row (app, str, c) ?b" unfolding t' by simp
      also have "\<dots> = Some (h, now + cl_ttl r, cl_ttl r)"
        using sid cid Some beat True by (simp add: cs_lock_row_def find_lock_beaten beat_row_def)
      finally have locked: "cs_lock_row (app, str, c) t' = Some (h, now + cl_ttl r, cl_ttl r)" .
      have "db_ok t'" unfolding t'
        using assms(1) cid by (intro db_ok_upsert_position db_ok_beaten db_ok_insert_name) simp_all
      moreover have "stream_id app str t' = Some sid" unfolding t' using sid by simp
      ultimately have "cs_getp (app, str, c) t' = Some p" if b
        using cs_getp_eq[of t' app str sid c] find_upsert_position[of sid c sid c cid p ?b] up that
        by (simp add: t'[symmetric])
      with eval b locked row Some True cur sid show ?thesis
        by (auto simp: beat_verdict_def getConflictVersion_eq split: option.splits)
    qed
  qed
qed

subsection \<open>Properties\<close>


text \<open>
  A released Postgres lock is free at once: after the holder's \<open>Release\<close> of an unexpired lock,
  the next \<open>TryAcquire\<close> of anybody is granted.
\<close>

theorem cs_release_frees:
  assumes "db_ok d" "known_key k d" "h \<noteq> ''''" "cs_lock_row k d = Some (h, u, ttl)" "now < u"
    "LockMinimumTTL \<le> ttl'"
  shows "snd (cs_release now k h d) \<and> snd (cs_acquire now' k h' ttl' (fst (cs_release now k h d)))"
  using assms cs_release_held[of d k h u ttl now] cs_locks.release_then_acquire[of d k h u ttl now ttl' now' h']
  by blast

text \<open>
  Consumer positions in Postgres are forward-only: after any sequence of \<open>SetPosition\<close> calls of
  several consumers on existing streams, \<open>GetPosition\<close> gives each consumer the high-water mark of its
  own reports.
\<close>

theorem cs_positions_high_water:
  assumes "db_ok d" "\<forall>(k, v) \<in> set reports. known_key k d" "known_key k d"
  shows "cs_getp k (run_reports cs_setp reports d) =
           high_water (cs_getp k d) (map snd (filter (\<lambda>r. fst r = k) reports))"
  using assms by (intro cs_positions.run_sets_high_water) auto

text \<open>
  C4. \<open>HeartbeatWithPosition\<close> is atomic whatever statement of it fails: either it succeeds, and then
  the caller held the unexpired lock, the renewed lock runs for its full TTL and the position is
  stored and not behind the earlier one; or it fails, and then no lock and no position has changed.
\<close>

theorem cs_heartbeat_atomic:
  assumes "cs_HeartbeatWithPosition fault imul now gonow app str c h p d = (d', r)"
  shows "(r \<noteq> Ok () \<longrightarrow> db_locks d' = db_locks d \<and> db_positions d' = db_positions d)
    \<and> (r = Ok () \<longrightarrow>
        (\<exists>sid cid l. stream_id app str d' = Some sid \<and> name_id c d' = Some cid \<and> l \<in> set (db_locks d)
           \<and> cl_stream_id l = sid \<and> cl_consumer_id l = cid \<and> cl_holder l = h \<and> now < cl_held_until l
           \<and> beat_row imul now l \<in> set (db_locks d')
           \<and> List.find (\<lambda>x. cp_stream_id x = sid \<and> cp_consumer x = c) (db_positions d') =
               Some \<lparr>cp_stream_id = sid, cp_consumer = c, cp_consumer_id = Some cid, cp_event_id = p\<rparr>
           \<and> (\<forall>x. List.find (\<lambda>x. cp_stream_id x = sid \<and> cp_consumer x = c) (db_positions d) = Some x \<longrightarrow>
                cp_event_id x \<le> p)))"
proof -
  have res: "db_locks c1 = db_locks d \<and> db_positions c1 = db_positions d \<and>
      (\<forall>i. r1 = Ok i \<longrightarrow> name_id c c1 = Some i)" if "resolveConsumerName fault c d = (c1, r1)" for c1 r1
    using that by (auto simp: resolveConsumerName_def Let_def split: option.splits)
  obtain c1 r1 where r1: "resolveConsumerName fault c d = (c1, r1)" by fastforce
  show ?thesis
  proof (cases "r = Ok ()")
    case False
    with assms r1 res[OF r1] show ?thesis
      by (auto simp: cs_HeartbeatWithPosition_def split: outcome.splits option.splits prod.splits)
  next
    case True
    with assms r1 obtain cid where cid: "r1 = Ok cid" "name_id c c1 = Some cid"
      "heartbeatWithinTx fault imul now gonow app str c h cid p c1 c1 = (d', Ok ())"
      using res[OF r1]
      by (auto simp: cs_HeartbeatWithPosition_def split: outcome.splits option.splits prod.splits)
    let ?t = "c1\<lparr>db_locks := map (\<lambda>r. if beat_matches now app str cid h c1 r then beat_row imul now r else r)
                 (db_locks c1)\<rparr>"
    from cid(3) obtain sid where sid: "stream_id app str c1 = Some sid"
      "filter (beat_matches now app str cid h c1) (db_locks c1) \<noteq> []"
      "upsert_position sid c cid p ?t = (d', True)"
      by (auto simp: heartbeatWithinTx_def updateLockHeartbeat_def updatePosition_def Let_def
            split: outcome.splits option.splits prod.splits if_splits)
    from sid(2) obtain l where l: "l \<in> set (db_locks c1)" "beat_matches now app str cid h c1 l"
      by (auto simp: filter_empty_conv)
    have d': "d' = fst (upsert_position sid c cid p ?t)" "snd (upsert_position sid c cid p ?t)"
      using sid(3) by simp_all
    have locks: "db_locks d' = db_locks ?t" unfolding d'(1) by simp
    have "beat_row imul now l \<in> set (db_locks d')" unfolding locks using l by force
    moreover have "name_id c d' = Some cid" "stream_id app str d' = Some sid"
      unfolding d'(1) using cid(2) sid(1) by simp_all
    moreover have "List.find (\<lambda>x. cp_stream_id x = sid \<and> cp_consumer x = c) (db_positions d') =
        Some \<lparr>cp_stream_id = sid, cp_consumer = c, cp_consumer_id = Some cid, cp_event_id = p\<rparr>"
      unfolding d'(1) using d'(2) by (simp add: find_upsert_position)
    moreover have "cp_event_id x \<le> p"
      if "List.find (\<lambda>x. cp_stream_id x = sid \<and> cp_consumer x = c) (db_positions d) = Some x" for x
      using d'(2) that res[OF r1] by (simp add: upsert_position_snd)
    moreover have "cl_stream_id l = sid" "cl_consumer_id l = cid" "cl_holder l = h" "now < cl_held_until l"
      "l \<in> set (db_locks d)"
      using l sid(1) res[OF r1] by (auto simp: beat_matches_def)
    ultimately show ?thesis using True by blast
  qed
qed

text \<open>
  \<open>SetPosition\<close> on a consistent database never dereferences the nil previous position, whatever
  statement fails: a rejected report always finds the stored position it is behind.
\<close>

theorem cs_SetPosition_no_panic:
  "snd (cs_SetPosition fault app str c v d) \<noteq> Panic p"
proof -
  have "upsert_position sid c cid v x \<noteq> (y, False)"
    if "List.find (\<lambda>r. cp_stream_id r = sid \<and> cp_consumer r = c) (db_positions x) = None" for sid cid x y
    using that upsert_position_snd[of sid c cid v x] by auto
  moreover obtain x r where res: "resolveConsumerName fault c d = (x, r)" by fastforce
  then have "r \<noteq> Panic p" by (auto simp: resolveConsumerName_def Let_def split: option.splits)
  ultimately show ?thesis
    by (auto simp: cs_SetPosition_def res Let_def split: option.splits outcome.splits prod.splits bool.splits)
qed

text \<open>
  A failed \<open>TryAcquire\<close> does not touch the lock it asked for, whichever statement failed, commit
  included: the only rows that may be gone are expired locks of other consumers of the stream.
\<close>

theorem cs_TryAcquire_failure_keeps_lock:
  assumes "cs_TryAcquire fault now g1 g2 app str c h ttl d = (d', Err e)" "l \<in> set (db_locks d)"
    and "now \<le> cl_held_until l \<or> name_id c d = Some (cl_consumer_id l)"
  shows "l \<in> set (db_locks d') \<and> db_positions d' = db_positions d"
proof (cases "d' = d")
  case False
  with assms(1) obtain x t r where x: "d' = rollback x t"
    "tryAcquireInTx fault now g1 g2 app str c h ttl (d, d) = ((x, t), r)"
    by (auto simp: cs_TryAcquire_def split: if_splits option.splits prod.splits outcome.splits)
  from tryAcquireInTx_committed[OF x(2)] consider "x = d"
    | cid where "x = delete_locks (expired_rows now app str cid d) d"
        "\<And>i. name_id c d = Some i \<Longrightarrow> cid = i" by blast
  then show ?thesis
  proof cases
    case 1
    with x(1) assms(2) show ?thesis by simp
  next
    case 2
    with assms(2,3) have "l \<notin> set (expired_rows now app str cid d)" by (auto dest!: expired_rows_mem)
    with 2 x(1) assms(2) show ?thesis by (simp add: delete_locks_def)
  qed
qed (use assms(2) in simp)

text \<open>
  When the lock is held by another holder, \<open>TryAcquire\<close> answers with that holder's name but with the
  expiry the caller proposed, not with the expiry of the lock that is in its way.
\<close>

theorem cs_conflict_reports_proposed_expiry:
  assumes "db_ok d" "cs_lock_row (app, str, c) d = Some (h', u, ttl')" "now < u" "h' \<noteq> h"
    "LockMinimumTTL \<le> ttl"
  shows "\<exists>d' res. cs_TryAcquire no_faults now g1 g2 app str c h ttl d = (d', Ok (res, []))
    \<and> \<not> lr_acquired res \<and> lr_heldBy res = h' \<and> lr_heldUntil res = g2 + ttl"
proof -
  let ?t = "insert_name c d"
  from assms(2) have "cs_lock_row (app, str, c) ?t = Some (h', u, ttl')"
    by (simp add: cs_lock_row_insert_name[OF assms(1)])
  then obtain sid cid r where r: "stream_id app str ?t = Some sid" "name_id c ?t = Some cid"
    "find_lock sid cid ?t = Some r" "cl_holder r = h'" "cl_held_until r = u"
    unfolding cs_lock_row_Some by blast
  with assms(3,4) have "upsert_lock now sid cid h ttl (g1 + scale09 ttl) (g2 + ttl) ?t = (?t, None)"
    by (simp add: upsert_lock_def)
  with r assms(3,5) show ?thesis
    by (simp add: cs_TryAcquire_def tryAcquireInTx_def resolve_no_faults resolveStreamID_def Let_def
          queryConflictHolder_def)
qed

subsection \<open>Witnesses\<close>

definition demo_db :: db where
  "demo_db = empty_db\<lparr>db_streams := [\<lparr>es_id = 1, es_app = ''d'', es_stream = ''s''\<rparr>], db_stream_seq := 2,
     db_names := [\<lparr>cn_id = 1, cn_name = ''c''\<rparr>], db_name_seq := 2,
     db_locks := [\<lparr>cl_stream_id = 1, cl_consumer_id = 1, cl_holder = ''a'', cl_acquired_at = 0,
        cl_heartbeat_at = 0, cl_ttl = 30000000000, cl_guarantee_until = 27000000000,
        cl_held_until = 30000000000\<rparr>]\<rparr>"

lemma demo_db_ok: "db_ok demo_db" "known_key (''d'', ''s'', ''c'') demo_db"
  "cs_lock_row (''d'', ''s'', ''c'') demo_db = Some (''a'', 30000000000, 30000000000)"
  by (simp_all add: demo_db_def empty_db_def db_ok_def known_key_def cs_lock_row_def stream_id_def
        name_id_def find_lock_def)

lemma min_ttl_cs: "LockMinimumTTL \<le> 30000000000"
  by (simp add: LockMinimumTTL_def second_def)


theorem cs_release_frees_witness:
  "snd (cs_acquire 10000000000 (''d'', ''s'', ''c'') ''b'' 30000000000
     (fst (cs_release 10000000000 (''d'', ''s'', ''c'') ''a'' demo_db)))"
  using cs_release_frees[OF demo_db_ok(1,2) _ demo_db_ok(3) _ min_ttl_cs, of 10000000000 10000000000 "''b''"]
  by simp

theorem cs_positions_high_water_witness:
  "cs_getp (''d'', ''s'', ''c'')
     (run_reports cs_setp [((''d'', ''s'', ''c''), 4), ((''d'', ''s'', ''c''), 2)] demo_db) =
   high_water (cs_getp (''d'', ''s'', ''c'') demo_db) [4, 2]"
  by (subst cs_positions_high_water[OF demo_db_ok(1)]) (use demo_db_ok(2) in simp_all)

theorem cs_heartbeat_atomic_witness:
  "db_locks (fst (cs_HeartbeatWithPosition no_faults scale09 40000000000 40000000000 ''d'' ''s'' ''c'' ''a'' 5 demo_db))
     = db_locks demo_db"
proof -
  have "snd (cs_HeartbeatWithPosition no_faults scale09 40000000000 40000000000 ''d'' ''s'' ''c'' ''a'' 5 demo_db)
      \<noteq> Ok ()"
    by (simp add: cs_HeartbeatWithPosition_def resolve_no_faults heartbeatWithinTx_def checkLockState_def
          updateLockHeartbeat_def beat_matches_def demo_db_def empty_db_def)
  with cs_heartbeat_atomic[OF surjective_pairing] show ?thesis by blast
qed

theorem cs_TryAcquire_failure_keeps_lock_witness:
  "set (db_locks demo_db) \<subseteq>
     set (db_locks (fst (cs_TryAcquire (\<lambda>s. if s = ''advisory lock'' then Some ErrNoRows else None) 40000000000
        40000000000 40000000000 ''d'' ''s'' ''c'' ''b'' 30000000000 demo_db)))"
proof -
  let ?f = "\<lambda>s. if s = ''advisory lock'' then Some ErrNoRows else None"
  obtain d' e where t: "cs_TryAcquire ?f 40000000000 40000000000 40000000000 ''d'' ''s'' ''c'' ''b''
      30000000000 demo_db = (d', Err e)"
    by (simp add: cs_TryAcquire_def tryAcquireInTx_def LockMinimumTTL_def second_def)
  have "name_id ''c'' demo_db = Some 1" by (simp add: demo_db_def name_id_def empty_db_def)
  with cs_TryAcquire_failure_keeps_lock[OF t] t show ?thesis
    by (auto simp: demo_db_def empty_db_def)
qed

theorem cs_conflict_reports_proposed_expiry_witness:
  "\<exists>d' res. cs_TryAcquire no_faults 10000000000 10000000000 10000000000 ''d'' ''s'' ''c'' ''b'' 60000000000 demo_db
       = (d', Ok (res, [])) \<and> lr_heldUntil res = 70000000000"
  using cs_conflict_reports_proposed_expiry[OF demo_db_ok(1,3), of 10000000000 "''b''" 60000000000
      10000000000 10000000000]
  by (auto simp: LockMinimumTTL_def second_def)



end
