(* ===== verification/LockService.thy ===== *)
theory LockService
  imports ConsumerStore
begin

text \<open>
  The lock service of the gRPC server, \<open>src/internal/service/grpcConsumerLocks.go\<close>, over the
  Postgres store, with the release events of \<open>src/internal/service/bus.go\<close>.

  \<^item> \<open>lock_server\<close> is what the handlers share: the database and the release events whose dispatch was
    started with \<open>go\<close> and has not been emitted yet.
  \<^item> \<open>lock_env\<close> is what a handler meets of its surroundings while it serves one message: failing
    statements, the clocks of the database and of the service, the product of an interval, and the error
    with which a \<open>Send\<close> fails, if it does.
  \<^item> A handler that blocks in a \<open>select\<close> is driven by a schedule: the items say what other handlers did
    to the shared state, which release event the bus delivers, and which case of the select is taken.
    A case whose channel is empty cannot be taken; the item then does nothing. An exhausted schedule
    leaves the handler blocked (\<open>None\<close>).
\<close>

record lock_env =
  le_fault :: faults
  le_imul :: "duration \<Rightarrow> duration"
  le_now :: time
  le_g1 :: time
  le_g2 :: time
  le_gonow :: time
  le_send :: "goerror option"

record lock_server =
  sv_db :: db
  sv_spawned :: "LockReleasedEvent list"

definition dispatchOnLockReleased :: "LockReleasedEvent list \<Rightarrow> lock_server \<Rightarrow> lock_server" where
  "dispatchOnLockReleased evs sv = sv\<lparr>sv_spawned := sv_spawned sv @ evs\<rparr>"

text \<open>
  \<open>errors.As\<close> meets the error itself and then what it wraps, joined errors from the left: the errors met,
  in that order.
\<close>

fun error_chain :: "goerror \<Rightarrow> goerror list" where
  "error_chain (OperationError op e) = OperationError op e # error_chain e"
| "error_chain (RecoverableError e) = RecoverableError e # error_chain e"
| "error_chain (JoinError es) = JoinError es # concat (map error_chain es)"
| "error_chain (TransportError e) = TransportError e # error_chain e"
| "error_chain e = [e]"

subsection \<open>Acquiring and releasing\<close>

text \<open>\<open>TtlSeconds\<close> is an \<open>int32\<close>, so the product with a second stays within a \<open>time.Duration\<close>.\<close>

definition ttl_of_seconds :: "int \<Rightarrow> duration" where
  "ttl_of_seconds s = s * second"

definition acquireLock ::
  "lock_env \<Rightarrow> string \<Rightarrow> string \<Rightarrow> string \<Rightarrow> string \<Rightarrow> duration \<Rightarrow> lock_server \<Rightarrow> lock_server \<times> LockResult outcome" where
  "acquireLock env domain stream consumer holder ttl sv =
     (case cs_TryAcquire (le_fault env) (le_now env) (le_g1 env) (le_g2 env) domain stream consumer holder ttl
             (sv_db sv) of
        (d, Err e) \<Rightarrow> (sv\<lparr>sv_db := d\<rparr>, Err e)
      | (d, Panic p) \<Rightarrow> (sv\<lparr>sv_db := d\<rparr>, Panic p)
      | (d, Ok (result, expiredLocks)) \<Rightarrow>
          (dispatchOnLockReleased expiredLocks (sv\<lparr>sv_db := d\<rparr>), Ok result))"

text \<open>The reply has the fields of the result.\<close>

definition g_TryAcquire ::
  "lock_env \<Rightarrow> string \<Rightarrow> string \<Rightarrow> string \<Rightarrow> string \<Rightarrow> int \<Rightarrow> lock_server \<Rightarrow> lock_server \<times> LockResult outcome" where
  "g_TryAcquire env domain stream consumer holder ttlSeconds sv =
     (case cs_TryAcquire (le_fault env) (le_now env) (le_g1 env) (le_g2 env) domain stream consumer holder
             (ttl_of_seconds ttlSeconds) (sv_db sv) of
        (d, Err e) \<Rightarrow> (sv\<lparr>sv_db := d\<rparr>, Err e)
      | (d, Panic p) \<Rightarrow> (sv\<lparr>sv_db := d\<rparr>, Panic p)
      | (d, Ok (result, expiredLocks)) \<Rightarrow>
          (dispatchOnLockReleased expiredLocks (sv\<lparr>sv_db := d\<rparr>), Ok result))"

definition g_Release ::
  "lock_env \<Rightarrow> string \<Rightarrow> string \<Rightarrow> string \<Rightarrow> string \<Rightarrow> lock_server \<Rightarrow> lock_server \<times> bool outcome" where
  "g_Release env domain stream consumer holder sv =
     (case cs_Release (le_fault env) (le_now env) domain stream consumer holder (sv_db sv) of
        (d, Err e) \<Rightarrow> (sv\<lparr>sv_db := d\<rparr>, Err e)
      | (d, Panic p) \<Rightarrow> (sv\<lparr>sv_db := d\<rparr>, Panic p)
      | (d, Ok released) \<Rightarrow>
          (dispatchOnLockReleased (case released of None \<Rightarrow> [] | Some ev \<Rightarrow> [ev]) (sv\<lparr>sv_db := d\<rparr>), Ok True))"

text \<open>
  \<open>ListLocks\<close> reports the TTL in whole seconds. TTLs enter the store as whole seconds (\<open>TtlSeconds\<close>),
  where the conversion through a double is exact.
\<close>

definition seconds_of :: "duration \<Rightarrow> int" where
  "seconds_of d = sgn d * (\<bar>d\<bar> div second)"

definition g_ListLocks ::
  "lock_env \<Rightarrow> string \<Rightarrow> string \<Rightarrow> lock_server \<Rightarrow> LockState list outcome" where
  "g_ListLocks env domain stream sv =
     (case cs_ListLocks (le_fault env) (le_now env) domain stream (sv_db sv) of
        Err e \<Rightarrow> Err e
      | Panic p \<Rightarrow> Panic p
      | Ok locks \<Rightarrow> Ok (map (\<lambda>l. l\<lparr>lk_ttl := seconds_of (lk_ttl l)\<rparr>) locks))"

subsection \<open>The KeepAlive stream\<close>

datatype LockStatusReason = UNSPECIFIED | RENEWED | EXPIRED | STOLEN | CONFLICT

text \<open>A message whose \<open>Events\<close> field is missing has \<open>None\<close> there; reading through it panics.\<close>

record KeepAliveHeartbeat =
  hb_events :: "(string \<times> string) option"
  hb_consumer :: string
  hb_holder :: string
  hb_position :: int64

datatype KeepAliveClientMessage =
    Bind string string string string
      \<comment> \<open>domain, stream, consumer, holder\<close>
  | Heartbeat KeepAliveHeartbeat
  | ReleaseRequest
  | OtherMessage

datatype KeepAliveServerMessage =
    LockStatus bool LockStatusReason "int64 option" "int64 option"
      \<comment> \<open>locked, reason, target version, current version\<close>
  | ReleaseAck bool
  | LockLost string

record keepAliveStream =
  ka_domain :: string
  ka_streamName :: string
  ka_consumer :: string
  ka_holder :: string
  ka_subscribed :: bool
  ka_lockLostCh :: "LockReleasedEvent option"

definition newKeepAliveStream :: keepAliveStream where
  "newKeepAliveStream = \<lparr>ka_domain = '''', ka_streamName = '''', ka_consumer = '''', ka_holder = '''',
     ka_subscribed = False, ka_lockLostCh = None\<rparr>"

text \<open>The state a stream handler works on: the shared server, its own fields, and what it has sent.\<close>

record ka_world =
  kw_server :: lock_server
  kw_stream :: keepAliveStream
  kw_sent :: "KeepAliveServerMessage list"

definition ka_send :: "lock_env \<Rightarrow> KeepAliveServerMessage \<Rightarrow> ka_world \<Rightarrow> ka_world \<times> unit outcome" where
  "ka_send env m w =
     (case le_send env of
        Some e \<Rightarrow> (w, Err e)
      | None \<Rightarrow> (w\<lparr>kw_sent := kw_sent w @ [m]\<rparr>, Ok ()))"

definition set_db :: "db \<Rightarrow> ka_world \<Rightarrow> ka_world" where
  "set_db d w = w\<lparr>kw_server := (kw_server w)\<lparr>sv_db := d\<rparr>\<rparr>"

definition bindHolder ::
  "lock_env \<Rightarrow> string \<Rightarrow> string \<Rightarrow> string \<Rightarrow> string \<Rightarrow> ka_world \<Rightarrow> ka_world \<times> bool outcome" where
  "bindHolder env domain stream consumer holder w =
     (case cs_GetLock (le_fault env) (le_gonow env) domain stream consumer (sv_db (kw_server w)) of
        (d, Err e) \<Rightarrow> (set_db d w, Err e)
      | (d, Panic p) \<Rightarrow> (set_db d w, Panic p)
      | (d, Ok found) \<Rightarrow>
          (let answer = (\<lambda>reason. case ka_send env (LockStatus False reason None None) (set_db d w) of
                 (w', Ok _) \<Rightarrow> (w', Ok False)
               | (w', Err e) \<Rightarrow> (w', Err e)
               | (w', Panic p) \<Rightarrow> (w', Panic p))
           in case found of
                None \<Rightarrow> answer EXPIRED
              | Some lockState \<Rightarrow>
                  (if lk_holder lockState \<noteq> holder then answer STOLEN else (set_db d w, Ok True))))"

definition subscribeToLockReleased :: "ka_world \<Rightarrow> ka_world" where
  "subscribeToLockReleased w = w\<lparr>kw_stream := (kw_stream w)\<lparr>ka_subscribed := True\<rparr>\<rparr>"

text \<open>The listener of a subscribed stream: only events of the bound lock and holder, into a channel of capacity one.\<close>

definition ka_listener :: "LockReleasedEvent \<Rightarrow> ka_world \<Rightarrow> ka_world" where
  "ka_listener evt w =
     (let k = kw_stream w
      in if ka_subscribed k \<and> ev_domain evt = ka_domain k \<and> ev_stream evt = ka_streamName k
            \<and> ev_consumer evt = ka_consumer k \<and> ev_holder evt = ka_holder k \<and> ka_lockLostCh k = None
         then w\<lparr>kw_stream := k\<lparr>ka_lockLostCh := Some evt\<rparr>\<rparr> else w)"

definition sendLocked :: "lock_env \<Rightarrow> ka_world \<Rightarrow> ka_world \<times> unit outcome" where
  "sendLocked env w = ka_send env (LockStatus True UNSPECIFIED None None) w"

text \<open>\<open>True\<close>: the lock is not held and the stream closes.\<close>

definition ka_bind ::
  "lock_env \<Rightarrow> string \<Rightarrow> string \<Rightarrow> string \<Rightarrow> string \<Rightarrow> ka_world \<Rightarrow> ka_world \<times> bool outcome" where
  "ka_bind env domain stream consumer holder w =
     (if domain = '''' \<or> stream = '''' \<or> consumer = '''' \<or> holder = ''''
      then (w, Err (StatusError ''InvalidArgument'' ''bind message must include domain, stream, consumer, and holder''))
      else
        (let w1 = w\<lparr>kw_stream := (kw_stream w)\<lparr>ka_domain := domain, ka_streamName := stream,
                       ka_consumer := consumer, ka_holder := holder\<rparr>\<rparr>
         in case bindHolder env domain stream consumer holder w1 of
              (w2, Err e) \<Rightarrow> (w2, Err e)
            | (w2, Panic p) \<Rightarrow> (w2, Panic p)
            | (w2, Ok False) \<Rightarrow> (w2, Ok True)
            | (w2, Ok True) \<Rightarrow>
                (case sendLocked env (subscribeToLockReleased w2) of
                   (w3, Ok _) \<Rightarrow> (w3, Ok False)
                 | (w3, Err e) \<Rightarrow> (w3, Err e)
                 | (w3, Panic p) \<Rightarrow> (w3, Panic p))))"

definition notifyLockLost :: "lock_env \<Rightarrow> ka_world \<Rightarrow> ka_world \<times> unit outcome" where
  "notifyLockLost env w = ka_send env (LockLost ''released'') w"

text \<open>What the select of \<open>receive\<close> takes.\<close>

datatype ka_select = SelLockLost | SelMessage KeepAliveClientMessage | SelRecvError goerror | SelIdle

text \<open>
  \<open>receive\<close>: the message, \<open>Ok None\<close> when the stream should close normally. \<open>handleRecvError\<close> counts an
  end of the stream and returns the error as it is. \<open>None\<close>: the select stays blocked.
\<close>

definition handleRecvError :: "goerror \<Rightarrow> goerror" where
  "handleRecvError e = e"

definition receive ::
  "lock_env \<Rightarrow> ka_select \<Rightarrow> ka_world \<Rightarrow> (ka_world \<times> KeepAliveClientMessage option outcome) option" where
  "receive env sel w =
     (case sel of
        SelLockLost \<Rightarrow>
          (case ka_lockLostCh (kw_stream w) of
             None \<Rightarrow> None
           | Some evt \<Rightarrow>
               (case notifyLockLost env (w\<lparr>kw_stream := (kw_stream w)\<lparr>ka_lockLostCh := None\<rparr>\<rparr>) of
                  (w', Ok _) \<Rightarrow> Some (w', Ok None)
                | (w', Err e) \<Rightarrow> Some (w', Err e)
                | (w', Panic p) \<Rightarrow> Some (w', Panic p)))
      | SelMessage m \<Rightarrow> Some (w, Ok (Some m))
      | SelRecvError e \<Rightarrow> Some (w, Err (handleRecvError e))
      | SelIdle \<Rightarrow> Some (w, Ok None))"

definition handleReleaseRequest ::
  "lock_env \<Rightarrow> string \<Rightarrow> string \<Rightarrow> string \<Rightarrow> string \<Rightarrow> ka_world \<Rightarrow> ka_world \<times> unit outcome" where
  "handleReleaseRequest env domain stream consumer holder w =
     (if domain = '''' \<or> stream = '''' \<or> consumer = '''' \<or> holder = '''' then ka_send env (ReleaseAck False) w
      else case cs_Release (le_fault env) (le_now env) domain stream consumer holder (sv_db (kw_server w)) of
             (d, Err e) \<Rightarrow> (set_db d w, Err e)
           | (d, Panic p) \<Rightarrow> (set_db d w, Panic p)
           | (d, Ok released) \<Rightarrow>
               (let w1 = set_db d w
                in ka_send env (ReleaseAck True)
                     (w1\<lparr>kw_server := dispatchOnLockReleased (case released of None \<Rightarrow> [] | Some ev \<Rightarrow> [ev])
                            (kw_server w1)\<rparr>)))"

text \<open>The four \<open>errors.As\<close> tests, in the order of the code; any other error ends the stream.\<close>

fun as_conflict :: "goerror \<Rightarrow> (int64 \<times> int64) option" where
  "as_conflict (HeartbeatConflictError t c) = Some (t, c)"
| "as_conflict e = None"

fun is_lock_expired :: "goerror \<Rightarrow> bool" where
  "is_lock_expired (LockExpiredError c d s) = True"
| "is_lock_expired e = False"

fun is_lock_not_found :: "goerror \<Rightarrow> bool" where
  "is_lock_not_found (LockNotFoundError d s c h) = True"
| "is_lock_not_found e = False"

fun is_lock_not_held :: "goerror \<Rightarrow> bool" where
  "is_lock_not_held (LockNotHeldError c h d s) = True"
| "is_lock_not_held e = False"

definition translateHeartbeatError :: "lock_env \<Rightarrow> goerror \<Rightarrow> ka_world \<Rightarrow> ka_world \<times> unit outcome" where
  "translateHeartbeatError env err w =
     (case List.map_filter as_conflict (error_chain err) of
        (target, current) # _ \<Rightarrow> ka_send env (LockStatus False CONFLICT (Some target) (Some current)) w
      | [] \<Rightarrow>
          (if list_ex is_lock_expired (error_chain err) then ka_send env (LockStatus False EXPIRED None None) w
           else if list_ex is_lock_not_found (error_chain err) then ka_send env (LockStatus False EXPIRED None None) w
           else if list_ex is_lock_not_held (error_chain err) then ka_send env (LockStatus False STOLEN None None) w
           else (w, Err err)))"

definition processHeartbeat ::
  "lock_env \<Rightarrow> string \<Rightarrow> string \<Rightarrow> KeepAliveHeartbeat \<Rightarrow> string \<Rightarrow> ka_world \<Rightarrow> ka_world \<times> unit outcome" where
  "processHeartbeat env domain stream hb boundHolder w =
     (if hb_holder hb \<noteq> boundHolder then ka_send env (LockStatus False STOLEN None None) w
      else case cs_HeartbeatWithPosition (le_fault env) (le_imul env) (le_now env) (le_gonow env) domain stream
                  (hb_consumer hb) (hb_holder hb) (hb_position hb) (sv_db (kw_server w)) of
             (d, Err e) \<Rightarrow> translateHeartbeatError env e (set_db d w)
           | (d, Panic p) \<Rightarrow> (set_db d w, Panic p)
           | (d, Ok _) \<Rightarrow> ka_send env (LockStatus True RENEWED None None) (set_db d w))"

definition handleHeartbeat :: "lock_env \<Rightarrow> KeepAliveHeartbeat \<Rightarrow> ka_world \<Rightarrow> ka_world \<times> unit outcome" where
  "handleHeartbeat env hb w =
     (let k = kw_stream w
      in case hb_events hb of
           None \<Rightarrow> (w, Panic ''nil pointer dereference'')
         | Some (domain, stream) \<Rightarrow>
             (if domain \<noteq> ka_domain k \<or> stream \<noteq> ka_streamName k \<or> hb_consumer hb \<noteq> ka_consumer k
              then (w, Err (LockNotHeldError (ka_consumer k) (ka_holder k) (ka_domain k) (ka_streamName k)))
              else processHeartbeat env domain stream hb (ka_holder k) w))"

definition dispatchBound :: "lock_env \<Rightarrow> KeepAliveClientMessage \<Rightarrow> ka_world \<Rightarrow> ka_world \<times> unit outcome" where
  "dispatchBound env msg w =
     (let k = kw_stream w
      in case msg of
           Heartbeat hb \<Rightarrow> handleHeartbeat env hb w
         | ReleaseRequest \<Rightarrow>
             handleReleaseRequest env (ka_domain k) (ka_streamName k) (ka_consumer k) (ka_holder k) w
         | Bind _ _ _ _ \<Rightarrow>
             (w, Err (StatusError ''InvalidArgument'' (''cannot rebind: stream already bound to holder '' @ ka_holder k)))
         | OtherMessage \<Rightarrow> (w, Err (StatusError ''InvalidArgument'' ''unexpected message type on keepalive stream'')))"

text \<open>What happens around a stream handler: other handlers, the bus, and its own selects.\<close>

datatype ka_event =
    OtherHandler "lock_server \<Rightarrow> lock_server"
  | BusEmits LockReleasedEvent
  | Select lock_env ka_select

text \<open>
  \<open>awaitBind\<close> takes one message; \<open>Ok True\<close> when the stream is bound. The remaining schedule is that of
  \<open>runBound\<close>.
\<close>

definition awaitBind_message :: "lock_env \<Rightarrow> KeepAliveClientMessage \<Rightarrow> ka_world \<Rightarrow> ka_world \<times> bool outcome" where
  "awaitBind_message env msg w =
     (case msg of
        Bind domain stream consumer holder \<Rightarrow>
          (case ka_bind env domain stream consumer holder w of
             (w', Ok done) \<Rightarrow> (w', Ok (\<not> done))
           | (w', Err e) \<Rightarrow> (w', Err e)
           | (w', Panic p) \<Rightarrow> (w', Panic p))
      | Heartbeat _ \<Rightarrow> (w, Err (StatusError ''InvalidArgument'' ''heartbeat received before bind''))
      | ReleaseRequest \<Rightarrow> (w, Err (StatusError ''InvalidArgument'' ''release received before bind''))
      | OtherMessage \<Rightarrow> (w, Err (StatusError ''InvalidArgument'' ''unexpected message type on keepalive stream'')))"

fun runBound :: "ka_event list \<Rightarrow> ka_world \<Rightarrow> ka_world \<times> unit outcome option" where
  "runBound [] w = (w, None)"
| "runBound (OtherHandler f # es) w = runBound es (w\<lparr>kw_server := f (kw_server w)\<rparr>)"
| "runBound (BusEmits evt # es) w = runBound es (ka_listener evt w)"
| "runBound (Select env sel # es) w =
     (case receive env sel w of
        None \<Rightarrow> runBound es w
      | Some (w', Err e) \<Rightarrow> (w', Some (Err e))
      | Some (w', Panic p) \<Rightarrow> (w', Some (Panic p))
      | Some (w', Ok None) \<Rightarrow> (w', Some (Ok ()))
      | Some (w', Ok (Some msg)) \<Rightarrow>
          (case dispatchBound env msg w' of
             (w'', Ok _) \<Rightarrow> runBound es w''
           | (w'', Err e) \<Rightarrow> (w'', Some (Err e))
           | (w'', Panic p) \<Rightarrow> (w'', Some (Panic p))))"

fun awaitBind :: "ka_event list \<Rightarrow> ka_world \<Rightarrow> ka_world \<times> (bool outcome \<times> ka_event list) option" where
  "awaitBind [] w = (w, None)"
| "awaitBind (OtherHandler f # es) w = awaitBind es (w\<lparr>kw_server := f (kw_server w)\<rparr>)"
| "awaitBind (BusEmits evt # es) w = awaitBind es (ka_listener evt w)"
| "awaitBind (Select env sel # es) w =
     (case receive env sel w of
        None \<Rightarrow> awaitBind es w
      | Some (w', Err e) \<Rightarrow> (w', Some (Err e, es))
      | Some (w', Panic p) \<Rightarrow> (w', Some (Panic p, es))
      | Some (w', Ok None) \<Rightarrow> (w', Some (Ok False, es))
      | Some (w', Ok (Some msg)) \<Rightarrow>
          (case awaitBind_message env msg w' of (w'', r) \<Rightarrow> (w'', Some (r, es))))"

definition ka_close :: "ka_world \<Rightarrow> ka_world" where
  "ka_close w = w\<lparr>kw_stream := (kw_stream w)\<lparr>ka_subscribed := False\<rparr>\<rparr>"

text \<open>\<open>KeepAlive\<close>: the handler from its start, \<open>close\<close> deferred.\<close>

definition KeepAlive_run :: "ka_event list \<Rightarrow> lock_server \<Rightarrow> ka_world \<times> unit outcome option" where
  "KeepAlive_run es sv =
     (case awaitBind es \<lparr>kw_server = sv, kw_stream = newKeepAliveStream, kw_sent = []\<rparr> of
        (w, None) \<Rightarrow> (w, None)
      | (w, Some (Err e, _)) \<Rightarrow> (ka_close w, Some (Err e))
      | (w, Some (Panic p, _)) \<Rightarrow> (ka_close w, Some (Panic p))
      | (w, Some (Ok False, _)) \<Rightarrow> (ka_close w, Some (Ok ()))
      | (w, Some (Ok True, es')) \<Rightarrow>
          (case runBound es' w of
             (w', None) \<Rightarrow> (w', None)
           | (w', Some r) \<Rightarrow> (ka_close w', Some r)))"

subsection \<open>Waiting for a lock\<close>

record LockGranted =
  gr_position :: int64
  gr_heartbeatIntervalMs :: int64
  gr_deadlineMs :: int64

text \<open>The state of the \<open>WaitForLock\<close> handler: the shared server, its subscription, and what it sent.\<close>

record wait_world =
  ww_server :: lock_server
  ww_subscribed :: bool
  ww_releaseCh :: bool
  ww_granted :: "LockGranted list"

definition milliseconds :: "duration \<Rightarrow> int64" where
  "milliseconds d = sgn d * (\<bar>d\<bar> div 1000000)"

definition grantLock :: "lock_env \<Rightarrow> int64 \<Rightarrow> duration \<Rightarrow> wait_world \<Rightarrow> wait_world \<times> unit outcome" where
  "grantLock env position ttl w =
     (let heartbeatInterval = scale09 ttl
      in case le_send env of
           Some e \<Rightarrow> (w, Err e)
         | None \<Rightarrow>
             (w\<lparr>ww_granted := ww_granted w @ [\<lparr>gr_position = position,
                  gr_heartbeatIntervalMs = milliseconds heartbeatInterval, gr_deadlineMs = milliseconds ttl\<rparr>]\<rparr>,
              Ok ()))"

text \<open>The listener of \<open>subscribeToRelease\<close>: any release of the consumer's lock, whoever held it.\<close>

definition wait_listener :: "string \<Rightarrow> string \<Rightarrow> string \<Rightarrow> LockReleasedEvent \<Rightarrow> wait_world \<Rightarrow> wait_world" where
  "wait_listener domain stream consumer evt w =
     (if ww_subscribed w \<and> ev_domain evt = domain \<and> ev_stream evt = stream \<and> ev_consumer evt = consumer
      then w\<lparr>ww_releaseCh := True\<rparr> else w)"

datatype wait_event =
    WOther "lock_server \<Rightarrow> lock_server"
  | WEmits LockReleasedEvent
  | WCtxDone goerror
  | WReleased lock_env

text \<open>An attempt: \<open>Ok True\<close> when the lock was granted and the handler returns.\<close>

definition wait_attempt ::
  "lock_env \<Rightarrow> string \<Rightarrow> string \<Rightarrow> string \<Rightarrow> string \<Rightarrow> duration \<Rightarrow> wait_world \<Rightarrow> wait_world \<times> bool outcome" where
  "wait_attempt env domain stream consumer holder ttl w =
     (case acquireLock env domain stream consumer holder ttl (ww_server w) of
        (sv, Err e) \<Rightarrow> (w\<lparr>ww_server := sv\<rparr>, Err e)
      | (sv, Panic p) \<Rightarrow> (w\<lparr>ww_server := sv\<rparr>, Panic p)
      | (sv, Ok result) \<Rightarrow>
          (if lr_acquired result
           then (case grantLock env (lr_position result) ttl (w\<lparr>ww_server := sv\<rparr>) of
                   (w', Ok _) \<Rightarrow> (w', Ok True)
                 | (w', Err e) \<Rightarrow> (w', Err e)
                 | (w', Panic p) \<Rightarrow> (w', Panic p))
           else (w\<lparr>ww_server := sv\<rparr>, Ok False)))"

fun waitForGrant_loop ::
  "string \<Rightarrow> string \<Rightarrow> string \<Rightarrow> string \<Rightarrow> duration \<Rightarrow> wait_event list \<Rightarrow> wait_world
     \<Rightarrow> wait_world \<times> unit outcome option" where
  "waitForGrant_loop domain stream consumer holder ttl [] w = (w, None)"
| "waitForGrant_loop domain stream consumer holder ttl (WOther f # es) w =
     waitForGrant_loop domain stream consumer holder ttl es (w\<lparr>ww_server := f (ww_server w)\<rparr>)"
| "waitForGrant_loop domain stream consumer holder ttl (WEmits evt # es) w =
     waitForGrant_loop domain stream consumer holder ttl es (wait_listener domain stream consumer evt w)"
| "waitForGrant_loop domain stream consumer holder ttl (WCtxDone e # es) w = (w, Some (Err e))"
| "waitForGrant_loop domain stream consumer holder ttl (WReleased env # es) w =
     (if \<not> ww_releaseCh w then waitForGrant_loop domain stream consumer holder ttl es w
      else case wait_attempt env domain stream consumer holder ttl (w\<lparr>ww_releaseCh := False\<rparr>) of
             (w', Ok True) \<Rightarrow> (w', Some (Ok ()))
           | (w', Ok False) \<Rightarrow> waitForGrant_loop domain stream consumer holder ttl es w'
           | (w', Err e) \<Rightarrow> (w', Some (Err e))
           | (w', Panic p) \<Rightarrow> (w', Some (Panic p)))"

definition waitForGrant ::
  "string \<Rightarrow> string \<Rightarrow> string \<Rightarrow> string \<Rightarrow> duration \<Rightarrow> wait_event list \<Rightarrow> wait_world
     \<Rightarrow> wait_world \<times> unit outcome option" where
  "waitForGrant domain stream consumer holder ttl es w =
     (case waitForGrant_loop domain stream consumer holder ttl es
             (w\<lparr>ww_subscribed := True, ww_releaseCh := False\<rparr>) of
        (w', None) \<Rightarrow> (w', None)
      | (w', Some r) \<Rightarrow> (w'\<lparr>ww_subscribed := False\<rparr>, Some r))"

text \<open>
  \<open>WaitForLock\<close>: the first attempt, what other handlers do before the subscription stands (\<open>between\<close>),
  and the wait.
\<close>

definition g_WaitForLock ::
  "lock_env \<Rightarrow> (lock_server \<Rightarrow> lock_server) \<Rightarrow> string \<Rightarrow> string \<Rightarrow> string \<Rightarrow> string \<Rightarrow> int \<Rightarrow> wait_event list
     \<Rightarrow> lock_server \<Rightarrow> wait_world \<times> unit outcome option" where
  "g_WaitForLock env between domain stream consumer holder ttlSeconds es sv =
     (let ttl = ttl_of_seconds ttlSeconds
      in case wait_attempt env domain stream consumer holder ttl
                \<lparr>ww_server = sv, ww_subscribed = False, ww_releaseCh = False, ww_granted = []\<rparr> of
           (w, Err e) \<Rightarrow> (w, Some (Err e))
         | (w, Panic p) \<Rightarrow> (w, Some (Panic p))
         | (w, Ok True) \<Rightarrow> (w, Some (Ok ()))
         | (w, Ok False) \<Rightarrow>
             waitForGrant domain stream consumer holder ttl es (w\<lparr>ww_server := between (ww_server w)\<rparr>))"

subsection \<open>Specification\<close>

text \<open>An environment without failing statements in which the clocks agree.\<close>

definition steady :: "lock_env \<Rightarrow> bool" where
  "steady env \<longleftrightarrow> le_fault env = no_faults \<and> le_g1 env = le_now env \<and> le_g2 env = le_now env
     \<and> le_gonow env = le_now env"

definition ka_key :: "keepAliveStream \<Rightarrow> store_key" where
  "ka_key k = (ka_domain k, ka_streamName k, ka_consumer k)"

text \<open>The status message for a verdict on a heartbeat.\<close>

fun verdict_status :: "goerror + duration \<Rightarrow> KeepAliveServerMessage" where
  "verdict_status (Inr ttl) = LockStatus True RENEWED None None"
| "verdict_status (Inl (HeartbeatConflictError t c)) = LockStatus False CONFLICT (Some t) (Some c)"
| "verdict_status (Inl (LockNotHeldError c h d s)) = LockStatus False STOLEN None None"
| "verdict_status (Inl e) = LockStatus False EXPIRED None None"

text \<open>The events of a stream's own doing, on a store without failing statements; sends may fail.\<close>

fun own_event :: "ka_event \<Rightarrow> bool" where
  "own_event (OtherHandler f) = False"
| "own_event (BusEmits evt) = True"
| "own_event (Select env sel) = steady env"

subsection \<open>Lemmas\<close>

abbreviation wdb :: "ka_world \<Rightarrow> db" where
  "wdb w \<equiv> sv_db (kw_server w)"

lemma set_db_simps [simp]:
  "wdb (set_db d w) = d" "kw_stream (set_db d w) = kw_stream w" "kw_sent (set_db d w) = kw_sent w"
  by (simp_all add: set_db_def)

lemma ka_send_frame [simp]:
  "kw_server (fst (ka_send env m w)) = kw_server w" "kw_stream (fst (ka_send env m w)) = kw_stream w"
  by (simp_all add: ka_send_def split: option.split)

lemma ka_send_ok: "le_send env = None \<Longrightarrow> ka_send env m w = (w\<lparr>kw_sent := kw_sent w @ [m]\<rparr>, Ok ())"
  by (simp add: ka_send_def)

lemma dispatch_db [simp]: "sv_db (dispatchOnLockReleased evs sv) = sv_db sv"
  by (simp add: dispatchOnLockReleased_def)

lemma beat_verdict_errors:
  "beat_verdict now k h p row cur = Inl e \<Longrightarrow>
     (\<exists>d s c h'. e = LockNotFoundError d s c h') \<or> (\<exists>c h' d s. e = LockNotHeldError c h' d s)
     \<or> (\<exists>c d s. e = LockExpiredError c d s) \<or> (\<exists>t q. e = HeartbeatConflictError t q)"
  by (auto simp: beat_verdict_def split: prod.splits option.splits if_splits)

lemma translate_status:
  assumes "beat_verdict now k h p row cur = Inl e"
  shows "translateHeartbeatError env (JoinError [e]) w = ka_send env (verdict_status (Inl e)) w"
  using beat_verdict_errors[OF assms]
  by (auto simp: translateHeartbeatError_def List.map_filter_simps)

lemma rollback_insert_tables:
  "db_locks (rollback (insert_name c d) t) = db_locks d"
  "db_positions (rollback (insert_name c d) t) = db_positions d"
  by simp_all

text \<open>Lock rows of other keys, or of other holders, through the messages of a bound stream.\<close>

lemma release_frame:
  assumes "steady env" "db_ok d" "cs_lock_row j d = Some (h', u, ttl)" "j \<noteq> (app, str, c) \<or> h' \<noteq> h"
  shows "cs_lock_row j (fst (cs_Release (le_fault env) (le_now env) app str c h d)) = Some (h', u, ttl)
    \<and> db_ok (fst (cs_Release (le_fault env) (le_now env) app str c h d))"
proof -
  have "fst (cs_Release no_faults (le_now env) app str c h d) = fst (cs_release (le_now env) (app, str, c) h d)"
    by (auto simp: cs_release_def split: prod.splits outcome.splits option.splits)
  with cs_release_other_row[OF assms(2-4), of "le_now env"] cs_release_ok[OF assms(2), of "le_now env" "(app, str, c)" h]
    assms(1,3)
  show ?thesis by (simp add: steady_def)
qed

lemma beat_frame:
  assumes "steady env" "db_ok d" "cs_lock_row j d = Some (h', u, ttl)" "j \<noteq> (app, str, c) \<or> h' \<noteq> h"
  shows "cs_lock_row j (fst (cs_HeartbeatWithPosition (le_fault env) imul (le_now env) (le_gonow env) app str c h p d))
      = Some (h', u, ttl)
    \<and> db_ok (fst (cs_HeartbeatWithPosition (le_fault env) imul (le_now env) (le_gonow env) app str c h p d))"
proof -
  have "fst (cs_HeartbeatWithPosition no_faults imul (le_now env) (le_now env) app str c h p d)
      = fst (cs_beat imul (le_now env) (app, str, c) h p d)"
    by (simp add: cs_beat_def case_prod_beta)
  with cs_locks.beat_frame[OF assms(2), of j "(app, str, c)" h imul "le_now env" p] assms
    cs_beat_ok[OF assms(2), of imul "le_now env" "(app, str, c)" h p]
  show ?thesis by (auto simp: steady_def)
qed

lemma translate_frame [simp]:
  "kw_stream (fst (translateHeartbeatError env e w)) = kw_stream w"
  "kw_server (fst (translateHeartbeatError env e w)) = kw_server w"
  by (simp_all add: translateHeartbeatError_def split: list.split)

lemma processHeartbeat_stream: "kw_stream (fst (processHeartbeat env d s hb h w)) = kw_stream w"
  by (simp add: processHeartbeat_def split: prod.split outcome.split)

lemma handleReleaseRequest_stream: "kw_stream (fst (handleReleaseRequest env d s c h w)) = kw_stream w"
  by (simp add: handleReleaseRequest_def Let_def split: prod.split outcome.split)

lemma dispatchBound_stream: "kw_stream (fst (dispatchBound env msg w)) = kw_stream w"
  by (cases msg) (simp_all add: dispatchBound_def handleHeartbeat_def processHeartbeat_stream
      handleReleaseRequest_stream Let_def split: option.split)

lemma dispatchBound_frame:
  assumes "steady env" "db_ok (wdb w)" "cs_lock_row j (wdb w) = Some (h', u, ttl)"
    "j \<noteq> ka_key (kw_stream w) \<or> h' \<noteq> ka_holder (kw_stream w)"
  shows "cs_lock_row j (wdb (fst (dispatchBound env msg w))) = Some (h', u, ttl) \<and> db_ok (wdb (fst (dispatchBound env msg w)))"
proof (cases msg)
  case (Heartbeat hb)
  let ?k = "kw_stream w"
  obtain d r where beat: "cs_HeartbeatWithPosition (le_fault env) (le_imul env) (le_now env) (le_gonow env)
      (ka_domain ?k) (ka_streamName ?k) (ka_consumer ?k) (ka_holder ?k) (hb_position hb) (wdb w) = (d, r)" by fastforce
  with beat_frame[OF assms(1-3), of "ka_domain ?k" "ka_streamName ?k" "ka_consumer ?k" "ka_holder ?k"
      "le_imul env" "hb_position hb"] assms(4)
  have "cs_lock_row j d = Some (h', u, ttl) \<and> db_ok d" by (simp add: ka_key_def)
  with Heartbeat beat assms(2,3) show ?thesis
    by (cases r) (auto simp: dispatchBound_def handleHeartbeat_def processHeartbeat_def Let_def split: option.split)
next
  case ReleaseRequest
  then show ?thesis
    using assms release_frame[OF assms(1-3), of "ka_domain (kw_stream w)" "ka_streamName (kw_stream w)"
        "ka_consumer (kw_stream w)" "ka_holder (kw_stream w)"]
    by (auto simp: dispatchBound_def handleReleaseRequest_def ka_key_def Let_def split: prod.splits outcome.split)
qed (use assms in \<open>simp_all add: dispatchBound_def Let_def\<close>)

lemma receive_frame:
  "receive env sel w = Some (w', r) \<Longrightarrow>
     kw_server w' = kw_server w \<and> ka_key (kw_stream w') = ka_key (kw_stream w)
     \<and> ka_holder (kw_stream w') = ka_holder (kw_stream w)"
  by (auto simp: receive_def notifyLockLost_def ka_send_def ka_key_def
      split: ka_select.splits option.splits prod.splits outcome.splits)

lemma ka_listener_frame [simp]:
  "kw_server (ka_listener evt w) = kw_server w" "ka_key (kw_stream (ka_listener evt w)) = ka_key (kw_stream w)"
  "ka_holder (kw_stream (ka_listener evt w)) = ka_holder (kw_stream w)" "kw_sent (ka_listener evt w) = kw_sent w"
  by (simp_all add: ka_listener_def Let_def ka_key_def)

lemma runBound_identity:
  "ka_key (kw_stream (fst (runBound es w))) = ka_key (kw_stream w)
   \<and> ka_holder (kw_stream (fst (runBound es w))) = ka_holder (kw_stream w)"
proof (induction es arbitrary: w)
  case (Cons e es)
  show ?case
  proof (cases e)
    case (Select env sel)
    show ?thesis
    proof (cases "receive env sel w")
      case (Some x)
      obtain w' r where x: "x = (w', r)" by fastforce
      note fr = receive_frame[OF Some[unfolded x]]
      have "kw_stream w'' = kw_stream w'" if "dispatchBound env msg w' = (w'', q)" for msg w'' q
        using dispatchBound_stream[of env msg w'] that by simp
      with Select Some x fr Cons.IH show ?thesis
        by (auto split: outcome.split option.split prod.split)
    qed (use Select Cons.IH in simp)
  qed (use Cons.IH in simp_all)
qed simp

lemma runBound_frame:
  assumes "\<forall>e \<in> set es. own_event e" "db_ok (wdb w)" "cs_lock_row j (wdb w) = Some (h', u, ttl)"
    "j \<noteq> ka_key (kw_stream w) \<or> h' \<noteq> ka_holder (kw_stream w)"
  shows "cs_lock_row j (wdb (fst (runBound es w))) = Some (h', u, ttl)"
  using assms
proof (induction es arbitrary: w)
  case (Cons e es)
  show ?case
  proof (cases e)
    case (Select env sel)
    show ?thesis
    proof (cases "receive env sel w")
      case None
      with Cons Select show ?thesis by simp
    next
      case (Some x)
      obtain w' r where x: "x = (w', r)" by fastforce
      note fr = receive_frame[OF Some[unfolded x]]
      show ?thesis
      proof (cases "\<exists>msg. r = Ok (Some msg)")
        case False
        with Select Some x fr Cons.prems(3) show ?thesis by (auto split: outcome.split option.split)
      next
        case True
        then obtain msg where r: "r = Ok (Some msg)" by blast
        obtain w'' r' where d: "dispatchBound env msg w' = (w'', r')" by fastforce
        have "cs_lock_row j (wdb w'') = Some (h', u, ttl) \<and> db_ok (wdb w'')" "kw_stream w'' = kw_stream w'"
          using dispatchBound_frame[of env w' j h' u ttl msg] dispatchBound_stream[of env msg w'] Cons.prems Select fr d
          by simp_all
        with Cons.IH[of w''] Cons.prems Select Some x r d fr show ?thesis by (cases r') auto
      qed
    qed
  qed (use Cons in auto)
qed simp

lemma GetLock_frame:
  assumes "db_ok d"
  shows "cs_lock_row j (fst (cs_GetLock fault t app str c d)) = cs_lock_row j d
    \<and> db_ok (fst (cs_GetLock fault t app str c d))"
proof -
  have "fst (cs_GetLock fault t app str c d) \<in> {d, insert_name c d}"
    by (auto simp: cs_GetLock_def resolveConsumerName_def Let_def split: option.splits)
  with assms show ?thesis by (auto simp: cs_lock_row_insert_name db_ok_insert_name)
qed

lemma bindHolder_frame:
  "db_ok (wdb w) \<Longrightarrow>
     cs_lock_row j (wdb (fst (bindHolder env app str c h w))) = cs_lock_row j (wdb w)
     \<and> db_ok (wdb (fst (bindHolder env app str c h w)))
     \<and> kw_stream (fst (bindHolder env app str c h w)) = kw_stream w"
  using GetLock_frame[of "wdb w" j "le_fault env" "le_gonow env" app str c]
  by (auto simp: bindHolder_def ka_send_def Let_def split: prod.splits outcome.splits option.splits)

lemma awaitBind_message_frame:
  assumes "db_ok (wdb w)"
  shows "cs_lock_row j (wdb (fst (awaitBind_message env msg w))) = cs_lock_row j (wdb w)
    \<and> db_ok (wdb (fst (awaitBind_message env msg w)))"
proof (cases msg)
  case (Bind app str c h)
  let ?w = "w\<lparr>kw_stream := (kw_stream w)\<lparr>ka_domain := app, ka_streamName := str, ka_consumer := c, ka_holder := h\<rparr>\<rparr>"
  obtain w' r where b: "bindHolder env app str c h ?w = (w', r)" by fastforce
  with bindHolder_frame[of ?w j env app str c h] assms Bind show ?thesis
    by (auto simp: awaitBind_message_def ka_bind_def sendLocked_def ka_send_def subscribeToLockReleased_def Let_def
        split: prod.splits outcome.splits option.splits bool.splits)
qed (simp_all add: awaitBind_message_def assms)

lemma awaitBind_frame:
  assumes "\<forall>e \<in> set es. own_event e" "db_ok (wdb w)" "awaitBind es w = (w', r)"
  shows "cs_lock_row j (wdb w') = cs_lock_row j (wdb w) \<and> db_ok (wdb w')
    \<and> (\<forall>b es'. r = Some (b, es') \<longrightarrow> set es' \<subseteq> set es)"
  using assms
proof (induction es arbitrary: w)
  case (Cons e es)
  show ?case
  proof (cases e)
    case (Select env sel)
    show ?thesis
    proof (cases "receive env sel w")
      case None
      with Cons.IH[of w] Cons.prems Select show ?thesis by auto
    next
      case (Some x)
      obtain v q where x: "x = (v, q)" by fastforce
      note fr = receive_frame[OF Some[unfolded x]]
      show ?thesis
      proof (cases "\<exists>msg. q = Ok (Some msg)")
        case False
        with Select Some x fr Cons.prems(2,3) show ?thesis by (auto split: outcome.splits option.splits)
      next
        case True
        then obtain msg where q: "q = Ok (Some msg)" by blast
        with Select Some x fr Cons.prems(2,3) awaitBind_message_frame[of v j env msg] show ?thesis
          by (auto split: prod.splits)
      qed
    qed
  next
    case (BusEmits evt)
    with Cons.IH[of "ka_listener evt w"] Cons.prems show ?thesis by auto
  qed (use Cons.prems in simp)
qed simp

lemma ka_close_frame [simp]:
  "kw_server (ka_close w) = kw_server w" "ka_key (kw_stream (ka_close w)) = ka_key (kw_stream w)"
  "ka_holder (kw_stream (ka_close w)) = ka_holder (kw_stream w)"
  by (simp_all add: ka_close_def ka_key_def)

text \<open>Acquiring through the service.\<close>

lemma acquireLock_eq:
  assumes "steady env"
  shows "fst (cs_acquire (le_now env) (app, str, c) h ttl (sv_db sv)) = sv_db (fst (acquireLock env app str c h ttl sv))"
    and "snd (cs_acquire (le_now env) (app, str, c) h ttl (sv_db sv)) \<longleftrightarrow>
      (\<exists>r. snd (acquireLock env app str c h ttl sv) = Ok r \<and> lr_acquired r)"
  using assms by (auto simp: acquireLock_def cs_acquire_def steady_def split: prod.splits outcome.splits)

lemma wait_attempt_granted:
  assumes "steady env" "db_ok (sv_db (ww_server w))" "known_key (app, str, c) (sv_db (ww_server w))"
    "LockMinimumTTL \<le> ttl" "wait_attempt env app str c h ttl w = (w', Ok True)"
  shows "cs_lock_row (app, str, c) (sv_db (ww_server w')) = Some (h, le_now env + ttl, ttl)
    \<and> (\<exists>g. ww_granted w' = ww_granted w @ [g] \<and> gr_deadlineMs g = milliseconds ttl
         \<and> gr_heartbeatIntervalMs g = milliseconds (scale09 ttl))"
proof -
  obtain sv r where a: "acquireLock env app str c h ttl (ww_server w) = (sv, r)" by fastforce
  with assms(5) obtain q where q: "r = Ok q" "lr_acquired q" "ww_server w' = sv"
    "\<exists>g. ww_granted w' = ww_granted w @ [g] \<and> gr_deadlineMs g = milliseconds ttl
         \<and> gr_heartbeatIntervalMs g = milliseconds (scale09 ttl)"
    by (auto simp: wait_attempt_def grantLock_def Let_def split: outcome.splits if_splits option.splits)
  have acq: "fst (cs_acquire (le_now env) (app, str, c) h ttl (sv_db (ww_server w))) = sv_db sv"
    "snd (cs_acquire (le_now env) (app, str, c) h ttl (sv_db (ww_server w)))"
    using acquireLock_eq[OF assms(1), of app str c h ttl "ww_server w"] a q by auto
  have free: "u < le_now env \<or> h' = h" if "cs_lock_row (app, str, c) (sv_db (ww_server w)) = Some (h', u, d')" for h' u d'
    using cs_locks.acquire_held[OF assms(2,3) that, of "le_now env" h ttl] acq(2) by fastforce
  from cs_locks.acquire_free[OF assms(2,3,4) free] acq q show ?thesis by auto
qed

text \<open>What the other handlers of the service keep: the constraints of the database and its streams.\<close>

definition lawful :: "store_key \<Rightarrow> (lock_server \<Rightarrow> lock_server) \<Rightarrow> bool" where
  "lawful k f \<longleftrightarrow> (\<forall>sv. db_ok (sv_db sv) \<and> known_key k (sv_db sv) \<longrightarrow>
     db_ok (sv_db (f sv)) \<and> known_key k (sv_db (f sv)))"

fun wait_event_ok :: "store_key \<Rightarrow> wait_event \<Rightarrow> bool" where
  "wait_event_ok k (WOther f) = lawful k f"
| "wait_event_ok k (WReleased env) = steady env"
| "wait_event_ok k e = True"

lemma wait_attempt_refused:
  assumes "steady env" "wait_attempt env app str c h ttl w = (w', Ok False)"
    "db_ok (sv_db (ww_server w))" "known_key k (sv_db (ww_server w))"
  shows "db_ok (sv_db (ww_server w')) \<and> known_key k (sv_db (ww_server w')) \<and> ww_granted w' = ww_granted w"
proof -
  obtain sv r where a: "acquireLock env app str c h ttl (ww_server w) = (sv, r)" by fastforce
  with assms(2) have w': "ww_server w' = sv" "ww_granted w' = ww_granted w"
    by (auto simp: wait_attempt_def grantLock_def Let_def split: outcome.splits if_splits option.splits)
  have "sv_db sv = fst (cs_acquire (le_now env) (app, str, c) h ttl (sv_db (ww_server w)))"
    using acquireLock_eq(1)[OF assms(1), of app str c h ttl "ww_server w"] a by simp
  with w' assms(3,4) show ?thesis by (simp add: cs_acquire_ok known_key_after)
qed

lemma waitForGrant_loop_granted:
  assumes "\<forall>e \<in> set es. wait_event_ok (app, str, c) e" "db_ok (sv_db (ww_server w))"
    "known_key (app, str, c) (sv_db (ww_server w))" "LockMinimumTTL \<le> ttl" "ww_granted w = []"
    "waitForGrant_loop app str c h ttl es w = (w', Some (Ok ()))"
  shows "\<exists>env g. WReleased env \<in> set es
    \<and> cs_lock_row (app, str, c) (sv_db (ww_server w')) = Some (h, le_now env + ttl, ttl)
    \<and> ww_granted w' = [g] \<and> gr_deadlineMs g = milliseconds ttl \<and> gr_heartbeatIntervalMs g = milliseconds (scale09 ttl)"
  using assms
proof (induction es arbitrary: w)
  case (Cons e es)
  show ?case
  proof (cases e)
    case (WOther f)
    with Cons.IH[of "w\<lparr>ww_server := f (ww_server w)\<rparr>"] Cons.prems show ?thesis by (auto simp: lawful_def)
  next
    case (WEmits evt)
    with Cons.IH[of "wait_listener app str c evt w"] Cons.prems show ?thesis by (auto simp: wait_listener_def)
  next
    case (WReleased env)
    show ?thesis
    proof (cases "ww_releaseCh w")
      case False
      with WReleased Cons.IH[of w] Cons.prems show ?thesis by auto
    next
      case True
      let ?w = "w\<lparr>ww_releaseCh := False\<rparr>"
      obtain v r where a: "wait_attempt env app str c h ttl ?w = (v, r)" by fastforce
      from True a WReleased Cons.prems(6) consider "r = Ok True" "v = w'" |
        "r = Ok False" "waitForGrant_loop app str c h ttl es v = (w', Some (Ok ()))"
        by (auto split: outcome.splits bool.splits)
      then show ?thesis
      proof cases
        case 1
        with wait_attempt_granted[of env ?w app str c ttl h w'] a WReleased Cons.prems show ?thesis by auto
      next
        case 2
        with wait_attempt_refused[of env app str c h ttl ?w v "(app, str, c)"] Cons.IH[of v] a WReleased Cons.prems
        show ?thesis by auto
      qed
    qed
  qed (use Cons.prems in simp)
qed simp

lemma bound_heartbeat_answer:
  assumes "steady env" "le_send env = None" "db_ok (wdb w)" "locks_keyed (wdb w)"
    "known_key (ka_key (kw_stream w)) (wdb w)"
    "hb = \<lparr>hb_events = Some (ka_domain (kw_stream w), ka_streamName (kw_stream w)),
           hb_consumer = ka_consumer (kw_stream w), hb_holder = ka_holder (kw_stream w), hb_position = p\<rparr>"
  shows "let k = ka_key (kw_stream w); h = ka_holder (kw_stream w);
             v = beat_verdict (le_now env) k h p (cs_lock_row k (wdb w)) (cs_getp k (wdb w));
             (w', r) = dispatchBound env (Heartbeat hb) w
         in r = Ok () \<and> kw_sent w' = kw_sent w @ [verdict_status v]
          \<and> (case v of
               Inl e \<Rightarrow> db_locks (wdb w') = db_locks (wdb w) \<and> db_positions (wdb w') = db_positions (wdb w)
             | Inr ttl \<Rightarrow> cs_lock_row k (wdb w') = Some (h, le_now env + ttl, ttl) \<and> cs_getp k (wdb w') = Some p)"
proof -
  let ?k = "kw_stream w"
  let ?v = "beat_verdict (le_now env) (ka_key ?k) (ka_holder ?k) p (cs_lock_row (ka_key ?k) (wdb w)) (cs_getp (ka_key ?k) (wdb w))"
  let ?beat = "cs_HeartbeatWithPosition no_faults (le_imul env) (le_now env) (le_now env) (ka_domain ?k)
      (ka_streamName ?k) (ka_consumer ?k) (ka_holder ?k) p (wdb w)"
  have env: "le_fault env = no_faults" "le_gonow env = le_now env" using assms(1) by (simp_all add: steady_def)
  have "stream_id (ka_domain ?k) (ka_streamName ?k) (wdb w) \<noteq> None"
    using assms(5) by (simp add: known_key_def ka_key_def)
  note verdict = heartbeat_verdict[OF assms(3,4) this, where now = "le_now env" and c = "ka_consumer ?k"
      and h = "ka_holder ?k" and p = p and imul = "le_imul env", folded ka_key_def]
  have step: "dispatchBound env (Heartbeat hb) w = (case ?beat of
        (d, Err e) \<Rightarrow> translateHeartbeatError env e (set_db d w)
      | (d, Panic x) \<Rightarrow> (set_db d w, Panic x)
      | (d, Ok _) \<Rightarrow> ka_send env (LockStatus True RENEWED None None) (set_db d w))"
    using env by (simp add: assms(6) dispatchBound_def handleHeartbeat_def processHeartbeat_def Let_def)
  show ?thesis
  proof (cases ?v)
    case (Inl e)
    with verdict obtain t where "?beat = (rollback (insert_name (ka_consumer ?k) (wdb w)) t, Err (JoinError [e]))"
      by auto
    with step Inl translate_status[OF Inl] show ?thesis
      by (simp add: Let_def ka_send_ok[OF assms(2)] rollback_insert_tables)
  next
    case (Inr ttl)
    with verdict obtain d where "?beat = (d, Ok ())"
      "cs_lock_row (ka_key ?k) d = Some (ka_holder ?k, le_now env + ttl, ttl)" "cs_getp (ka_key ?k) d = Some p"
      by (cases ?beat) auto
    with step Inr show ?thesis by (simp add: Let_def ka_send_ok[OF assms(2)])
  qed
qed

subsection \<open>Properties\<close>

text \<open>
  C15. A bound \<open>KeepAlive\<close> stream answers every heartbeat of its holder with exactly one status message,
  and the message is the verdict of the lock specification on the stored lock and position: \<open>RENEWED\<close>,
  and then the lock runs for its full TTL from now and the position is stored; \<open>CONFLICT\<close> with the
  two versions when the position is behind; \<open>EXPIRED\<close> when the lock is gone or has run out; \<open>STOLEN\<close>
  when another holder has it. In the last three cases no lock and no position changes.
\<close>

theorem keepalive_heartbeat_answer:
  assumes "steady env" "le_send env = None" "db_ok (wdb w)" "locks_keyed (wdb w)"
    "known_key (ka_key (kw_stream w)) (wdb w)"
    "hb = \<lparr>hb_events = Some (ka_domain (kw_stream w), ka_streamName (kw_stream w)),
           hb_consumer = ka_consumer (kw_stream w), hb_holder = ka_holder (kw_stream w), hb_position = p\<rparr>"
  shows "let k = ka_key (kw_stream w); h = ka_holder (kw_stream w);
             v = beat_verdict (le_now env) k h p (cs_lock_row k (wdb w)) (cs_getp k (wdb w));
             (w', r) = dispatchBound env (Heartbeat hb) w
         in r = Ok () \<and> kw_sent w' = kw_sent w @ [verdict_status v]
          \<and> (case v of
               Inl e \<Rightarrow> db_locks (wdb w') = db_locks (wdb w) \<and> db_positions (wdb w') = db_positions (wdb w)
             | Inr ttl \<Rightarrow> cs_lock_row k (wdb w') = Some (h, le_now env + ttl, ttl) \<and> cs_getp k (wdb w') = Some p)"
  using assms by (rule bound_heartbeat_answer)

text \<open>
  C18. A \<open>KeepAlive\<close> stream can only touch the lock it bound: whatever messages a client sends, in any
  order and with any headers and holder names, at the end of the stream every lock that had another key
  or another holder than the ones of its bind message is as it was.
\<close>

theorem keepalive_touches_own_lock:
  assumes "KeepAlive_run es sv = (w, r)" "\<forall>e \<in> set es. own_event e" "db_ok (sv_db sv)"
    "cs_lock_row j (sv_db sv) = Some (h, u, ttl)"
    "j \<noteq> ka_key (kw_stream w) \<or> h \<noteq> ka_holder (kw_stream w)"
  shows "cs_lock_row j (wdb w) = Some (h, u, ttl)"
proof -
  let ?w = "\<lparr>kw_server = sv, kw_stream = newKeepAliveStream, kw_sent = []\<rparr>"
  obtain v q where a: "awaitBind es ?w = (v, q)" by fastforce
  have fr: "cs_lock_row j (wdb v) = Some (h, u, ttl)" "db_ok (wdb v)"
    "\<And>b es'. q = Some (b, es') \<Longrightarrow> set es' \<subseteq> set es"
    using awaitBind_frame[OF assms(2) _ a, of j] assms(3,4) by auto
  show ?thesis
  proof (cases "\<exists>es'. q = Some (Ok True, es')")
    case False
    with assms(1) a fr(1) show ?thesis
      by (auto simp: KeepAlive_run_def split: option.splits outcome.splits bool.splits)
  next
    case True
    then obtain es' where q: "q = Some (Ok True, es')" by blast
    obtain w' r' where b: "runBound es' v = (w', r')" by fastforce
    from assms(1) a q b have w: "w = w' \<or> w = ka_close w'"
      by (auto simp: KeepAlive_run_def split: option.splits)
    have own: "\<forall>e \<in> set es'. own_event e" using fr(3)[OF q] assms(2) by auto
    have same: "kw_server w = kw_server w'" "ka_key (kw_stream w) = ka_key (kw_stream w')"
      "ka_holder (kw_stream w) = ka_holder (kw_stream w')" using w by auto
    have "ka_key (kw_stream w') = ka_key (kw_stream v) \<and> ka_holder (kw_stream w') = ka_holder (kw_stream v)"
      using runBound_identity[of es' v] b by simp
    with runBound_frame[OF own fr(2,1)] assms(5) same b show ?thesis by simp
  qed
qed

text \<open>
  C19. A client whose \<open>WaitForLock\<close> is granted holds the lock, however long it waited and whatever other
  handlers did meanwhile: exactly one \<open>LockGranted\<close> is sent, and when it is sent the store has the
  lock for this holder until a full TTL after the attempt that succeeded.
\<close>

theorem wait_for_lock_granted_holds:
  assumes "g_WaitForLock env between app str c h secs es sv = (w, Some (Ok ()))"
    "steady env" "lawful (app, str, c) between" "\<forall>e \<in> set es. wait_event_ok (app, str, c) e"
    "db_ok (sv_db sv)" "known_key (app, str, c) (sv_db sv)" "LockMinimumTTL \<le> ttl_of_seconds secs"
  shows "\<exists>t g. ww_granted w = [g] \<and> gr_deadlineMs g = milliseconds (ttl_of_seconds secs)
    \<and> (t = le_now env \<or> (\<exists>env'. WReleased env' \<in> set es \<and> t = le_now env'))
    \<and> cs_lock_row (app, str, c) (sv_db (ww_server w)) = Some (h, t + ttl_of_seconds secs, ttl_of_seconds secs)"
proof -
  let ?ttl = "ttl_of_seconds secs"
  let ?w = "\<lparr>ww_server = sv, ww_subscribed = False, ww_releaseCh = False, ww_granted = []\<rparr>"
  obtain v r where a: "wait_attempt env app str c h ?ttl ?w = (v, r)" by fastforce
  show ?thesis
  proof (cases "r = Ok True")
    case True
    with a assms(1) have "v = w" by (simp add: g_WaitForLock_def Let_def)
    with wait_attempt_granted[OF assms(2) _ _ assms(7) a[unfolded True]] assms(5,6) show ?thesis by auto
  next
    case False
    with a assms(1) have r: "r = Ok False" by (auto simp: g_WaitForLock_def Let_def split: outcome.splits bool.splits)
    let ?v = "v\<lparr>ww_server := between (ww_server v), ww_subscribed := True, ww_releaseCh := False\<rparr>"
    from r a assms(1) obtain w' where w': "waitForGrant_loop app str c h ?ttl es ?v = (w', Some (Ok ()))"
      "ww_server w = ww_server w'" "ww_granted w = ww_granted w'"
      by (auto simp: g_WaitForLock_def waitForGrant_def Let_def split: prod.splits option.splits)
    from wait_attempt_refused[OF assms(2) a[unfolded r], of "(app, str, c)"] assms(3,5,6)
    have "db_ok (sv_db (ww_server ?v))" "known_key (app, str, c) (sv_db (ww_server ?v))" "ww_granted ?v = []"
      by (auto simp: lawful_def)
    from waitForGrant_loop_granted[OF assms(4) this(1,2) assms(7) this(3) w'(1)] w'(2,3) show ?thesis by auto
  qed
qed

text \<open>The schedule of a waiter that only its own selects drive: no release event reaches it.\<close>

lemma waitForGrant_idle:
  "\<not> ww_releaseCh w \<Longrightarrow> waitForGrant_loop app str c h ttl (map WReleased envs) w = (w, None)"
  by (induction envs) simp_all

lemma wait_attempt_held:
  assumes "steady env" "db_ok (sv_db (ww_server w))" "known_key (app, str, c) (sv_db (ww_server w))"
    "cs_lock_row (app, str, c) (sv_db (ww_server w)) = Some (h', u, d')" "le_now env \<le> u" "h' \<noteq> h"
    "LockMinimumTTL \<le> ttl" "wait_attempt env app str c h ttl w = (w', r)"
  shows "r = Ok False \<and> cs_lock_row j (sv_db (ww_server w')) = cs_lock_row j (sv_db (ww_server w))
    \<and> db_ok (sv_db (ww_server w')) \<and> known_key (app, str, c) (sv_db (ww_server w'))"
proof -
  obtain sv q where a: "acquireLock env app str c h ttl (ww_server w) = (sv, q)" by fastforce
  let ?d = "sv_db (ww_server w)"
  note held = cs_locks.acquire_held[OF assms(2-6), of ttl]
  have db: "sv_db sv = fst (cs_acquire (le_now env) (app, str, c) h ttl ?d)"
    using acquireLock_eq(1)[OF assms(1), of app str c h ttl "ww_server w"] a by simp
  from assms(4) obtain sid cid row where row: "stream_id app str ?d = Some sid" "name_id c ?d = Some cid"
    "find_lock sid cid ?d = Some row" "cl_holder row = h'" "cl_held_until row = u"
    unfolding cs_lock_row_Some by blast
  then have "name_id c (insert_name c ?d) = Some cid" by (simp add: name_id_insert_mono)
  with row assms(5,6) have "snd (upsert_lock (le_now env) sid cid h ttl (le_now env + scale09 ttl) (le_now env + ttl)
      (insert_name c ?d)) = None" by (auto simp: upsert_lock_held_iff)
  with row \<open>name_id c (insert_name c ?d) = Some cid\<close> assms(1,7) a
  have "\<exists>x. q = Ok x \<and> \<not> lr_acquired x"
    by (auto simp: acquireLock_def cs_TryAcquire_def tryAcquireInTx_def resolveStreamID_def resolve_no_faults
        queryConflictHolder_def queryPositionInTx_def steady_def Let_def
        split: prod.splits outcome.splits option.splits)
  with a assms(8) have "r = Ok False" "ww_server w' = sv"
    by (auto simp: wait_attempt_def)
  with held db assms(2,3) show ?thesis by (cases j) (simp add: cs_acquire_ok known_key_after)
qed

text \<open>
  \<open>WaitForLock\<close> can miss a release: the handler subscribes to releases only after its first attempt
  has failed. If the holder releases the lock in between, no later select of the handler ever wakes it:
  it stays blocked although the lock is free.
\<close>

theorem wait_for_lock_lost_wakeup:
  assumes "steady env" "steady env'" "db_ok (sv_db sv)" "known_key (app, str, c) (sv_db sv)"
    "cs_lock_row (app, str, c) (sv_db sv) = Some (h', u, d')" "le_now env \<le> u" "le_now env' < u"
    "h' \<noteq> h" "h' \<noteq> ''''" "LockMinimumTTL \<le> ttl_of_seconds secs"
  shows "let (w, r) = g_WaitForLock env (\<lambda>s. fst (g_Release env' app str c h' s)) app str c h secs
                        (map WReleased envs) sv
         in r = None \<and> cs_lock_row (app, str, c) (sv_db (ww_server w)) = None \<and> ww_granted w = []"
proof -
  let ?w = "\<lparr>ww_server = sv, ww_subscribed = False, ww_releaseCh = False, ww_granted = []\<rparr>"
  obtain v r where a: "wait_attempt env app str c h (ttl_of_seconds secs) ?w = (v, r)" by fastforce
  from wait_attempt_held[OF assms(1) _ _ _ assms(6,8,10) a] assms(3-5)
  have r: "r = Ok False" and db: "db_ok (sv_db (ww_server v))" "known_key (app, str, c) (sv_db (ww_server v))"
    and row: "cs_lock_row (app, str, c) (sv_db (ww_server v)) = Some (h', u, d')" by auto
  have granted: "ww_granted v = []"
    using wait_attempt_refused[OF assms(1) a[unfolded r], of "(app, str, c)"] assms(3,4) by simp
  have "sv_db (fst (g_Release env' app str c h' (ww_server v)))
      = fst (cs_release (le_now env') (app, str, c) h' (sv_db (ww_server v)))"
    using assms(2) by (auto simp: g_Release_def cs_release_def steady_def split: prod.splits outcome.splits option.splits)
  with cs_release_held[OF db assms(9) row assms(7)]
  have "cs_lock_row (app, str, c) (sv_db (fst (g_Release env' app str c h' (ww_server v)))) = None" by simp
  with a r granted show ?thesis by (simp add: g_WaitForLock_def waitForGrant_def waitForGrant_idle Let_def)
qed

lemma g_Release_frees:
  assumes "steady env" "db_ok (sv_db sv)" "known_key (app, str, c) (sv_db sv)"
    "cs_lock_row (app, str, c) (sv_db sv) = Some (h, u, d)" "le_now env < u" "h \<noteq> ''''"
  shows "\<exists>sv'. g_Release env app str c h sv = (sv', Ok True)
    \<and> sv_spawned sv' = sv_spawned sv @ [\<lparr>ev_domain = app, ev_stream = str, ev_consumer = c, ev_holder = h\<rparr>]
    \<and> cs_lock_row (app, str, c) (sv_db sv') = None \<and> db_ok (sv_db sv') \<and> known_key (app, str, c) (sv_db sv')"
proof -
  let ?r = "cs_release (le_now env) (app, str, c) h (sv_db sv)"
  have rel: "snd ?r" "cs_lock_row (app, str, c) (fst ?r) = None"
    using cs_release_held[OF assms(2,3,6,4,5)] by auto
  have ok: "db_ok (fst ?r)" "known_key (app, str, c) (fst ?r)"
    using assms(2,3) by (simp_all add: cs_release_ok known_key_after)
  obtain d' q where q: "cs_Release no_faults (le_now env) app str c h (sv_db sv) = (d', q)" by fastforce
  with rel(1) obtain ev where ev: "q = Ok (Some ev)" by (auto simp: cs_release_def split: outcome.splits option.splits)
  have "ev = \<lparr>ev_domain = app, ev_stream = str, ev_consumer = c, ev_holder = h\<rparr>"
    using q ev by (auto simp: cs_Release_def split: prod.splits outcome.splits option.splits)
  moreover have "fst ?r = d'" using q ev by (simp add: cs_release_def)
  ultimately show ?thesis
    using q ev rel(2) ok assms(1) by (simp add: g_Release_def steady_def dispatchOnLockReleased_def)
qed

text \<open>
  A waiter that has subscribed is woken: when the holder releases the lock through the service, the
  release is announced on the bus, and once the bus has emitted the announcement the waiter's next
  select acquires the lock and grants it, with the position stored for the consumer.
\<close>

theorem wait_for_lock_woken_by_release:
  assumes "steady env" "steady env'" "le_send env' = None" "db_ok (sv_db (ww_server w))"
    "known_key (app, str, c) (sv_db (ww_server w))" "ww_subscribed w"
    "cs_lock_row (app, str, c) (sv_db (ww_server w)) = Some (h', u, d')" "le_now env < u" "h' \<noteq> ''''"
    "LockMinimumTTL \<le> ttl"
  shows "\<exists>ev sv'. g_Release env app str c h' (ww_server w) = (sv', Ok True)
    \<and> sv_spawned sv' = sv_spawned (ww_server w) @ [ev]
    \<and> (\<exists>w'. waitForGrant_loop app str c h ttl
               (WOther (\<lambda>s. fst (g_Release env app str c h' s)) # WEmits ev # WReleased env' # es) w
             = (w', Some (Ok ())) \<and> length (ww_granted w') = Suc (length (ww_granted w)))"
proof -
  let ?ev = "\<lparr>ev_domain = app, ev_stream = str, ev_consumer = c, ev_holder = h'\<rparr>"
  from g_Release_frees[OF assms(1,4,5,7,8,9)] obtain sv' where
    rel: "g_Release env app str c h' (ww_server w) = (sv', Ok True)"
    "sv_spawned sv' = sv_spawned (ww_server w) @ [?ev]"
    "cs_lock_row (app, str, c) (sv_db sv') = None" "db_ok (sv_db sv')" "known_key (app, str, c) (sv_db sv')" by blast
  have "snd (cs_acquire (le_now env') (app, str, c) h ttl (sv_db sv'))"
    using cs_locks.acquire_free[OF rel(4,5) assms(10), of "le_now env'" h] rel(3) by simp
  with acquireLock_eq(2)[OF assms(2), of app str c h ttl sv'] obtain sv'' q where
    acq: "acquireLock env' app str c h ttl sv' = (sv'', Ok q)" "lr_acquired q"
    by (cases "acquireLock env' app str c h ttl sv'") auto
  let ?w1 = "w\<lparr>ww_server := sv', ww_releaseCh := True\<rparr>"
  have "\<exists>v. wait_attempt env' app str c h ttl (?w1\<lparr>ww_releaseCh := False\<rparr>) = (v, Ok True)
      \<and> length (ww_granted v) = Suc (length (ww_granted w))"
    using acq assms(3) by (simp add: wait_attempt_def grantLock_def Let_def)
  with rel assms(6) show ?thesis
    by (intro exI[of _ ?ev] exI[of _ sv']) (auto simp: wait_listener_def)
qed

subsection \<open>Witnesses\<close>

definition demo_env :: "time \<Rightarrow> lock_env" where
  "demo_env t = \<lparr>le_fault = no_faults, le_imul = (\<lambda>x. x), le_now = t, le_g1 = t, le_g2 = t, le_gonow = t,
     le_send = None\<rparr>"

definition demo_server :: lock_server where
  "demo_server = \<lparr>sv_db = demo_db, sv_spawned = []\<rparr>"

definition demo_bound :: ka_world where
  "demo_bound = \<lparr>kw_server = demo_server, kw_stream = \<lparr>ka_domain = ''d'', ka_streamName = ''s'', ka_consumer = ''c'',
     ka_holder = ''a'', ka_subscribed = True, ka_lockLostCh = None\<rparr>, kw_sent = []\<rparr>"

lemma steady_demo: "steady (demo_env t)"
  by (simp add: steady_def demo_env_def)

lemma demo_env_simps [simp]: "le_now (demo_env t) = t" "le_send (demo_env t) = None"
  by (simp_all add: demo_env_def)

lemma demo_ttl: "LockMinimumTTL \<le> ttl_of_seconds 30"
  by (simp add: LockMinimumTTL_def ttl_of_seconds_def second_def)

theorem keepalive_heartbeat_answer_witness:
  "kw_sent (fst (dispatchBound (demo_env 5) (Heartbeat \<lparr>hb_events = Some (''d'', ''s''), hb_consumer = ''c'',
       hb_holder = ''a'', hb_position = 7\<rparr>) demo_bound)) = [LockStatus True RENEWED None None]"
proof -
  have "cs_getp (''d'', ''s'', ''c'') demo_db = None"
    by (simp add: cs_getp_def cs_GetPosition_def demo_db_def empty_db_def)
  moreover have "locks_keyed demo_db" by (simp add: locks_keyed_def demo_db_def)
  ultimately show ?thesis
    using keepalive_heartbeat_answer[OF steady_demo, of 5 demo_bound _ 7, OF _ _ _ _ refl] demo_db_ok
    by (simp add: demo_bound_def demo_server_def ka_key_def beat_verdict_def Let_def case_prod_beta)
qed

theorem keepalive_touches_own_lock_witness:
  "cs_lock_row (''d'', ''s'', ''c'') (wdb (fst (KeepAlive_run [Select (demo_env 5) (SelMessage ReleaseRequest)] demo_server)))
     = Some (''a'', 30000000000, 30000000000)"
proof -
  let ?es = "[Select (demo_env 5) (SelMessage ReleaseRequest)]"
  have "ka_holder (kw_stream (fst (KeepAlive_run ?es demo_server))) = ''''"
    by (simp add: KeepAlive_run_def receive_def awaitBind_message_def newKeepAliveStream_def)
  then show ?thesis
    using keepalive_touches_own_lock[of ?es demo_server "fst (KeepAlive_run ?es demo_server)"
        "snd (KeepAlive_run ?es demo_server)" "(''d'', ''s'', ''c'')" "''a''" 30000000000 30000000000]
      demo_db_ok steady_demo
    by (simp add: demo_server_def)
qed

theorem wait_for_lock_granted_holds_witness:
  "\<exists>w. g_WaitForLock (demo_env 40000000000) (\<lambda>s. s) ''d'' ''s'' ''c'' ''b'' 30 [] demo_server = (w, Some (Ok ()))
     \<and> (\<exists>t. cs_lock_row (''d'', ''s'', ''c'') (sv_db (ww_server w)) = Some (''b'', t + ttl_of_seconds 30, ttl_of_seconds 30))"
proof -
  let ?env = "demo_env 40000000000"
  have "snd (cs_acquire (le_now ?env) (''d'', ''s'', ''c'') ''b'' (ttl_of_seconds 30) demo_db)"
    using cs_locks.acquire_free[OF demo_db_ok(1,2) demo_ttl, of "le_now ?env" "''b''"] demo_db_ok(3) by simp
  with acquireLock_eq(2)[OF steady_demo[of 40000000000], of "''d''" "''s''" "''c''" "''b''" "ttl_of_seconds 30" demo_server]
  obtain sv q where acq: "acquireLock ?env ''d'' ''s'' ''c'' ''b'' (ttl_of_seconds 30) demo_server = (sv, Ok q)" "lr_acquired q"
    by (cases "acquireLock ?env ''d'' ''s'' ''c'' ''b'' (ttl_of_seconds 30) demo_server") (auto simp: demo_server_def)
  then obtain w where w: "g_WaitForLock ?env (\<lambda>s. s) ''d'' ''s'' ''c'' ''b'' 30 [] demo_server = (w, Some (Ok ()))"
    by (simp add: g_WaitForLock_def wait_attempt_def grantLock_def Let_def)
  from wait_for_lock_granted_holds[OF w steady_demo] demo_db_ok demo_ttl w show ?thesis
    by (auto simp: lawful_def demo_server_def)
qed

theorem wait_for_lock_lost_wakeup_witness:
  "snd (g_WaitForLock (demo_env 5) (\<lambda>s. fst (g_Release (demo_env 6) ''d'' ''s'' ''c'' ''a'' s)) ''d'' ''s'' ''c'' ''b'' 30
          (map WReleased [demo_env 7]) demo_server) = None"
  using wait_for_lock_lost_wakeup[OF steady_demo steady_demo, of demo_server "''d''" "''s''" "''c''" "''a''" 30000000000
      30000000000 5 6 "''b''" 30 "[demo_env 7]"] demo_db_ok demo_ttl
  by (simp add: demo_server_def Let_def case_prod_beta)

theorem wait_for_lock_woken_by_release_witness:
  "\<exists>ev w'. waitForGrant_loop ''d'' ''s'' ''c'' ''b'' (ttl_of_seconds 30)
      [WOther (\<lambda>s. fst (g_Release (demo_env 5) ''d'' ''s'' ''c'' ''a'' s)), WEmits ev, WReleased (demo_env 6)]
      \<lparr>ww_server = demo_server, ww_subscribed = True, ww_releaseCh = False, ww_granted = []\<rparr> = (w', Some (Ok ()))
      \<and> length (ww_granted w') = 1"
  using wait_for_lock_woken_by_release[OF steady_demo steady_demo, of 6
      "\<lparr>ww_server = demo_server, ww_subscribed = True, ww_releaseCh = False, ww_granted = []\<rparr>" "''d''" "''s''" "''c''"
      "''a''" 30000000000 30000000000 5 "ttl_of_seconds 30" "''b''" "[]"] demo_db_ok demo_ttl
  by (fastforce simp: demo_server_def simp del: waitForGrant_loop.simps)

end
