(* ===== verification/LockClient.thy ===== *)
theory LockClient
  imports LockService
begin

text \<open>
  The client side of locks and positions over gRPC: the lock and position methods of \<open>GrpcAdapter\<close> and
  the \<open>KeepAlive\<close> lease in \<open>src/pkg/v1/grpcAdapter.go\<close>, with the position service of
  \<open>src/internal/service/grpcConsumerPosition.go\<close>.

  A remote call is an argument: what the stub returns for the request the client builds. The results of
  the \<open>Send\<close>, \<open>Recv\<close> and \<open>CloseSend\<close> of a bidirectional stream are the fields of \<open>ka_wire\<close>, and
  a method returns the messages it sent along with its result. The theorems put the client and the
  server of \<open>LockService\<close> together.
\<close>

record ka_wire =
  kx_send :: "goerror option"
  kx_recv :: "KeepAliveServerMessage outcome"
  kx_closeSend :: "goerror option"

record KeepAlive =
  kc_domain :: string
  kc_streamN :: string
  kc_consumer :: string
  kc_holder :: string

text \<open>\<open>errors.Join\<close> of an error that is not nil and the result of \<open>CloseSend\<close>.\<close>

definition join_close :: "goerror \<Rightarrow> goerror option \<Rightarrow> goerror" where
  "join_close e closeErr = the (join_err (Some e) closeErr)"

subsection \<open>The KeepAlive lease\<close>

definition newHeartbeatConflictError :: "int64 option \<Rightarrow> int64 option \<Rightarrow> goerror" where
  "newHeartbeatConflictError target current =
     HeartbeatConflictError (case target of Some t \<Rightarrow> t | None \<Rightarrow> 0) (case current of Some c \<Rightarrow> c | None \<Rightarrow> 0)"

definition handleKeepAliveResponse ::
  "KeepAliveServerMessage \<Rightarrow> string \<Rightarrow> string \<Rightarrow> string \<Rightarrow> string \<Rightarrow> goerror option" where
  "handleKeepAliveResponse resp consumer domain stream holder =
     (case resp of
        LockStatus locked reason target current \<Rightarrow>
          (if reason = CONFLICT then Some (newHeartbeatConflictError target current)
           else if reason = EXPIRED then Some (LockExpiredError consumer domain stream)
           else if reason = STOLEN then Some (LockNotHeldError consumer holder domain stream)
           else None)
      | _ \<Rightarrow> None)"

definition NewKeepAlive ::
  "goerror option \<Rightarrow> ka_wire \<Rightarrow> string \<Rightarrow> string \<Rightarrow> string \<Rightarrow> string \<Rightarrow> KeepAliveClientMessage list \<times> KeepAlive outcome" where
  "NewKeepAlive opening wire domain stream consumer holder =
     (case opening of
        Some e \<Rightarrow> ([], Err e)
      | None \<Rightarrow>
          (let msg = Bind domain stream consumer holder
           in case kx_send wire of
                Some e \<Rightarrow> ([], Err (join_close e (kx_closeSend wire)))
              | None \<Rightarrow>
                  ([msg],
                   case kx_recv wire of
                     Err e \<Rightarrow> Err (join_close e (kx_closeSend wire))
                   | Panic p \<Rightarrow> Panic p
                   | Ok resp \<Rightarrow>
                       (case resp of
                          LockStatus locked reason target current \<Rightarrow>
                            (if \<not> locked
                             then (case handleKeepAliveResponse resp consumer domain stream holder of
                                     Some bindErr \<Rightarrow> Err (join_close bindErr (kx_closeSend wire))
                                   | None \<Rightarrow> Err (join_close (TextError ''keepalive bind rejected'') (kx_closeSend wire)))
                             else Ok \<lparr>kc_domain = domain, kc_streamN = stream, kc_consumer = consumer, kc_holder = holder\<rparr>)
                        | _ \<Rightarrow> Err (join_close (TextError ''expected lock status in response to bind'')
                                     (kx_closeSend wire))))))"

definition processLockStatus :: "KeepAlive \<Rightarrow> KeepAliveServerMessage \<Rightarrow> unit outcome" where
  "processLockStatus k resp =
     (case resp of
        LockStatus locked reason target current \<Rightarrow>
          (case reason of
             UNSPECIFIED \<Rightarrow> Ok ()
           | RENEWED \<Rightarrow> Ok ()
           | CONFLICT \<Rightarrow> Err (HeartbeatConflictError (case target of Some t \<Rightarrow> t | None \<Rightarrow> 0)
                               (case current of Some c \<Rightarrow> c | None \<Rightarrow> 0))
           | EXPIRED \<Rightarrow> Err (LockExpiredError (kc_consumer k) (kc_domain k) (kc_streamN k))
           | STOLEN \<Rightarrow> Err (LockNotHeldError (kc_consumer k) (kc_holder k) (kc_domain k) (kc_streamN k)))
      | _ \<Rightarrow> Ok ())"

definition beat_message :: "KeepAlive \<Rightarrow> int64 \<Rightarrow> KeepAliveHeartbeat" where
  "beat_message k position =
     \<lparr>hb_events = Some (kc_domain k, kc_streamN k), hb_consumer = kc_consumer k, hb_holder = kc_holder k,
      hb_position = position\<rparr>"

definition KeepAlive_Heartbeat ::
  "goerror option \<Rightarrow> ka_wire \<Rightarrow> KeepAlive \<Rightarrow> int64 \<Rightarrow> KeepAliveClientMessage list \<times> unit outcome" where
  "KeepAlive_Heartbeat ctxErr wire k position =
     (case ctxErr of
        Some e \<Rightarrow> ([], Err e)
      | None \<Rightarrow>
          (case kx_send wire of
             Some e \<Rightarrow> ([], Err e)
           | None \<Rightarrow>
               ([Heartbeat (beat_message k position)],
                case kx_recv wire of
                  Err e \<Rightarrow> Err e
                | Panic p \<Rightarrow> Panic p
                | Ok resp \<Rightarrow> processLockStatus k resp)))"

definition KeepAlive_Release :: "goerror option \<Rightarrow> ka_wire \<Rightarrow> KeepAliveClientMessage list \<times> unit outcome" where
  "KeepAlive_Release ctxErr wire =
     (case ctxErr of
        Some e \<Rightarrow> ([], Err e)
      | None \<Rightarrow>
          (case kx_send wire of
             Some e \<Rightarrow> ([], Err e)
           | None \<Rightarrow>
               ([ReleaseRequest],
                case kx_recv wire of
                  Err e \<Rightarrow> Err e
                | Panic p \<Rightarrow> Panic p
                | Ok resp \<Rightarrow>
                    (case resp of
                       ReleaseAck ok \<Rightarrow> (if ok then Ok () else Err (TextError ''keepalive release rejected''))
                     | _ \<Rightarrow> Ok ()))))"

text \<open>
  \<open>HeartbeatWithPosition\<close> opens a stream, binds, beats once and closes: \<open>wire1\<close> is the exchange of the
  bind, \<open>wire2\<close> that of the heartbeat. The deferred join runs only after a successful bind.
\<close>

definition ga_HeartbeatWithPosition ::
  "goerror option \<Rightarrow> goerror option \<Rightarrow> ka_wire \<Rightarrow> ka_wire \<Rightarrow> string \<Rightarrow> string \<Rightarrow> string \<Rightarrow> string \<Rightarrow> int64
     \<Rightarrow> KeepAliveClientMessage list \<times> unit outcome" where
  "ga_HeartbeatWithPosition opening ctxErr wire1 wire2 domain stream consumer holder position =
     (case NewKeepAlive opening wire1 domain stream consumer holder of
        (ms, Err e) \<Rightarrow> (ms, Err e)
      | (ms, Panic p) \<Rightarrow> (ms, Panic p)
      | (ms, Ok ka) \<Rightarrow>
          (case KeepAlive_Heartbeat ctxErr wire2 ka position of
             (ms', Panic p) \<Rightarrow> (ms @ ms', Panic p)
           | (ms', Ok _) \<Rightarrow>
               (ms @ ms', case join_err None (kx_closeSend wire2) of None \<Rightarrow> Ok () | Some e \<Rightarrow> Err e)
           | (ms', Err e) \<Rightarrow> (ms @ ms', Err (join_close e (kx_closeSend wire2)))))"

subsection \<open>Locks\<close>

text \<open>
  The requests carry the TTL as \<open>int32(ttl.Seconds())\<close>: whole seconds, truncated (TTLs are below the
  2^24 seconds up to which the double is exact, and fit an \<open>int32\<close>).
\<close>

definition ga_TryAcquire ::
  "(string \<Rightarrow> string \<Rightarrow> string \<Rightarrow> string \<Rightarrow> int \<Rightarrow> LockResult outcome) \<Rightarrow> string \<Rightarrow> string \<Rightarrow> string \<Rightarrow> string \<Rightarrow> duration
     \<Rightarrow> LockResult outcome" where
  "ga_TryAcquire rpc domain stream consumer holder ttl =
     (case rpc domain stream consumer holder (seconds_of ttl) of
        Err e \<Rightarrow> Err e
      | Panic p \<Rightarrow> Panic p
      | Ok resp \<Rightarrow>
          Ok \<lparr>lr_acquired = lr_acquired resp, lr_heldBy = lr_heldBy resp,
              lr_guaranteeUntil = lr_guaranteeUntil resp, lr_heldUntil = lr_heldUntil resp,
              lr_position = lr_position resp\<rparr>)"

definition ga_Release ::
  "(string \<Rightarrow> string \<Rightarrow> string \<Rightarrow> string \<Rightarrow> bool outcome) \<Rightarrow> string \<Rightarrow> string \<Rightarrow> string \<Rightarrow> string \<Rightarrow> unit outcome" where
  "ga_Release rpc domain stream consumer holder =
     (case rpc domain stream consumer holder of Err e \<Rightarrow> Err e | Panic p \<Rightarrow> Panic p | Ok _ \<Rightarrow> Ok ())"

definition ga_ListLocks ::
  "(string \<Rightarrow> string \<Rightarrow> LockState list outcome) \<Rightarrow> string \<Rightarrow> string \<Rightarrow> LockState list outcome" where
  "ga_ListLocks rpc domain stream =
     (case rpc domain stream of
        Err e \<Rightarrow> Err e
      | Panic p \<Rightarrow> Panic p
      | Ok locks \<Rightarrow> Ok (map (\<lambda>ls. ls\<lparr>lk_ttl := lk_ttl ls * second\<rparr>) locks))"

definition ga_GetLock ::
  "(string \<Rightarrow> string \<Rightarrow> LockState list outcome) \<Rightarrow> string \<Rightarrow> string \<Rightarrow> string \<Rightarrow> LockState option outcome" where
  "ga_GetLock rpc domain stream consumer =
     (case ga_ListLocks rpc domain stream of
        Err e \<Rightarrow> Err e
      | Panic p \<Rightarrow> Panic p
      | Ok locks \<Rightarrow> Ok (List.find (\<lambda>l. lk_consumer l = consumer) locks))"

definition ga_WaitForLock ::
  "(string \<Rightarrow> string \<Rightarrow> string \<Rightarrow> string \<Rightarrow> int \<Rightarrow> LockGranted outcome) \<Rightarrow> goerror option \<Rightarrow> ka_wire
     \<Rightarrow> string \<Rightarrow> string \<Rightarrow> string \<Rightarrow> string \<Rightarrow> duration \<Rightarrow> (KeepAlive \<times> int64 \<times> duration) outcome" where
  "ga_WaitForLock rpc opening wire domain stream consumer holder ttl =
     (case rpc domain stream consumer holder (seconds_of ttl) of
        Err e \<Rightarrow> Err e
      | Panic p \<Rightarrow> Panic p
      | Ok resp \<Rightarrow>
          (case snd (NewKeepAlive opening wire domain stream consumer holder) of
             Err e \<Rightarrow> Err e
           | Panic p \<Rightarrow> Panic p
           | Ok keepAlive \<Rightarrow>
               (let interval = gr_heartbeatIntervalMs resp * 1000000
                in Ok (keepAlive, gr_position resp, if interval = 0 then scale09 ttl else interval))))"

subsection \<open>Positions\<close>

record SetPositionOut =
  so_ok :: bool
  so_current :: int64
  so_previous :: int64
  so_error :: string

text \<open>The server; \<open>text\<close> is the \<open>Error()\<close> text of an error.\<close>

definition g_SetPosition ::
  "(goerror \<Rightarrow> string) \<Rightarrow> faults \<Rightarrow> string \<Rightarrow> string \<Rightarrow> string \<Rightarrow> int64 \<Rightarrow> db \<Rightarrow> db \<times> SetPositionOut outcome" where
  "g_SetPosition text fault domain stream consumer eventID d =
     (case cs_SetPosition fault domain stream consumer eventID d of
        (d', Err e) \<Rightarrow> (d', Ok \<lparr>so_ok = False, so_current = 0, so_previous = 0, so_error = text e\<rparr>)
      | (d', Panic p) \<Rightarrow> (d', Panic p)
      | (d', Ok result) \<Rightarrow>
          (d', Ok \<lparr>so_ok = True, so_current = sp_current result,
                   so_previous = (case sp_previous result of Some p \<Rightarrow> p | None \<Rightarrow> 0), so_error = ''''\<rparr>))"

definition g_GetPosition :: "faults \<Rightarrow> string \<Rightarrow> string \<Rightarrow> string \<Rightarrow> db \<Rightarrow> (int64 \<times> bool) outcome" where
  "g_GetPosition fault domain stream consumer d = cs_GetPosition fault domain stream consumer d"

definition g_ListConsumers :: "faults \<Rightarrow> string \<Rightarrow> string \<Rightarrow> db \<Rightarrow> string list outcome" where
  "g_ListConsumers fault domain stream d = cs_ListConsumers fault domain stream d"

definition g_DeletePosition :: "faults \<Rightarrow> string \<Rightarrow> string \<Rightarrow> string \<Rightarrow> db \<Rightarrow> db \<times> bool outcome" where
  "g_DeletePosition fault domain stream consumer d =
     (case cs_DeletePosition fault domain stream consumer d of
        (d', Err e) \<Rightarrow> (d', Err e)
      | (d', Panic p) \<Rightarrow> (d', Panic p)
      | (d', Ok _) \<Rightarrow> (d', Ok True))"

text \<open>The client over a response of the server.\<close>

definition ga_SetPosition :: "SetPositionOut outcome \<Rightarrow> SetPositionResult outcome" where
  "ga_SetPosition resp =
     (case resp of
        Err e \<Rightarrow> Err e
      | Panic p \<Rightarrow> Panic p
      | Ok r \<Rightarrow>
          (if \<not> so_ok r then Err (TextError (so_error r))
           else Ok \<lparr>sp_previous = (if so_previous r \<noteq> 0 then Some (so_previous r) else None),
                    sp_current = so_current r\<rparr>))"

definition ga_GetPosition :: "(int64 \<times> bool) outcome \<Rightarrow> (int64 \<times> bool) outcome" where
  "ga_GetPosition resp = (case resp of Err e \<Rightarrow> Err e | Panic p \<Rightarrow> Panic p | Ok (i, found) \<Rightarrow> Ok (i, found))"

definition ga_ListConsumers :: "string list outcome \<Rightarrow> string list outcome" where
  "ga_ListConsumers resp = (case resp of Err e \<Rightarrow> Err e | Panic p \<Rightarrow> Panic p | Ok cs \<Rightarrow> Ok cs)"

definition ga_DeletePosition :: "bool outcome \<Rightarrow> unit outcome" where
  "ga_DeletePosition resp = (case resp of Err e \<Rightarrow> Err e | Panic p \<Rightarrow> Panic p | Ok _ \<Rightarrow> Ok ())"

subsection \<open>Lemmas\<close>

text \<open>What a client makes of the verdict of the specification on its heartbeat.\<close>

fun client_verdict :: "KeepAlive \<Rightarrow> goerror + duration \<Rightarrow> unit outcome" where
  "client_verdict k (Inr ttl) = Ok ()"
| "client_verdict k (Inl (HeartbeatConflictError t c)) = Err (HeartbeatConflictError t c)"
| "client_verdict k (Inl (LockNotHeldError c h d s)) =
     Err (LockNotHeldError (kc_consumer k) (kc_holder k) (kc_domain k) (kc_streamN k))"
| "client_verdict k (Inl e) = Err (LockExpiredError (kc_consumer k) (kc_domain k) (kc_streamN k))"

lemma process_verdict:
  assumes "beat_verdict now key h p row cur = v"
  shows "processLockStatus k (verdict_status v) = client_verdict k v"
proof (cases v)
  case (Inl e)
  from beat_verdict_errors[OF assms[unfolded Inl]] show ?thesis
    unfolding Inl by (elim disjE exE) (simp_all add: processLockStatus_def)
qed (simp add: processLockStatus_def)

text \<open>The client's view of the stream a server handler serves.\<close>

definition client_of :: "keepAliveStream \<Rightarrow> KeepAlive" where
  "client_of s = \<lparr>kc_domain = ka_domain s, kc_streamN = ka_streamName s, kc_consumer = ka_consumer s,
     kc_holder = ka_holder s\<rparr>"

lemma find_uniqueI:
  assumes "x \<in> set xs" "P x" "\<And>y. y \<in> set xs \<Longrightarrow> P y \<Longrightarrow> y = x"
  shows "List.find P xs = Some x"
proof (cases "List.find P xs")
  case None
  with assms(1,2) show ?thesis by (auto simp: find_None_iff2)
next
  case (Some y)
  from find_SomeD[OF this] assms(3) Some show ?thesis by blast
qed

lemma seconds_roundtrip: "second dvd d \<Longrightarrow> 0 \<le> d \<Longrightarrow> seconds_of d * second = d"
  by (cases "d = 0") (simp_all add: seconds_of_def)

lemma lk_consumer_row_state: "lk_consumer (row_state n app str r) = n"
  and lk_ttl_row_state: "lk_ttl (row_state n app str r) = cl_ttl r"
  by (simp_all add: row_state_def)

text \<open>The rows of the service's list of locks, as the client decodes them.\<close>

definition listed :: "time \<Rightarrow> string \<Rightarrow> string \<Rightarrow> db \<Rightarrow> lock_row \<Rightarrow> LockState option" where
  "listed now domain stream d r =
     (if stream_id domain stream d = Some (cl_stream_id r) \<and> cl_held_until r > now
      then map_option (\<lambda>n. row_state n domain stream r) (name_of (cl_consumer_id r) d) else None)"

lemma listed_Some:
  "listed now app str d r = Some l \<longleftrightarrow> stream_id app str d = Some (cl_stream_id r) \<and> now < cl_held_until r
     \<and> (\<exists>n. name_of (cl_consumer_id r) d = Some n \<and> l = row_state n app str r)"
  by (auto simp: listed_def)

lemma map_filter_set: "x \<in> set (List.map_filter f xs) \<longleftrightarrow> (\<exists>y \<in> set xs. f y = Some x)"
  by (induction xs) (auto simp: List.map_filter_simps split: option.splits)

lemma ga_ListLocks_set:
  assumes "steady env"
  shows "\<exists>ls. ga_ListLocks (\<lambda>d s. g_ListLocks env d s sv) app str = Ok ls
    \<and> set ls = {l\<lparr>lk_ttl := seconds_of (lk_ttl l) * second\<rparr> | l r. r \<in> set (db_locks (sv_db sv))
         \<and> listed (le_now env) app str (sv_db sv) r = Some l}"
  using assms
  by (fastforce simp: ga_ListLocks_def g_ListLocks_def cs_ListLocks_def steady_def map_filter_set listed_def[symmetric]
      image_iff)

text \<open>Unique names, the constraint of \<open>consumer_names\<close>.\<close>

definition names_keyed :: "db \<Rightarrow> bool" where
  "names_keyed d \<longleftrightarrow> distinct (map cn_name (db_names d))"

lemma name_id_of_name:
  assumes "names_keyed d" "name_of i d = Some n"
  shows "name_id n d = Some i"
proof -
  from assms(2) obtain r where r: "r \<in> set (db_names d)" "cn_id r = i" "cn_name r = n"
    by (auto simp: name_of_def dest!: find_SomeD)
  with assms(1) find_unique[of cn_name "db_names d" r] show ?thesis by (simp add: names_keyed_def name_id_def)
qed

lemma joined_lock_keyed:
  assumes "locks_keyed d"
  shows "r \<in> set (db_locks d) \<and> stream_id app str d = Some (cl_stream_id r) \<and> cl_consumer_id r = cid
    \<longleftrightarrow> joined_lock app str cid d = Some r"
proof
  assume r: "r \<in> set (db_locks d) \<and> stream_id app str d = Some (cl_stream_id r) \<and> cl_consumer_id r = cid"
  have "find_lock (cl_stream_id r) cid d = Some r"
    unfolding find_lock_def
    by (rule find_uniqueI) (use r distinct_map_eq[OF assms[unfolded locks_keyed_def]] in auto)
  with r show "joined_lock app str cid d = Some r" by (simp add: joined_lock_def)
next
  assume "joined_lock app str cid d = Some r"
  then show "r \<in> set (db_locks d) \<and> stream_id app str d = Some (cl_stream_id r) \<and> cl_consumer_id r = cid"
    by (auto simp: joined_lock_def find_lock_def split: option.splits dest!: find_SomeD)
qed

subsection \<open>Properties\<close>


text \<open>
  A lost lock is reported as a renewed one: when the server handler takes the release event of the
  bound lock, it sends \<open>LockLost\<close> and ends the stream; a client that has just sent a heartbeat receives
  this message as the answer, and its \<open>Heartbeat\<close> returns nil although nothing was renewed.
\<close>

theorem lock_lost_taken_for_renewal:
  assumes "ka_lockLostCh (kw_stream w) = Some evt" "le_send env = None"
  shows "\<exists>w'. runBound (Select env SelLockLost # es) w = (w', Some (Ok ())) \<and> kw_server w' = kw_server w
    \<and> snd (KeepAlive_Heartbeat None \<lparr>kx_send = None, kx_recv = Ok (last (kw_sent w')), kx_closeSend = None\<rparr> k p) = Ok ()"
  using assms
  by (simp add: receive_def notifyLockLost_def ka_send_def KeepAlive_Heartbeat_def processLockStatus_def)

text \<open>
  C17. \<open>GetLock\<close> over gRPC, which the client computes from \<open>ListLocks\<close>, gives what the store's \<open>GetLock\<close>
  gives: the same lock with the same times and TTL, or none, for a lock that does not run out in this very
  instant and has a TTL of whole seconds.
\<close>

theorem get_lock_over_grpc:
  assumes "steady env" "db_ok (sv_db sv)" "names_keyed (sv_db sv)" "locks_keyed (sv_db sv)"
    and "name_id c (sv_db sv) \<noteq> None"
    and "\<And>r. r \<in> set (db_locks (sv_db sv)) \<Longrightarrow> cl_held_until r \<noteq> le_now env \<and> second dvd cl_ttl r \<and> 0 \<le> cl_ttl r"
  shows "ga_GetLock (\<lambda>d s. g_ListLocks env d s sv) app str c =
    snd (cs_GetLock (le_fault env) (le_gonow env) app str c (sv_db sv))"
proof -
  let ?d = "sv_db sv"
  obtain cid where cid: "name_id c ?d = Some cid" using assms(5) by blast
  have ins: "insert_name c ?d = ?d\<lparr>db_name_seq := db_name_seq ?d + 1\<rparr>" using cid by (simp add: insert_name_def)
  have seq_frame: "name_id x (?d\<lparr>db_name_seq := i\<rparr>) = name_id x ?d" "name_of j (?d\<lparr>db_name_seq := i\<rparr>) = name_of j ?d"
    "joined_lock app str j (?d\<lparr>db_name_seq := i\<rparr>) = joined_lock app str j ?d" for x i j
    by (simp_all add: name_id_def name_of_def joined_lock_def stream_id_def find_lock_def cong: option.case_cong)
  have nm: "name_of cid ?d = Some c" using name_of_name_id[OF assms(2) cid] .
  have get: "snd (cs_GetLock (le_fault env) (le_gonow env) app str c ?d) =
      (case joined_lock app str cid ?d of
         None \<Rightarrow> Ok None
       | Some r \<Rightarrow> if cl_held_until r < le_now env then Ok None else Ok (Some (row_state c app str r)))"
    using assms(1) cid nm
    by (simp add: cs_GetLock_def resolve_no_faults steady_def ins seq_frame split: option.split)
  from ga_ListLocks_set[OF assms(1), of sv app str] obtain ls where
    ls: "ga_ListLocks (\<lambda>d s. g_ListLocks env d s sv) app str = Ok ls"
    "set ls = {l\<lparr>lk_ttl := seconds_of (lk_ttl l) * second\<rparr> | l r. r \<in> set (db_locks ?d)
         \<and> listed (le_now env) app str ?d r = Some l}" by blast
  have mem: "l \<in> set ls \<and> lk_consumer l = c \<longleftrightarrow>
      (\<exists>r. joined_lock app str cid ?d = Some r \<and> le_now env < cl_held_until r \<and> l = row_state c app str r)" for l
  proof -
    have key: "r \<in> set (db_locks ?d) \<and> stream_id app str ?d = Some (cl_stream_id r) \<and> cl_consumer_id r = cid
        \<longleftrightarrow> joined_lock app str cid ?d = Some r" for r
      using joined_lock_keyed[OF assms(4)] .
    have same: "(row_state n app str r)\<lparr>lk_ttl := seconds_of (cl_ttl r) * second\<rparr> = row_state n app str r"
      if "r \<in> set (db_locks ?d)" for n r
      using seconds_roundtrip[of "cl_ttl r"] assms(6)[OF that] by (simp add: row_state_def)
    have cons: "name_of i ?d = Some c \<longleftrightarrow> i = cid" for i
      using name_id_of_name[OF assms(3)] cid nm by fastforce
    have "l \<in> set ls \<longleftrightarrow> (\<exists>r n. r \<in> set (db_locks ?d) \<and> stream_id app str ?d = Some (cl_stream_id r)
        \<and> le_now env < cl_held_until r \<and> name_of (cl_consumer_id r) ?d = Some n
        \<and> l = (row_state n app str r)\<lparr>lk_ttl := seconds_of (cl_ttl r) * second\<rparr>)"
      unfolding ls(2) mem_Collect_eq listed_Some by (metis lk_ttl_row_state)
    also have "\<dots> \<longleftrightarrow> (\<exists>r n. r \<in> set (db_locks ?d) \<and> stream_id app str ?d = Some (cl_stream_id r)
        \<and> le_now env < cl_held_until r \<and> name_of (cl_consumer_id r) ?d = Some n \<and> l = row_state n app str r)"
      using same by metis
    finally show ?thesis
      unfolding key[symmetric] using cons by (auto simp: lk_consumer_row_state)
  qed
  show ?thesis
  proof (cases "\<exists>r. joined_lock app str cid ?d = Some r \<and> le_now env < cl_held_until r")
    case True
    then obtain r where r: "joined_lock app str cid ?d = Some r" "le_now env < cl_held_until r" by blast
    have "List.find (\<lambda>l. lk_consumer l = c) ls = Some (row_state c app str r)"
      by (rule find_uniqueI) (use mem r in auto)
    with ls(1) get r show ?thesis by (simp add: ga_GetLock_def)
  next
    case False
    then have "List.find (\<lambda>l. lk_consumer l = c) ls = None" using mem by (auto simp: find_None_iff2)
    moreover have "cl_held_until r < le_now env" if "joined_lock app str cid ?d = Some r" for r
      using False that assms(6)[of r] joined_lock_keyed[OF assms(4), of r app str cid] by fastforce
    ultimately show ?thesis using ls(1) get by (auto simp: ga_GetLock_def split: option.splits)
  qed
qed

subsection \<open>Witnesses\<close>


theorem lock_lost_taken_for_renewal_witness:
  "let w = demo_bound\<lparr>kw_stream := (kw_stream demo_bound)\<lparr>ka_lockLostCh :=
       Some \<lparr>ev_domain = ''d'', ev_stream = ''s'', ev_consumer = ''c'', ev_holder = ''a''\<rparr>\<rparr>\<rparr>
   in \<exists>w'. runBound [Select (demo_env 5) SelLockLost] w = (w', Some (Ok ()))
        \<and> snd (KeepAlive_Heartbeat None \<lparr>kx_send = None, kx_recv = Ok (last (kw_sent w')), kx_closeSend = None\<rparr>
                 (client_of (kw_stream w)) 7) = Ok ()"
proof -
  let ?e = "\<lparr>ev_domain = ''d'', ev_stream = ''s'', ev_consumer = ''c'', ev_holder = ''a''\<rparr>"
  let ?w = "demo_bound\<lparr>kw_stream := (kw_stream demo_bound)\<lparr>ka_lockLostCh := Some ?e\<rparr>\<rparr>"
  have "ka_lockLostCh (kw_stream ?w) = Some ?e" by simp
  from lock_lost_taken_for_renewal[OF this, of "demo_env 5" "[]" "client_of (kw_stream ?w)" 7] show ?thesis
    unfolding Let_def by fastforce
qed

theorem get_lock_over_grpc_witness:
  "\<exists>l. ga_GetLock (\<lambda>d s. g_ListLocks (demo_env 5) d s demo_server) ''d'' ''s'' ''c'' = Ok (Some l) \<and> lk_holder l = ''a''"
proof -
  have "names_keyed demo_db" "locks_keyed demo_db" "name_id ''c'' demo_db \<noteq> None"
    by (simp_all add: names_keyed_def locks_keyed_def name_id_def demo_db_def)
  moreover have "cl_held_until r \<noteq> 5 \<and> second dvd cl_ttl r \<and> 0 \<le> cl_ttl r" if "r \<in> set (db_locks demo_db)" for r
    using that by (simp add: demo_db_def second_def)
  ultimately have "ga_GetLock (\<lambda>d s. g_ListLocks (demo_env 5) d s demo_server) ''d'' ''s'' ''c'' =
      snd (cs_GetLock (le_fault (demo_env 5)) (le_gonow (demo_env 5)) ''d'' ''s'' ''c'' (sv_db demo_server))"
    using demo_db_ok by (intro get_lock_over_grpc steady_demo) (simp_all add: demo_server_def)
  then show ?thesis
    by (simp add: cs_GetLock_def resolve_no_faults demo_server_def demo_env_def insert_name_def name_id_def name_of_def
        joined_lock_def stream_id_def find_lock_def demo_db_def empty_db_def row_state_def)
qed

end
