(* ===== verification/MemoryQuery.thy ===== *)
theory MemoryQuery
  imports MemoryStore
begin

text \<open>
  Queries of the in-memory transport: \<open>src/pkg/v1/filter.go\<close>, \<open>queryInFilter.go\<close>, \<open>memoryBatch.go\<close>,
  \<open>local/jsonmatch.go\<close> and the query half of \<open>memory.go\<close>.

  Two libraries are parameters. \<open>compare\<close> stands for \<open>jsondiff.Compare\<close>, which relates two
  documents; \<open>gojq\<close> stands for \<open>gojq.NewStringQuery\<close> and \<open>QueryToString\<close>: it parses a body, or
  fails, and gives the value of a property path as text, or nothing.

  The operations read the store several times. Stored events never change (they are only
  appended), so all reads are made on one state; \<open>net i\<close> is the error of the caller's context
  observed by the read of event \<open>i\<close>.
\<close>

datatype diff_result =
    FullMatch | SupersetMatch | NoMatch | FirstArgIsInvalidJson | SecondArgIsInvalidJson
  | BothArgsAreInvalidJson

type_synonym json_compare = "raw_message \<Rightarrow> raw_message \<Rightarrow> diff_result"
type_synonym gojq_parser = "raw_message \<Rightarrow> (string \<Rightarrow> string option) outcome"

definition JSONIsSubset :: "json_compare \<Rightarrow> raw_message \<Rightarrow> raw_message \<Rightarrow> bool" where
  "JSONIsSubset compare superset part \<longleftrightarrow>
     compare superset part = SupersetMatch \<or> compare superset part = FullMatch"

subsection \<open>Kind constraints\<close>

text \<open>\<open>filterLoader.Get\<close>: reads the body of an event.\<close>

type_synonym filterLoader = "int64 \<Rightarrow> raw_message outcome"

definition hasEqConstraints :: "KindConstraint \<Rightarrow> bool" where
  "hasEqConstraints c \<longleftrightarrow> 0 < length (kc_eq c)"

definition hasSubsetConstraints :: "KindConstraint \<Rightarrow> bool" where
  "hasSubsetConstraints c \<longleftrightarrow> kc_matchSubset c \<noteq> None"

fun findMatchingConstraint :: "string \<Rightarrow> KindConstraint list \<Rightarrow> KindConstraint option" where
  "findMatchingConstraint kind [] = None"
| "findMatchingConstraint kind (c # cs) =
     (if kind = kc_kind c then Some c else findMatchingConstraint kind cs)"

fun string_join :: "string \<Rightarrow> string list \<Rightarrow> string" where
  "string_join sep [] = ''''"
| "string_join sep [x] = x"
| "string_join sep (x # y # ys) = x @ sep @ string_join sep (y # ys)"

fun match_properties :: "(string \<Rightarrow> string option) \<Rightarrow> WireMatcherV1 list \<Rightarrow> bool outcome" where
  "match_properties parser [] = Ok True"
| "match_properties parser (e # es) =
     (case parser (string_join ''.'' (wm_property e)) of
        None \<Rightarrow> Ok False
      | Some value \<Rightarrow>
          (case wm_value e of
             [] \<Rightarrow> Panic ''index out of range''
           | v # _ \<Rightarrow> (if value \<noteq> v then Ok False else match_properties parser es)))"

definition filterMatchedProperties ::
  "gojq_parser \<Rightarrow> filterLoader \<Rightarrow> KindConstraint \<Rightarrow> Envelope \<Rightarrow> bool outcome" where
  "filterMatchedProperties gojq loader c e =
     bindo (loader (env_id e)) (\<lambda>body.
       bindo (gojq body) (\<lambda>parser. match_properties parser (kc_eq c)))"

definition filterSubsetMatch ::
  "json_compare \<Rightarrow> filterLoader \<Rightarrow> KindConstraint \<Rightarrow> Envelope \<Rightarrow> bool outcome" where
  "filterSubsetMatch compare loader c e =
     bindo (loader (env_id e)) (\<lambda>body. Ok (JSONIsSubset compare body (kc_matchSubset c)))"

definition applyEqFilter ::
  "gojq_parser \<Rightarrow> filterLoader \<Rightarrow> KindConstraint \<Rightarrow> Envelope \<Rightarrow> bool outcome" where
  "applyEqFilter gojq loader c e =
     (if \<not> hasEqConstraints c then Ok True else filterMatchedProperties gojq loader c e)"

definition applySubsetFilter ::
  "json_compare \<Rightarrow> filterLoader \<Rightarrow> KindConstraint \<Rightarrow> Envelope \<Rightarrow> bool outcome" where
  "applySubsetFilter compare loader c e =
     (if \<not> hasSubsetConstraints c then Ok True else filterSubsetMatch compare loader c e)"

definition filter_envelope ::
  "json_compare \<Rightarrow> gojq_parser \<Rightarrow> filterLoader \<Rightarrow> WireQuery \<Rightarrow> Envelope \<Rightarrow> bool outcome" where
  "filter_envelope compare gojq loader query e =
     (if (case wq_afterID query of Some a \<Rightarrow> env_id e \<le> a | None \<Rightarrow> False) then Ok False
      else if length (wq_kinds query) = 0 then Ok True
      else case findMatchingConstraint (env_kind e) (wq_kinds query) of
             None \<Rightarrow> Ok False
           | Some constraint \<Rightarrow>
               bindo (applyEqFilter gojq loader constraint e) (\<lambda>eqMatch.
                 if \<not> eqMatch then Ok eqMatch
                 else applySubsetFilter compare loader constraint e))"

subsection \<open>\<open>Query\<close> and \<open>QueryBatch\<close>\<close>

definition memoryFilterLoader ::
  "(int64 \<Rightarrow> goerror option) \<Rightarrow> string \<Rightarrow> string \<Rightarrow> memory \<Rightarrow> filterLoader" where
  "memoryFilterLoader net domain stream m i = snd (GetEvent (net i) domain stream i m)"

definition query_body ::
  "json_compare \<Rightarrow> gojq_parser \<Rightarrow> filterLoader \<Rightarrow> WireQuery \<Rightarrow> Envelope \<Rightarrow> WireQueryResult
     \<Rightarrow> WireQueryResult \<times> unit outcome" where
  "query_body compare gojq loader query e out =
     (case filter_envelope compare gojq loader query e of
        Err err \<Rightarrow> (out, Err err)
      | Panic p \<Rightarrow> (out, Panic p)
      | Ok add \<Rightarrow> (if add then out\<lparr>wqr_matching := wqr_matching out @ [e]\<rparr> else out, Ok ()))"

definition mem_Query ::
  "json_compare \<Rightarrow> gojq_parser \<Rightarrow> (int64 \<Rightarrow> goerror option) \<Rightarrow> goerror option \<Rightarrow> string \<Rightarrow> string
     \<Rightarrow> WireQuery \<Rightarrow> WireQueryResult \<Rightarrow> memory \<Rightarrow> WireQueryResult \<times> unit outcome" where
  "mem_Query compare gojq net netAll domain stream query out m =
     (case snd (AllEnvelopes netAll domain stream m) of
        Err err \<Rightarrow> (out, Err err)
      | Panic p \<Rightarrow> (out, Panic p)
      | Ok envelopes \<Rightarrow>
          for_each (query_body compare gojq (memoryFilterLoader net domain stream m) query) envelopes
            \<lparr>wqr_filtered = True, wqr_subsetMatch = True, wqr_matching = []\<rparr>)"

definition batch_body ::
  "(int64 \<Rightarrow> goerror option) \<Rightarrow> string \<Rightarrow> string \<Rightarrow> memory \<Rightarrow> Envelope \<Rightarrow> WireBatchResultPair list
     \<Rightarrow> WireBatchResultPair list \<times> unit outcome" where
  "batch_body net domain stream m e page =
     (case snd (GetEvent (net (env_id e)) domain stream (env_id e) m) of
        Err err \<Rightarrow> (page, Err err)
      | Panic p \<Rightarrow> (page, Panic p)
      | Ok data \<Rightarrow> (page @ [\<lparr>wbp_meta = e, wbp_data = data\<rparr>], Ok ()))"

definition mem_QueryBatch ::
  "json_compare \<Rightarrow> gojq_parser \<Rightarrow> (int64 \<Rightarrow> goerror option) \<Rightarrow> goerror option \<Rightarrow> string \<Rightarrow> string
     \<Rightarrow> WireQuery \<Rightarrow> WireBatchResultPair list \<Rightarrow> memory \<Rightarrow> WireBatchResultPair list \<times> unit outcome" where
  "mem_QueryBatch compare gojq net netAll domain stream query page m =
     (case mem_Query compare gojq net netAll domain stream query
             \<lparr>wqr_filtered = False, wqr_subsetMatch = False, wqr_matching = []\<rparr> m of
        (_, Err err) \<Rightarrow> (page, Err err)
      | (_, Panic p) \<Rightarrow> (page, Panic p)
      | (results, Ok _) \<Rightarrow>
          (if \<not> wqr_subsetMatch results then (page, Panic ''subset required for batches'')
           else if \<not> wqr_filtered results then (page, Panic ''filtering required for batches'')
           else for_each (batch_body net domain stream m) (wqr_matching results) []))"

subsection \<open>\<open>QueryBatchR2\<close>\<close>

type_synonym r2_results = "WireBatchR2Dispatch list"

definition r2_emit ::
  "(int64 \<Rightarrow> goerror option) \<Rightarrow> string \<Rightarrow> string \<Rightarrow> memory \<Rightarrow> Envelope \<Rightarrow> int \<Rightarrow> (raw_message \<Rightarrow> bool)
     \<Rightarrow> r2_results \<Rightarrow> r2_results \<times> unit outcome" where
  "r2_emit net domain stream m e op test out =
     (case snd (GetEvent (net (env_id e)) domain stream (env_id e) m) of
        Err err \<Rightarrow> (out, Err err)
      | Panic p \<Rightarrow> (out, Panic p)
      | Ok data \<Rightarrow>
          (if test data then out @ [\<lparr>wbd_envelope = e, wbd_event = data, wbd_op = op\<rparr>] else out, Ok ()))"

definition matchKindClause ::
  "json_compare \<Rightarrow> (int64 \<Rightarrow> goerror option) \<Rightarrow> string \<Rightarrow> string \<Rightarrow> memory \<Rightarrow> Envelope
     \<Rightarrow> WireBatchR2KindQuery \<Rightarrow> r2_results \<Rightarrow> r2_results \<times> unit outcome" where
  "matchKindClause compare net domain stream m e onKind out =
     (case (case wbk_all onKind of
              None \<Rightarrow> (out, Ok ())
            | Some op \<Rightarrow> r2_emit net domain stream m e op (\<lambda>data. True) out) of
        (out', Ok _) \<Rightarrow>
          for_each (\<lambda>match. r2_emit net domain stream m e (wbm_op match)
                              (\<lambda>data. JSONIsSubset compare data (wbm_subset match)))
            (wbk_match onKind) out'
      | r \<Rightarrow> r)"

definition processEnvelopeForKinds ::
  "json_compare \<Rightarrow> (int64 \<Rightarrow> goerror option) \<Rightarrow> string \<Rightarrow> string \<Rightarrow> memory \<Rightarrow> WireBatchR2Request
     \<Rightarrow> Envelope \<Rightarrow> r2_results \<Rightarrow> r2_results \<times> unit outcome" where
  "processEnvelopeForKinds compare net domain stream m query e =
     for_each (\<lambda>onKind out.
         if wbk_kind onKind \<noteq> env_kind e then (out, Ok ())
         else matchKindClause compare net domain stream m e onKind out)
       (wbr_onKinds query)"

definition processEnvelopeForIDs ::
  "(int64 \<Rightarrow> goerror option) \<Rightarrow> string \<Rightarrow> string \<Rightarrow> memory \<Rightarrow> WireBatchR2Request
     \<Rightarrow> Envelope \<Rightarrow> r2_results \<Rightarrow> r2_results \<times> unit outcome" where
  "processEnvelopeForIDs net domain stream m query e =
     for_each (\<lambda>onID out.
         if env_id e \<noteq> wbi_id onID then (out, Ok ())
         else r2_emit net domain stream m e (wbi_op onID) (\<lambda>data. True) out)
       (wbr_onID query)"

definition mem_QueryBatchR2 ::
  "json_compare \<Rightarrow> (int64 \<Rightarrow> goerror option) \<Rightarrow> goerror option \<Rightarrow> string \<Rightarrow> string \<Rightarrow> WireBatchR2Request
     \<Rightarrow> r2_results \<Rightarrow> memory \<Rightarrow> r2_results \<times> unit outcome" where
  "mem_QueryBatchR2 compare net netAll domain stream query out m =
     (case snd (AllEnvelopes netAll domain stream m) of
        Err err \<Rightarrow> (out, Err err)
      | Panic p \<Rightarrow> (out, Panic p)
      | Ok envelopes \<Rightarrow>
          for_each (\<lambda>e out.
              if (case wbr_afterID query of Some a \<Rightarrow> env_id e \<le> a | None \<Rightarrow> False) then (out, Ok ())
              else case processEnvelopeForKinds compare net domain stream m query e out of
                     (out', Ok _) \<Rightarrow> processEnvelopeForIDs net domain stream m query e out'
                   | r \<Rightarrow> r)
            envelopes out)"

subsection \<open>The filter of a watch\<close>

text \<open>\<open>queryInFilter\<close>: \<open>send\<close> is the callback, which updates the state of its owner.\<close>

type_synonym 's sender = "int64 \<Rightarrow> Envelope \<Rightarrow> raw_message \<Rightarrow> 's \<Rightarrow> 's \<times> unit outcome"

definition qif_send ::
  "(int64 \<Rightarrow> goerror option) \<Rightarrow> QueryIn \<Rightarrow> memory \<Rightarrow> Envelope \<Rightarrow> int64 \<Rightarrow> (raw_message \<Rightarrow> bool)
     \<Rightarrow> 's sender \<Rightarrow> 's \<Rightarrow> 's \<times> unit outcome" where
  "qif_send net q m e op test send s =
     (case snd (GetEvent (net (env_id e)) (qi_domain q) (qi_stream q) (env_id e) m) of
        Err err \<Rightarrow> (s, Err err)
      | Panic p \<Rightarrow> (s, Panic p)
      | Ok data \<Rightarrow> (if test data then send op e data s else (s, Ok ())))"

definition processMatch ::
  "json_compare \<Rightarrow> (int64 \<Rightarrow> goerror option) \<Rightarrow> QueryIn \<Rightarrow> memory \<Rightarrow> 's sender \<Rightarrow> Envelope
     \<Rightarrow> OnKindSubsetMatch \<Rightarrow> 's \<Rightarrow> 's \<times> unit outcome" where
  "processMatch compare net q m send e match =
     qif_send net q m e (oks_op match) (\<lambda>data. JSONIsSubset compare data (oks_match match)) send"

definition processOnKind ::
  "json_compare \<Rightarrow> (int64 \<Rightarrow> goerror option) \<Rightarrow> QueryIn \<Rightarrow> memory \<Rightarrow> 's sender \<Rightarrow> Envelope
     \<Rightarrow> OnKindClause \<Rightarrow> 's \<Rightarrow> 's \<times> unit outcome" where
  "processOnKind compare net q m send e onKind s =
     (case (case okc_allOp onKind of
              None \<Rightarrow> (s, Ok ())
            | Some op \<Rightarrow> qif_send net q m e op (\<lambda>data. True) send s) of
        (s', Ok _) \<Rightarrow> for_each (processMatch compare net q m send e) (okc_subsets onKind) s'
      | r \<Rightarrow> r)"

definition queryInFilter_filter ::
  "json_compare \<Rightarrow> (int64 \<Rightarrow> goerror option) \<Rightarrow> QueryIn \<Rightarrow> memory \<Rightarrow> 's sender \<Rightarrow> Envelope
     \<Rightarrow> 's \<Rightarrow> 's \<times> unit outcome" where
  "queryInFilter_filter compare net q m send e s =
     (if (case qi_afterID q of Some a \<Rightarrow> env_id e \<le> a | None \<Rightarrow> False) then (s, Ok ())
      else for_each (\<lambda>onKind s.
               if okc_kind onKind \<noteq> env_kind e then (s, Ok ())
               else processOnKind compare net q m send e onKind s)
             (qi_onKind q) s)"


subsection \<open>What the queries mean\<close>

text \<open>The envelope of the event with number \<open>n\<close> of a log.\<close>

definition log_envelope :: "(time \<times> string \<times> json) list \<Rightarrow> nat \<Rightarrow> Envelope" where
  "log_envelope log n =
     \<lparr>env_id = int n, env_when = FormatEnvelopeWhen (fst (log ! n)), env_kind = fst (snd (log ! n))\<rparr>"

definition log_body :: "(time \<times> string \<times> json) list \<Rightarrow> nat \<Rightarrow> json" where
  "log_body log n = snd (snd (log ! n))"

definition after_ok :: "int64 option \<Rightarrow> int64 \<Rightarrow> bool" where
  "after_ok after i \<longleftrightarrow> (case after of None \<Rightarrow> True | Some a \<Rightarrow> a < i)"

definition matcher_holds :: "(string \<Rightarrow> string option) \<Rightarrow> WireMatcherV1 \<Rightarrow> bool" where
  "matcher_holds parser e \<longleftrightarrow> parser (string_join ''.'' (wm_property e)) = Some (hd (wm_value e))"

definition constraint_holds ::
  "json_compare \<Rightarrow> (json \<Rightarrow> string \<Rightarrow> string option) \<Rightarrow> KindConstraint \<Rightarrow> json \<Rightarrow> bool" where
  "constraint_holds compare parse c body \<longleftrightarrow>
     list_all (matcher_holds (parse body)) (kc_eq c)
     \<and> (kc_matchSubset c = None \<or> JSONIsSubset compare (Some body) (kc_matchSubset c))"

definition query_selects ::
  "json_compare \<Rightarrow> (json \<Rightarrow> string \<Rightarrow> string option) \<Rightarrow> WireQuery
     \<Rightarrow> (time \<times> string \<times> json) list \<Rightarrow> nat \<Rightarrow> bool" where
  "query_selects compare parse query log n \<longleftrightarrow>
     after_ok (wq_afterID query) (int n)
     \<and> (wq_kinds query = [] \<or>
        (case findMatchingConstraint (env_kind (log_envelope log n)) (wq_kinds query) of
           None \<Rightarrow> False
         | Some c \<Rightarrow> constraint_holds compare parse c (log_body log n)))"

definition well_formed_query :: "WireQuery \<Rightarrow> bool" where
  "well_formed_query query \<longleftrightarrow>
     list_all (\<lambda>c. list_all (\<lambda>e. wm_value e \<noteq> []) (kc_eq c)) (wq_kinds query)"

text \<open>The dispatches an R2 query asks for on one event.\<close>

definition r2_dispatches ::
  "json_compare \<Rightarrow> WireBatchR2Request \<Rightarrow> Envelope \<Rightarrow> json \<Rightarrow> int list" where
  "r2_dispatches compare query e body =
     (if after_ok (wbr_afterID query) (env_id e)
      then concat (map (\<lambda>k. (case wbk_all k of None \<Rightarrow> [] | Some op \<Rightarrow> [op])
                        @ map wbm_op (filter (\<lambda>mt. JSONIsSubset compare (Some body) (wbm_subset mt))
                                        (wbk_match k)))
                     (filter (\<lambda>k. wbk_kind k = env_kind e) (wbr_onKinds query)))
           @ map wbi_op (filter (\<lambda>i. wbi_id i = env_id e) (wbr_onID query))
      else [])"

subsection \<open>Lemmas\<close>

lemma AllEnvelopes_map:
  "find_stream d s m \<noteq> None \<Longrightarrow>
     snd (AllEnvelopes None d s m) =
       Ok (map (log_envelope (stream_log d s m)) [0..<length (stream_log d s m)])"
  by (simp add: AllEnvelopes_log log_envelope_def)

lemma GetEvent_envelope:
  "find_stream d s m \<noteq> None \<Longrightarrow> n < length (stream_log d s m) \<Longrightarrow>
     snd (GetEvent None d s (int n) m) = Ok (Some (log_body (stream_log d s m) n))"
  by (simp add: GetEvent_log log_body_def)

lemma log_envelope_id [simp]: "env_id (log_envelope log n) = int n"
  by (simp add: log_envelope_def)

lemma after_guard:
  "(case after of Some a \<Rightarrow> i \<le> a | None \<Rightarrow> False) \<longleftrightarrow> \<not> after_ok after i"
  by (auto simp: after_ok_def split: option.splits)

lemma match_properties_Ok:
  "list_all (\<lambda>e. wm_value e \<noteq> []) es \<Longrightarrow>
     match_properties parser es = Ok (list_all (matcher_holds parser) es)"
proof (induction es)
  case Nil
  then show ?case by simp
next
  case (Cons e es)
  then obtain v vs where "wm_value e = v # vs" by (cases "wm_value e") auto
  with Cons show ?case by (auto simp: matcher_holds_def split: option.splits)
qed

lemma findMatchingConstraint_mem:
  "findMatchingConstraint kind cs = Some c \<Longrightarrow> c \<in> set cs \<and> kc_kind c = kind"
  by (induction cs) (auto split: if_splits)

lemma filter_envelope_Ok:
  assumes "find_stream d s m \<noteq> None" "n < length (stream_log d s m)" "well_formed_query query"
    and "\<And>b. gojq (Some b) = Ok (parse b)"
  shows "filter_envelope compare gojq (memoryFilterLoader (\<lambda>_. None) d s m) query
           (log_envelope (stream_log d s m) n)
         = Ok (query_selects compare parse query (stream_log d s m) n)"
proof (cases "findMatchingConstraint (env_kind (log_envelope (stream_log d s m) n)) (wq_kinds query)")
  case None
  then show ?thesis by (auto simp: filter_envelope_def after_guard query_selects_def)
next
  case (Some c)
  with assms(3) findMatchingConstraint_mem[OF Some] have "list_all (\<lambda>e. wm_value e \<noteq> []) (kc_eq c)"
    by (auto simp: well_formed_query_def list_all_iff)
  moreover have "memoryFilterLoader (\<lambda>_. None) d s m (int n) = Ok (Some (log_body (stream_log d s m) n))"
    using assms(1,2) by (simp add: memoryFilterLoader_def GetEvent_envelope)
  ultimately have
    "applyEqFilter gojq (memoryFilterLoader (\<lambda>_. None) d s m) c (log_envelope (stream_log d s m) n)
       = Ok (list_all (matcher_holds (parse (log_body (stream_log d s m) n))) (kc_eq c))"
    "applySubsetFilter compare (memoryFilterLoader (\<lambda>_. None) d s m) c (log_envelope (stream_log d s m) n)
       = Ok (kc_matchSubset c = None
             \<or> JSONIsSubset compare (Some (log_body (stream_log d s m) n)) (kc_matchSubset c))"
    using assms(4)
    by (simp_all add: applyEqFilter_def applySubsetFilter_def filterMatchedProperties_def
          filterSubsetMatch_def match_properties_Ok hasEqConstraints_def hasSubsetConstraints_def)
       auto
  moreover have "wq_kinds query \<noteq> []" using findMatchingConstraint_mem[OF Some] by auto
  ultimately show ?thesis using Some
    by (simp add: filter_envelope_def after_guard query_selects_def constraint_holds_def)
qed

lemma fold_collect_matching:
  "fold (\<lambda>e out. if P e then out\<lparr>wqr_matching := wqr_matching out @ [e]\<rparr> else out) es out =
     out\<lparr>wqr_matching := wqr_matching out @ filter P es\<rparr>"
  by (induction es arbitrary: out) auto

lemma filter_map_index: "filter P (map f xs) = map f (filter (\<lambda>x. P (f x)) xs)"
  by (induction xs) auto

lemma mem_Query_eq:
  assumes "find_stream d s m \<noteq> None" "well_formed_query query"
    and gojq: "\<And>b. gojq (Some b) = Ok (parse b)"
  shows "mem_Query compare gojq (\<lambda>_. None) None d s query out m =
    (\<lparr>wqr_filtered = True, wqr_subsetMatch = True,
      wqr_matching = map (log_envelope (stream_log d s m))
        (filter (query_selects compare parse query (stream_log d s m)) [0..<length (stream_log d s m)])\<rparr>,
     Ok ())"
proof -
  let ?log = "stream_log d s m"
  let ?sel = "\<lambda>e. query_selects compare parse query ?log (nat (env_id e))"
  have "for_each (query_body compare gojq (memoryFilterLoader (\<lambda>_. None) d s m) query)
      (map (log_envelope ?log) [0..<length ?log]) o' =
      (fold (\<lambda>e out. if ?sel e then out\<lparr>wqr_matching := wqr_matching out @ [e]\<rparr> else out)
         (map (log_envelope ?log) [0..<length ?log]) o', Ok ())" for o'
    by (rule for_each_fold)
       (auto simp: query_body_def filter_envelope_Ok[of d s m _ query gojq parse compare] assms)
  then show ?thesis
    using assms(1)
    by (simp add: mem_Query_def AllEnvelopes_map fold_collect_matching filter_map_index)
qed

lemma r2_emit_Ok:
  "find_stream d s m \<noteq> None \<Longrightarrow> n < length (stream_log d s m) \<Longrightarrow>
     r2_emit (\<lambda>_. None) d s m (log_envelope (stream_log d s m) n) op test out =
       (out @ (if test (Some (log_body (stream_log d s m) n))
               then [\<lparr>wbd_envelope = log_envelope (stream_log d s m) n,
                      wbd_event = Some (log_body (stream_log d s m) n), wbd_op = op\<rparr>] else []), Ok ())"
  by (simp add: r2_emit_def GetEvent_envelope)

lemma for_each_append:
  assumes "\<And>x out. x \<in> set xs \<Longrightarrow> body x out = (out @ f x, Ok ())"
  shows "for_each body xs out = (out @ concat (map f xs), Ok ())"
  using for_each_fold[of xs body "\<lambda>x out. out @ f x" out] assms by (simp add: fold_append_concat)

lemma concat_map_if_filter:
  "concat (map (\<lambda>x. if P x then f x else []) xs) = concat (map f (filter P xs))"
  by (induction xs) auto

lemma mem_QueryBatchR2_eq:
  assumes "find_stream d s m \<noteq> None"
  shows "mem_QueryBatchR2 compare (\<lambda>_. None) None d s query out m =
    (out @ concat (map (\<lambda>n. map (\<lambda>op. \<lparr>wbd_envelope = log_envelope (stream_log d s m) n,
                                        wbd_event = Some (log_body (stream_log d s m) n), wbd_op = op\<rparr>)
                              (r2_dispatches compare query (log_envelope (stream_log d s m) n)
                                 (log_body (stream_log d s m) n)))
                     [0..<length (stream_log d s m)]), Ok ())"
proof -
  let ?log = "stream_log d s m"
  let ?disp = "\<lambda>n op. \<lparr>wbd_envelope = log_envelope ?log n, wbd_event = Some (log_body ?log n), wbd_op = op\<rparr>"
  let ?ok = "\<lambda>n mt. JSONIsSubset compare (Some (log_body ?log n)) (wbm_subset mt)"
  have clause: "matchKindClause compare (\<lambda>_. None) d s m (log_envelope ?log n) k out =
      (out @ map (?disp n) ((case wbk_all k of None \<Rightarrow> [] | Some op \<Rightarrow> [op])
              @ map wbm_op (filter (?ok n) (wbk_match k))), Ok ())"
    if "n < length ?log" for n k out
    using that assms
    by (subst matchKindClause_def, subst for_each_append[where
          f = "\<lambda>mt. if ?ok n mt then [?disp n (wbm_op mt)] else []"])
       (auto simp: r2_emit_Ok concat_map_if_filter split: option.splits)
  have kinds: "processEnvelopeForKinds compare (\<lambda>_. None) d s m query (log_envelope ?log n) out =
      (out @ concat (map (\<lambda>k. map (?disp n) ((case wbk_all k of None \<Rightarrow> [] | Some op \<Rightarrow> [op])
                 @ map wbm_op (filter (?ok n) (wbk_match k))))
               (filter (\<lambda>k. wbk_kind k = env_kind (log_envelope ?log n)) (wbr_onKinds query))), Ok ())"
    if "n < length ?log" for n out
    unfolding processEnvelopeForKinds_def concat_map_if_filter[symmetric]
    by (rule for_each_append) (simp add: clause that)
  have ids: "processEnvelopeForIDs (\<lambda>_. None) d s m query (log_envelope ?log n) out =
      (out @ concat (map (\<lambda>i. [?disp n (wbi_op i)])
               (filter (\<lambda>i. wbi_id i = int n) (wbr_onID query))), Ok ())"
    if "n < length ?log" for n out
    unfolding processEnvelopeForIDs_def concat_map_if_filter[symmetric]
    by (rule for_each_append) (simp add: r2_emit_Ok that assms)
  have "for_each (\<lambda>e out.
              if (case wbr_afterID query of Some a \<Rightarrow> env_id e \<le> a | None \<Rightarrow> False) then (out, Ok ())
              else case processEnvelopeForKinds compare (\<lambda>_. None) d s m query e out of
                     (out', Ok _) \<Rightarrow> processEnvelopeForIDs (\<lambda>_. None) d s m query e out'
                   | r \<Rightarrow> r)
            (map (log_envelope ?log) [0..<length ?log]) out =
      (out @ concat (map (\<lambda>e. map (?disp (nat (env_id e)))
           (r2_dispatches compare query e (log_body ?log (nat (env_id e)))))
         (map (log_envelope ?log) [0..<length ?log])), Ok ())"
    by (rule for_each_append)
       (auto simp: after_guard kinds ids r2_dispatches_def map_concat comp_def concat_map_singleton)
  with assms show ?thesis by (simp add: mem_QueryBatchR2_def AllEnvelopes_map comp_def)
qed


lemma QueryBatch_pages:
  assumes "find_stream d s m \<noteq> None" "set ns \<subseteq> {0..<length (stream_log d s m)}"
  shows "for_each (batch_body (\<lambda>_. None) d s m) (map (log_envelope (stream_log d s m)) ns) page =
    (page @ map (\<lambda>n. \<lparr>wbp_meta = log_envelope (stream_log d s m) n,
                      wbp_data = Some (log_body (stream_log d s m) n)\<rparr>) ns, Ok ())"
  using assms
  by (induction ns arbitrary: page) (auto simp: batch_body_def GetEvent_envelope)

subsection \<open>Properties\<close>

text \<open>
  C9. \<open>Query\<close> on the in-memory transport returns exactly the envelopes of the events that the
  query selects, in stream order: those after \<open>AfterID\<close> whose kind has a constraint (or any kind
  when there is none) whose equality and subset conditions the body meets. \<open>QueryBatch\<close> returns
  the same events with their bodies. (Parsing a stored body is assumed to work, and every matcher
  to carry a value.)
\<close>

theorem query_correct:
  assumes "find_stream d s m \<noteq> None" "well_formed_query query"
    and "\<And>b. gojq (Some b) = Ok (parse b)"
  shows "let log = stream_log d s m;
             hits = filter (query_selects compare parse query log) [0..<length log]
         in mem_Query compare gojq (\<lambda>_. None) None d s query out m =
              (\<lparr>wqr_filtered = True, wqr_subsetMatch = True, wqr_matching = map (log_envelope log) hits\<rparr>, Ok ())
          \<and> mem_QueryBatch compare gojq (\<lambda>_. None) None d s query page m =
              (map (\<lambda>n. \<lparr>wbp_meta = log_envelope log n, wbp_data = Some (log_body log n)\<rparr>) hits, Ok ())"
proof -
  have "set (filter (query_selects compare parse query (stream_log d s m)) [0..<length (stream_log d s m)])
      \<subseteq> {0..<length (stream_log d s m)}" by auto
  note QueryBatch_pages[OF assms(1) this, of "[]"]
  then show ?thesis using assms
    by (simp add: Let_def mem_QueryBatch_def mem_Query_eq[of d s m query gojq parse])
qed


subsection \<open>Witnesses\<close>

theorem query_correct_witness:
  "let m = fst (Submit (\<lambda>i. None) None 1 ''d'' ''s'' ''k'' (Ok (JNum 7)) []
             (fst (EnsureStream None ''d'' ''s'' NewMemoryTransport)));
       q = \<lparr>wq_kinds = [\<lparr>kc_kind = ''k'', kc_eq = [], kc_matchSubset = None\<rparr>], wq_afterID = None\<rparr>
   in wqr_matching (fst (mem_Query (\<lambda>a b. FullMatch) (\<lambda>b. Ok (\<lambda>p. None)) (\<lambda>_. None) None ''d'' ''s'' q
        \<lparr>wqr_filtered = False, wqr_subsetMatch = False, wqr_matching = []\<rparr> m))
      = map (log_envelope (stream_log ''d'' ''s'' m))
          (filter (query_selects (\<lambda>a b. FullMatch) (\<lambda>b p. None) q (stream_log ''d'' ''s'' m))
             [0..<length (stream_log ''d'' ''s'' m)])"
proof -
  let ?m = "fst (Submit (\<lambda>i. None) None 1 ''d'' ''s'' ''k'' (Ok (JNum 7)) []
             (fst (EnsureStream None ''d'' ''s'' NewMemoryTransport)))"
  let ?q = "\<lparr>wq_kinds = [\<lparr>kc_kind = ''k'', kc_eq = [], kc_matchSubset = None\<rparr>], wq_afterID = None\<rparr>"
  have found: "find_stream ''d'' ''s'' ?m \<noteq> None"
    by (simp add: Submit_keeps_streams find_EnsureStream del: not_None_eq)
  have wf: "well_formed_query ?q" by (simp add: well_formed_query_def)
  from query_correct[OF found wf, of "\<lambda>b. Ok (\<lambda>p. None)" "\<lambda>b p. None"] show ?thesis
    by (simp add: Let_def)
qed


end
