(* ===== verification/Storage.thy ===== *)
theory Storage
  imports ConsumerStore MemoryQuery
begin

text \<open>
  Events in Postgres: \<open>src/internal/service/storage.go\<close> and the query operations of
  \<open>src/internal/service/storage\<close>.

  The builder \<open>SQLQuery\<close> is modelled with the statement as a small abstract syntax in which a
  parameter is the number of its placeholder, as \<open>hole\<close> hands it out, and the arguments as the list
  the driver gets: what a placeholder stands for is looked up when the statement is evaluated.
  The columns \<open>stream_id\<close> and \<open>kind_id\<close> of \<open>events\<close> may be NULL (\<open>None\<close>); the inner joins drop such
  rows.

  \<open>sql_env\<close> is what the code relies on of Postgres and the driver: the containment operator \<open>@>\<close>, the
  path operator \<open>#>>\<close>, the order that \<open>ORDER BY when_occurred\<close> gives to a result (the order among
  equal times is open), statements that fail, a row that fails to scan, and a connection that breaks after
  some rows (then \<open>rows.Next\<close> is false and \<open>rows.Err\<close> has the error).
\<close>

text \<open>Arguments; \<open>VPath\<close> is the text array literal built from property names.\<close>

datatype sql_value = VText string | VInt int64 | VJson raw_message | VPath "string list"

record sql_row =
  sr_id :: int64
  sr_when :: time
  sr_op :: int
  sr_event :: json
  sr_kind :: string

record sql_env =
  se_fault :: faults
  se_contains :: "json \<Rightarrow> json \<Rightarrow> bool"
  se_path :: "json \<Rightarrow> string list \<Rightarrow> string option"
  se_order :: "sql_row list \<Rightarrow> sql_row list"
  se_scan :: "(nat \<times> goerror) option"
  se_cut :: "(nat \<times> goerror) option"

subsection \<open>Storing and reading\<close>

definition kind_id :: "string \<Rightarrow> db \<Rightarrow> int64 option" where
  "kind_id kind d = map_option ek_id (List.find (\<lambda>r. ek_kind r = kind) (db_kinds d))"

text \<open>\<open>INSERT INTO events_kind(kind) VALUES ($1) ON CONFLICT DO NOTHING\<close>\<close>

definition insert_kind :: "string \<Rightarrow> db \<Rightarrow> db" where
  "insert_kind kind d =
     (case kind_id kind d of
        Some _ \<Rightarrow> d\<lparr>db_kind_seq := db_kind_seq d + 1\<rparr>
      | None \<Rightarrow> d\<lparr>db_kinds := db_kinds d @ [\<lparr>ek_id = db_kind_seq d, ek_kind = kind\<rparr>],
                  db_kind_seq := db_kind_seq d + 1\<rparr>)"

definition insert_event :: "time \<Rightarrow> string \<Rightarrow> string \<Rightarrow> string \<Rightarrow> json \<Rightarrow> db \<Rightarrow> db" where
  "insert_event now app stream kind body d =
     d\<lparr>db_events := db_events d @ [\<lparr>ee_id = db_event_seq d, ee_stream_id = stream_id app stream d,
          ee_kind_id = kind_id kind d, ee_when = now, ee_event = body\<rparr>],
       db_event_seq := db_event_seq d + 1\<rparr>"

text \<open>
  \<open>Query\<close> reports an error at once when the statement cannot be sent, but an error of its execution
  only through the rows: the execution error of the first statement is not looked at, that of the second
  shows as a missing row.
\<close>

definition unsafeStoreWith ::
  "faults \<Rightarrow> time \<Rightarrow> string \<Rightarrow> string \<Rightarrow> string \<Rightarrow> json \<Rightarrow> db \<Rightarrow> db \<times> int64 outcome" where
  "unsafeStoreWith fault now app stream kind body d =
     (case fault ''insert kind'' of
        Some e \<Rightarrow> (d, Err e)
      | None \<Rightarrow>
          (let d1 = (case fault ''insert kind execution'' of Some _ \<Rightarrow> d | None \<Rightarrow> insert_kind kind d)
           in case fault ''insert event'' of
                Some e \<Rightarrow> (d1, Err e)
              | None \<Rightarrow>
                  (case fault ''insert event execution'' of
                     Some _ \<Rightarrow> (d1, Err (TextError ''programmatic error: query should have returned result''))
                   | None \<Rightarrow>
                       (insert_event now app stream kind body d1,
                        case fault ''scan event id'' of Some e \<Rightarrow> Err e | None \<Rightarrow> Ok (db_event_seq d1)))))"

definition unsafeStore ::
  "faults \<Rightarrow> time \<Rightarrow> string \<Rightarrow> string \<Rightarrow> string \<Rightarrow> json \<Rightarrow> db \<Rightarrow> db \<times> int64 outcome" where
  "unsafeStore = unsafeStoreWith"

definition ensureStream :: "faults \<Rightarrow> string \<Rightarrow> string \<Rightarrow> db \<Rightarrow> db \<times> unit outcome" where
  "ensureStream fault app stream d =
     (case fault ''ensure stream'' of
        Some e \<Rightarrow> (d, Err e)
      | None \<Rightarrow>
          (case fault ''ensure stream execution'' of
             Some _ \<Rightarrow> (d, Ok ())
           | None \<Rightarrow>
               (case stream_id app stream d of
                  Some _ \<Rightarrow> (d\<lparr>db_stream_seq := db_stream_seq d + 1\<rparr>, Ok ())
                | None \<Rightarrow> (d\<lparr>db_streams := db_streams d @ [\<lparr>es_id = db_stream_seq d, es_app = app, es_stream = stream\<rparr>],
                             db_stream_seq := db_stream_seq d + 1\<rparr>, Ok ()))))"

definition fetchPayload :: "faults \<Rightarrow> string \<Rightarrow> string \<Rightarrow> int64 \<Rightarrow> db \<Rightarrow> json outcome" where
  "fetchPayload fault app stream i d =
     (case fault ''fetch payload'' of
        Some e \<Rightarrow> Err e
      | None \<Rightarrow>
          (case filter (\<lambda>e. ee_id e = i \<and> stream_id app stream d \<noteq> None \<and> ee_stream_id e = stream_id app stream d)
                  (db_events d) of
             [] \<Rightarrow> Err (NoSuchIDError app stream i)
           | e # _ \<Rightarrow> (case fault ''scan payload'' of Some err \<Rightarrow> Err err | None \<Rightarrow> Ok (ee_event e))))"

subsection \<open>The statement builder\<close>

datatype sql_cond =
    AppIs nat
  | StreamIs nat
  | KindIs nat
  | IdIs nat
  | IdAfter nat
  | EventContains nat
  | PathIn nat "nat list"

record sql_select =
  ss_op :: int
  ss_where :: "sql_cond list"

record SQLQuery =
  sq_selects :: "sql_select list"
  sq_args :: "sql_value list"

definition empty_query :: SQLQuery where
  "empty_query = \<lparr>sq_selects = [], sq_args = []\<rparr>"

definition hole :: "sql_value \<Rightarrow> SQLQuery \<Rightarrow> nat \<times> SQLQuery" where
  "hole what q = (Suc (length (sq_args q)), q\<lparr>sq_args := sq_args q @ [what]\<rparr>)"

definition add_select :: "int \<Rightarrow> sql_cond list \<Rightarrow> SQLQuery \<Rightarrow> SQLQuery" where
  "add_select op conds q = q\<lparr>sq_selects := sq_selects q @ [\<lparr>ss_op = op, ss_where = conds\<rparr>]\<rparr>"

record EachKind =
  ek_app :: string
  ek_streamName :: string
  ek_op :: int
  ek_kindName :: string
  ek_afterID :: int64

record MatchSubset =
  ms_app :: string
  ms_stream :: string
  ms_op :: int
  ms_kind :: string
  ms_subset :: raw_message
  ms_afterID :: int64

record matchID =
  mi_app :: string
  mi_stream :: string
  mi_id :: int64
  mi_op :: int

record AllStreamEvents =
  as_domain :: string
  as_stream :: string
  as_op :: int
  as_afterID :: int64

definition EachKind_append :: "EachKind \<Rightarrow> SQLQuery \<Rightarrow> SQLQuery" where
  "EachKind_append e q =
     (let (h1, q1) = hole (VText (ek_app e)) q; (h2, q2) = hole (VText (ek_streamName e)) q1;
          (h3, q3) = hole (VText (ek_kindName e)) q2; conds = [AppIs h1, StreamIs h2, KindIs h3]
      in if ek_afterID e > 0
         then (let (h4, q4) = hole (VInt (ek_afterID e)) q3 in add_select (ek_op e) (conds @ [IdAfter h4]) q4)
         else add_select (ek_op e) conds q3)"

definition MatchSubset_append :: "MatchSubset \<Rightarrow> SQLQuery \<Rightarrow> SQLQuery" where
  "MatchSubset_append m q =
     (let (h1, q1) = hole (VText (ms_app m)) q; (h2, q2) = hole (VText (ms_stream m)) q1;
          (h3, q3) = hole (VText (ms_kind m)) q2; (h4, q4) = hole (VJson (ms_subset m)) q3;
          conds = [AppIs h1, StreamIs h2, KindIs h3, EventContains h4]
      in if ms_afterID m > 0
         then (let (h5, q5) = hole (VInt (ms_afterID m)) q4 in add_select (ms_op m) (conds @ [IdAfter h5]) q5)
         else add_select (ms_op m) conds q4)"

definition matchID_append :: "matchID \<Rightarrow> SQLQuery \<Rightarrow> SQLQuery" where
  "matchID_append m q =
     (let (h1, q1) = hole (VText (mi_app m)) q; (h2, q2) = hole (VText (mi_stream m)) q1;
          (h3, q3) = hole (VInt (mi_id m)) q2
      in add_select (mi_op m) [AppIs h1, StreamIs h2, IdIs h3] q3)"

definition AllStreamEvents_append :: "AllStreamEvents \<Rightarrow> SQLQuery \<Rightarrow> SQLQuery" where
  "AllStreamEvents_append a q =
     (let (h1, q1) = hole (VText (as_domain a)) q; (h2, q2) = hole (VText (as_stream a)) q1;
          conds = [AppIs h1, StreamIs h2]
      in if as_afterID a > 0
         then (let (h3, q3) = hole (VInt (as_afterID a)) q2 in add_select (as_op a) (conds @ [IdAfter h3]) q3)
         else add_select (as_op a) conds q2)"

text \<open>The interface \<open>Operation\<close>: its implementations, \<open>append\<close> and \<open>UpdateAfterID\<close>.\<close>

datatype Operation = OpEachKind EachKind | OpMatchSubset MatchSubset | OpMatchID matchID | OpAll AllStreamEvents

fun op_append :: "Operation \<Rightarrow> SQLQuery \<Rightarrow> SQLQuery" where
  "op_append (OpEachKind e) = EachKind_append e"
| "op_append (OpMatchSubset m) = MatchSubset_append m"
| "op_append (OpMatchID m) = matchID_append m"
| "op_append (OpAll a) = AllStreamEvents_append a"

fun UpdateAfterID :: "int64 \<Rightarrow> Operation \<Rightarrow> Operation" where
  "UpdateAfterID i (OpEachKind e) = OpEachKind (e\<lparr>ek_afterID := i\<rparr>)"
| "UpdateAfterID i (OpMatchSubset m) = OpMatchSubset (m\<lparr>ms_afterID := i\<rparr>)"
| "UpdateAfterID i (OpMatchID m) = OpMatchID m"
| "UpdateAfterID i (OpAll a) = OpAll (a\<lparr>as_afterID := i\<rparr>)"

definition TranslateBatchR2 :: "string \<Rightarrow> string \<Rightarrow> WireBatchR2Request \<Rightarrow> Operation list" where
  "TranslateBatchR2 app stream request =
     (let afterID = (case wbr_afterID request of Some a \<Rightarrow> a | None \<Rightarrow> 0)
      in concat (map (\<lambda>kind.
             (case wbk_all kind of
                Some op \<Rightarrow> [OpEachKind \<lparr>ek_app = app, ek_streamName = stream, ek_op = op, ek_kindName = wbk_kind kind,
                              ek_afterID = afterID\<rparr>]
              | None \<Rightarrow> [])
             @ map (\<lambda>match. OpMatchSubset \<lparr>ms_app = app, ms_stream = stream, ms_op = wbm_op match,
                       ms_kind = wbk_kind kind, ms_subset = wbm_subset match, ms_afterID = afterID\<rparr>)
                 (wbk_match kind)) (wbr_onKinds request))
         @ map (\<lambda>i. OpMatchID \<lparr>mi_app = app, mi_stream = stream, mi_id = wbi_id i, mi_op = wbi_op i\<rparr>)
             (wbr_onID request))"

subsection \<open>Evaluating a statement\<close>

text \<open>The joined row of an event: its kind and its stream.\<close>

definition join_event :: "db \<Rightarrow> event_row \<Rightarrow> (kind_row \<times> stream_row) option" where
  "join_event d e =
     (case (List.find (\<lambda>k. ee_kind_id e = Some (ek_id k)) (db_kinds d),
            List.find (\<lambda>s. ee_stream_id e = Some (es_id s)) (db_streams d)) of
        (Some k, Some s) \<Rightarrow> Some (k, s)
      | _ \<Rightarrow> None)"

definition arg :: "sql_value list \<Rightarrow> nat \<Rightarrow> sql_value option" where
  "arg args h = (if 1 \<le> h \<and> h \<le> length args then Some (args ! (h - 1)) else None)"

fun cond_holds :: "sql_env \<Rightarrow> sql_value list \<Rightarrow> event_row \<Rightarrow> kind_row \<Rightarrow> stream_row \<Rightarrow> sql_cond \<Rightarrow> bool" where
  "cond_holds env args e k s (AppIs h) = (arg args h = Some (VText (es_app s)))"
| "cond_holds env args e k s (StreamIs h) = (arg args h = Some (VText (es_stream s)))"
| "cond_holds env args e k s (KindIs h) = (arg args h = Some (VText (ek_kind k)))"
| "cond_holds env args e k s (IdIs h) = (arg args h = Some (VInt (ee_id e)))"
| "cond_holds env args e k s (IdAfter h) = (case arg args h of Some (VInt i) \<Rightarrow> i < ee_id e | _ \<Rightarrow> False)"
| "cond_holds env args e k s (EventContains h) =
     (case arg args h of Some (VJson (Some doc)) \<Rightarrow> se_contains env (ee_event e) doc | _ \<Rightarrow> False)"
| "cond_holds env args e k s (PathIn p hs) =
     (case arg args p of
        Some (VPath path) \<Rightarrow>
          (case se_path env (ee_event e) path of
             Some v \<Rightarrow> list_ex (\<lambda>h. arg args h = Some (VText v)) hs
           | None \<Rightarrow> False)
      | _ \<Rightarrow> False)"

definition result_row :: "int \<Rightarrow> event_row \<Rightarrow> kind_row \<Rightarrow> sql_row" where
  "result_row op e k = \<lparr>sr_id = ee_id e, sr_when = ee_when e, sr_op = op, sr_event = ee_event e, sr_kind = ek_kind k\<rparr>"

definition select_rows :: "sql_env \<Rightarrow> sql_value list \<Rightarrow> db \<Rightarrow> sql_select \<Rightarrow> sql_row list" where
  "select_rows env args d sel =
     List.map_filter (\<lambda>e. case join_event d e of
         None \<Rightarrow> None
       | Some (k, s) \<Rightarrow>
           (if list_all (cond_holds env args e k s) (ss_where sel) then Some (result_row (ss_op sel) e k) else None))
       (db_events d)"

record OperationResult =
  or_op :: int
  or_envelope :: Envelope
  or_event :: json

definition present :: "sql_row \<Rightarrow> OperationResult" where
  "present r = \<lparr>or_op = sr_op r,
     or_envelope = \<lparr>env_id = sr_id r, env_when = FormatEnvelopeWhen (sr_when r), env_kind = sr_kind r\<rparr>,
     or_event = sr_event r\<rparr>"

text \<open>
  \<open>Stream\<close>: what the iterator yields, results and then perhaps an error. An error of the connection ends
  the iteration like the end of the rows.
\<close>

definition Repository_Stream :: "sql_env \<Rightarrow> db \<Rightarrow> Operation list \<Rightarrow> OperationResult list \<times> goerror option" where
  "Repository_Stream env d ops =
     (if ops = [] then ([], Some (TextError ''no target operations''))
      else let q = fold op_append ops empty_query
           in case se_fault env ''query'' of
                Some e \<Rightarrow> ([], Some e)
              | None \<Rightarrow>
                  (let rows = se_order env (concat (map (select_rows env (sq_args q) d) (sq_selects q)));
                       got = (case se_cut env of None \<Rightarrow> rows | Some (n, _) \<Rightarrow> take n rows)
                   in case se_scan env of
                        Some (n, e) \<Rightarrow>
                          (if n < length got then (map present (take n got), Some e) else (map present got, None))
                      | None \<Rightarrow> (map present got, None)))"

subsection \<open>Wire queries\<close>

text \<open>
  The statement of \<open>TranslateQuery\<close>: conditions that all hold and, when there are kind constraints, a
  disjunction of conjunctions. An \<open>IN\<close> list is written without commas, so a list that does not have
  exactly one value is a syntax error, which the driver reports when the statement is sent.
\<close>

record filter_query =
  fq_where :: "sql_cond list"
  fq_any :: "sql_cond list list"
  fq_args :: "sql_value list"

fun translate_values :: "string list \<Rightarrow> SQLQuery \<Rightarrow> nat list \<times> SQLQuery" where
  "translate_values [] q = ([], q)"
| "translate_values (v # vs) q =
     (let (h, q1) = hole (VText v) q; (hs, q2) = translate_values vs q1 in (h # hs, q2))"

fun translate_matchers :: "WireMatcherV1 list \<Rightarrow> SQLQuery \<Rightarrow> sql_cond list \<times> SQLQuery" where
  "translate_matchers [] q = ([], q)"
| "translate_matchers (c # cs) q =
     (let (p, q1) = hole (VPath (wm_property c)) q; (hs, q2) = translate_values (wm_value c) q1;
          (conds, q3) = translate_matchers cs q2
      in (PathIn p hs # conds, q3))"

definition translateKindConstraint :: "KindConstraint \<Rightarrow> SQLQuery \<Rightarrow> sql_cond list \<times> SQLQuery" where
  "translateKindConstraint constraint q =
     (let (h, q1) = hole (VText (kc_kind constraint)) q; (eqs, q2) = translate_matchers (kc_eq constraint) q1
      in case kc_matchSubset constraint of
           None \<Rightarrow> (KindIs h # eqs, q2)
         | Some doc \<Rightarrow> (let (s, q3) = hole (VJson (Some doc)) q2 in (KindIs h # eqs @ [EventContains s], q3)))"

fun translate_constraints :: "KindConstraint list \<Rightarrow> SQLQuery \<Rightarrow> sql_cond list list \<times> SQLQuery" where
  "translate_constraints [] q = ([], q)"
| "translate_constraints (k # ks) q =
     (let (c, q1) = translateKindConstraint k q; (cs, q2) = translate_constraints ks q1 in (c # cs, q2))"

definition TranslateQuery :: "string \<Rightarrow> string \<Rightarrow> WireQuery \<Rightarrow> filter_query" where
  "TranslateQuery app stream input =
     (let (h1, q1) = hole (VText app) empty_query; (h2, q2) = hole (VText stream) q1;
          (after, q3) = (case wq_afterID input of
              Some a \<Rightarrow> (let (h, q) = hole (VInt a) q2 in ([IdAfter h], q))
            | None \<Rightarrow> ([], q2));
          (any, q4) = translate_constraints (wq_kinds input) q3
      in \<lparr>fq_where = [AppIs h1, StreamIs h2] @ after, fq_any = any, fq_args = sq_args q4\<rparr>)"

fun cond_syntax :: "sql_cond \<Rightarrow> bool" where
  "cond_syntax (PathIn p hs) = (length hs = 1)"
| "cond_syntax c = True"

definition filter_rows :: "sql_env \<Rightarrow> db \<Rightarrow> filter_query \<Rightarrow> sql_row list" where
  "filter_rows env d q =
     List.map_filter (\<lambda>e. case join_event d e of
         None \<Rightarrow> None
       | Some (k, s) \<Rightarrow>
           (if list_all (cond_holds env (fq_args q) e k s) (fq_where q)
               \<and> (fq_any q = [] \<or> list_ex (list_all (cond_holds env (fq_args q) e k s)) (fq_any q))
            then Some (result_row 0 e k) else None))
       (db_events d)"

text \<open>
  \<open>dispatchRowMeta\<close>: the callback on each row until a row fails to scan, the callback fails or the rows
  end; here an error of the connection is reported.
\<close>

definition dispatchRowMeta ::
  "sql_env \<Rightarrow> (sql_row \<Rightarrow> 's \<Rightarrow> 's \<times> unit outcome) \<Rightarrow> sql_row list \<Rightarrow> 's \<Rightarrow> 's \<times> unit outcome" where
  "dispatchRowMeta env onEvent rows s =
     (let got = (case se_cut env of None \<Rightarrow> rows | Some (n, _) \<Rightarrow> take n rows);
          read = (case se_scan env of None \<Rightarrow> got | Some (n, _) \<Rightarrow> take n got)
      in case for_each onEvent read s of
           (s', Err e) \<Rightarrow> (s', Err e)
         | (s', Panic p) \<Rightarrow> (s', Panic p)
         | (s', Ok _) \<Rightarrow>
             (case se_scan env of
                Some (n, e) \<Rightarrow>
                  (if n < length got then (s', Err e)
                   else (s', case se_cut env of Some (_, c) \<Rightarrow> Err c | None \<Rightarrow> Ok ()))
              | None \<Rightarrow> (s', case se_cut env of Some (_, c) \<Rightarrow> Err c | None \<Rightarrow> Ok ())))"

definition applyQuery ::
  "sql_env \<Rightarrow> db \<Rightarrow> string \<Rightarrow> string \<Rightarrow> WireQuery \<Rightarrow> (sql_row \<Rightarrow> 's \<Rightarrow> 's \<times> unit outcome) \<Rightarrow> 's \<Rightarrow> 's \<times> unit outcome" where
  "applyQuery env d app stream params onEvent s =
     (let q = TranslateQuery app stream params
      in if \<not> list_all (list_all cond_syntax) (fq_any q) then (s, Err (DriverError ''syntax error''))
         else case se_fault env ''query'' of
                Some e \<Rightarrow> (s, Err e)
              | None \<Rightarrow> dispatchRowMeta env onEvent (se_order env (filter_rows env d q)) s)"

definition presentMetaAsEnvelope :: "sql_row \<Rightarrow> Envelope" where
  "presentMetaAsEnvelope r =
     \<lparr>env_id = sr_id r, env_when = FormatEnvelopeWhen (sr_when r), env_kind = sr_kind r\<rparr>"

text \<open>The replies of the HTTP routes; an error is the reply of \<open>restful.InternalError\<close>.\<close>

definition v1QueryRoute :: "sql_env \<Rightarrow> db \<Rightarrow> string \<Rightarrow> string \<Rightarrow> WireQuery \<Rightarrow> WireQueryResult outcome" where
  "v1QueryRoute env d app stream query =
     (case applyQuery env d app stream query
             (\<lambda>r response. (response\<lparr>wqr_matching := wqr_matching response @ [presentMetaAsEnvelope r]\<rparr>, Ok ()))
             \<lparr>wqr_filtered = True, wqr_subsetMatch = True, wqr_matching = []\<rparr> of
        (_, Err e) \<Rightarrow> Err e
      | (_, Panic p) \<Rightarrow> Panic p
      | (response, Ok _) \<Rightarrow> Ok response)"

definition v1QueryBatchRoute ::
  "sql_env \<Rightarrow> db \<Rightarrow> string \<Rightarrow> string \<Rightarrow> WireQuery \<Rightarrow> WireBatchResultPair list outcome" where
  "v1QueryBatchRoute env d app stream query =
     (case applyQuery env d app stream query
             (\<lambda>r page. (page @ [\<lparr>wbp_meta = presentMetaAsEnvelope r, wbp_data = Some (sr_event r)\<rparr>], Ok ())) [] of
        (_, Err e) \<Rightarrow> Err e
      | (_, Panic p) \<Rightarrow> Panic p
      | (page, Ok _) \<Rightarrow> Ok page)"

definition v1QueryBatchR2Route ::
  "sql_env \<Rightarrow> db \<Rightarrow> string \<Rightarrow> string \<Rightarrow> WireBatchR2Request \<Rightarrow> WireBatchR2Dispatch list outcome" where
  "v1QueryBatchR2Route env d app stream query =
     (let operations = TranslateBatchR2 app stream query
      in if operations = [] then Ok []
         else case Repository_Stream env d operations of
                (_, Some e) \<Rightarrow> Err e
              | (rs, None) \<Rightarrow>
                  Ok (map (\<lambda>r. \<lparr>wbd_envelope = or_envelope r, wbd_event = Some (or_event r), wbd_op = or_op r\<rparr>) rs))"

text \<open>\<open>replayMeta\<close> and the route that lists a stream; errors of the connection are not looked at.\<close>

definition replayMeta :: "sql_env \<Rightarrow> db \<Rightarrow> string \<Rightarrow> string \<Rightarrow> sql_row list \<times> goerror option" where
  "replayMeta env d app stream =
     (case se_fault env ''query'' of
        Some e \<Rightarrow> ([], Some e)
      | None \<Rightarrow>
          (let rows = se_order env (List.map_filter (\<lambda>e.
                 case (stream_id app stream d, List.find (\<lambda>k. ee_kind_id e = Some (ek_id k)) (db_kinds d)) of
                   (Some sid, Some k) \<Rightarrow> (if ee_stream_id e = Some sid then Some (result_row 0 e k) else None)
                 | _ \<Rightarrow> None) (db_events d));
               got = (case se_cut env of None \<Rightarrow> rows | Some (n, _) \<Rightarrow> take n rows)
           in case se_scan env of
                Some (n, e) \<Rightarrow> (if n < length got then (take n got, Some e) else (got, None))
              | None \<Rightarrow> (got, None)))"

definition v1QueryAllEnvelopes :: "sql_env \<Rightarrow> db \<Rightarrow> string \<Rightarrow> string \<Rightarrow> Envelope list outcome" where
  "v1QueryAllEnvelopes env d app stream =
     (case replayMeta env d app stream of
        (_, Some e) \<Rightarrow> Err e
      | (rows, None) \<Rightarrow> Ok (map presentMetaAsEnvelope rows))"

subsection \<open>Specification\<close>

text \<open>The events of a stream that a statement can see: identifier, time, kind and body, in table order.\<close>

definition pg_events :: "db \<Rightarrow> string \<Rightarrow> string \<Rightarrow> (int64 \<times> time \<times> string \<times> json) list" where
  "pg_events d app str =
     List.map_filter (\<lambda>e. case join_event d e of
         Some (k, s) \<Rightarrow> (if es_app s = app \<and> es_stream s = str then Some (ee_id e, ee_when e, ek_kind k, ee_event e) else None)
       | None \<Rightarrow> None) (db_events d)"

text \<open>The result of an operation for an event.\<close>

fun op_key :: "Operation \<Rightarrow> string \<times> string" where
  "op_key (OpEachKind e) = (ek_app e, ek_streamName e)"
| "op_key (OpMatchSubset m) = (ms_app m, ms_stream m)"
| "op_key (OpMatchID m) = (mi_app m, mi_stream m)"
| "op_key (OpAll a) = (as_domain a, as_stream a)"

fun op_number :: "Operation \<Rightarrow> int" where
  "op_number (OpEachKind e) = ek_op e"
| "op_number (OpMatchSubset m) = ms_op m"
| "op_number (OpMatchID m) = mi_op m"
| "op_number (OpAll a) = as_op a"

fun op_selects :: "sql_env \<Rightarrow> Operation \<Rightarrow> int64 \<Rightarrow> string \<Rightarrow> json \<Rightarrow> bool" where
  "op_selects env (OpEachKind e) i kind body \<longleftrightarrow> kind = ek_kindName e \<and> (ek_afterID e > 0 \<longrightarrow> ek_afterID e < i)"
| "op_selects env (OpMatchSubset m) i kind body \<longleftrightarrow> kind = ms_kind m
     \<and> (case ms_subset m of None \<Rightarrow> False | Some doc \<Rightarrow> se_contains env body doc) \<and> (ms_afterID m > 0 \<longrightarrow> ms_afterID m < i)"
| "op_selects env (OpMatchID m) i kind body \<longleftrightarrow> i = mi_id m"
| "op_selects env (OpAll a) i kind body \<longleftrightarrow> (as_afterID a > 0 \<longrightarrow> as_afterID a < i)"

text \<open>\<open>ORDER BY when_occurred\<close>: some arrangement of the rows by time.\<close>

definition orders_by_when :: "sql_env \<Rightarrow> bool" where
  "orders_by_when env \<longleftrightarrow>
     (\<forall>rows. mset (se_order env rows) = mset rows \<and> sorted (map sr_when (se_order env rows)))"

definition sound_connection :: "sql_env \<Rightarrow> bool" where
  "sound_connection env \<longleftrightarrow> se_fault env = no_faults \<and> se_scan env = None \<and> se_cut env = None"

subsection \<open>Lemmas\<close>

lemma arg_append: "h \<le> length args \<Longrightarrow> arg (args @ rest) h = arg args h"
  by (auto simp: arg_def nth_append)

lemma arg_last: "arg (args @ v # rest) (Suc (length args)) = Some v"
  by (simp add: arg_def nth_append)

lemma arg_holes:
  "arg (args @ [a]) (Suc (length args)) = Some a"
  "arg (args @ a # b # rest) (Suc (Suc (length args))) = Some b"
  "arg (args @ a # b # c # rest) (Suc (Suc (Suc (length args)))) = Some c"
  "arg (args @ a # b # c # x # rest) (Suc (Suc (Suc (Suc (length args))))) = Some x"
  "arg (args @ a # b # c # x # y # rest) (Suc (Suc (Suc (Suc (Suc (length args)))))) = Some y"
  by (simp_all add: arg_def nth_append)

text \<open>An operation adds one select whose placeholders stand for the operation's own values, whatever is added later.\<close>

lemma op_append_spec:
  "\<exists>sel vs. op_append op q = \<lparr>sq_selects = sq_selects q @ [sel], sq_args = sq_args q @ vs\<rparr> \<and> ss_op sel = op_number op
     \<and> (\<forall>rest e k s. list_all (cond_holds env (sq_args q @ vs @ rest) e k s) (ss_where sel) \<longleftrightarrow>
          op_key op = (es_app s, es_stream s) \<and> op_selects env op (ee_id e) (ek_kind k) (ee_event e))"
  by (cases q; cases op)
     (auto simp: EachKind_append_def MatchSubset_append_def matchID_append_def AllStreamEvents_append_def hole_def
       add_select_def Let_def arg_last arg_holes split: option.splits)

text \<open>A select, with the given arguments, is the operation.\<close>

definition implements :: "sql_env \<Rightarrow> sql_value list \<Rightarrow> Operation \<Rightarrow> sql_select \<Rightarrow> bool" where
  "implements env args op sel \<longleftrightarrow> ss_op sel = op_number op
     \<and> (\<forall>e k s. list_all (cond_holds env args e k s) (ss_where sel) \<longleftrightarrow>
          op_key op = (es_app s, es_stream s) \<and> op_selects env op (ee_id e) (ek_kind k) (ee_event e))"

lemma fold_op_append:
  "\<exists>sels vs. fold op_append ops q = \<lparr>sq_selects = sq_selects q @ sels, sq_args = sq_args q @ vs\<rparr>
     \<and> (\<forall>rest. list_all2 (implements env (sq_args q @ vs @ rest)) ops sels)"
proof (induction ops arbitrary: q)
  case Nil
  show ?case by (cases q) simp
next
  case (Cons op ops)
  obtain sel vs where 1: "op_append op q = \<lparr>sq_selects = sq_selects q @ [sel], sq_args = sq_args q @ vs\<rparr>"
    "\<And>rest. implements env (sq_args q @ vs @ rest) op sel"
    using op_append_spec[of op q env] unfolding implements_def by blast
  let ?q = "\<lparr>sq_selects = sq_selects q @ [sel], sq_args = sq_args q @ vs\<rparr>"
  from Cons.IH[of ?q] obtain sels ws where
    2: "fold op_append ops ?q = \<lparr>sq_selects = sq_selects ?q @ sels, sq_args = sq_args ?q @ ws\<rparr>"
    "\<And>rest. list_all2 (implements env (sq_args ?q @ ws @ rest)) ops sels" by blast
  show ?case
    by (rule exI[of _ "sel # sels"], rule exI[of _ "vs @ ws"]) (use 1 2 in simp)
qed

text \<open>The rows of an operation, from the specification.\<close>

definition op_rows :: "sql_env \<Rightarrow> db \<Rightarrow> Operation \<Rightarrow> sql_row list" where
  "op_rows env d op =
     map (\<lambda>(i, t, kind, body). \<lparr>sr_id = i, sr_when = t, sr_op = op_number op, sr_event = body, sr_kind = kind\<rparr>)
       (filter (\<lambda>(i, t, kind, body). op_selects env op i kind body) (pg_events d (fst (op_key op)) (snd (op_key op))))"

lemma map_filter_filter:
  "map f (filter P (List.map_filter g xs)) =
     List.map_filter (\<lambda>x. case g x of Some y \<Rightarrow> (if P y then Some (f y) else None) | None \<Rightarrow> None) xs"
  by (induction xs) (auto simp: List.map_filter_simps split: option.splits)

lemma map_filter_cong: "(\<And>x. x \<in> set xs \<Longrightarrow> f x = g x) \<Longrightarrow> List.map_filter f xs = List.map_filter g xs"
  by (induction xs) (auto simp: List.map_filter_simps split: option.splits)

lemma select_rows_eq:
  assumes "implements env args op sel"
  shows "select_rows env args d sel = op_rows env d op"
  unfolding select_rows_def op_rows_def pg_events_def map_filter_filter
  using assms by (intro map_filter_cong) (auto simp: implements_def result_row_def split: option.splits prod.splits)

lemma built_rows:
  "map (select_rows env (sq_args (fold op_append ops empty_query)) d) (sq_selects (fold op_append ops empty_query)) =
     map (op_rows env d) ops"
proof -
  from fold_op_append[of ops empty_query env] obtain sels vs where
    f: "fold op_append ops empty_query = \<lparr>sq_selects = sels, sq_args = vs\<rparr>"
    "list_all2 (implements env vs) ops sels"
    by (fastforce simp: empty_query_def dest: spec[of _ "[]"])
  from f(2) have "map (select_rows env vs d) sels = map (op_rows env d) ops"
    by (induction rule: list_all2_induct) (auto intro: select_rows_eq)
  with f(1) show ?thesis by simp
qed

lemma Stream_eq:
  assumes "sound_connection env" "ops \<noteq> []"
  shows "Repository_Stream env d ops = (map present (se_order env (concat (map (op_rows env d) ops))), None)"
  using assms by (simp add: Repository_Stream_def sound_connection_def Let_def built_rows)

text \<open>Whatever fails, the results are rows of the operations.\<close>

lemma Stream_sound:
  assumes "r \<in> set (fst (Repository_Stream env d ops))"
  shows "\<exists>row \<in> set (se_order env (concat (map (op_rows env d) ops))). r = present row"
  using assms unfolding Repository_Stream_def Let_def built_rows
  by (auto split: if_splits option.splits prod.splits dest!: in_set_takeD)

text \<open>Collecting by operation or by event gives the same rows.\<close>

lemma mset_concat_append:
  "mset (concat (map (\<lambda>b. g b @ h b) bs)) = mset (concat (map g bs)) + mset (concat (map h bs))"
  by (induction bs) (simp_all add: ac_simps)

lemma mset_concat_swap:
  "mset (concat (map (\<lambda>a. map (f a) (filter (P a) bs)) as)) =
   mset (concat (map (\<lambda>b. map (\<lambda>a. f a b) (filter (\<lambda>a. P a b) as)) bs))"
proof (induction "as")
  case Nil
  show ?case by (induction bs) simp_all
next
  case (Cons a xs)
  have "concat (map (\<lambda>b. map (\<lambda>a. f a b) (filter (\<lambda>a. P a b) (a # xs))) bs) =
      concat (map (\<lambda>b. (if P a b then [f a b] else []) @ map (\<lambda>a. f a b) (filter (\<lambda>a. P a b) xs)) bs)"
    by (rule arg_cong[where f = concat], rule map_cong) simp_all
  moreover have "concat (map (\<lambda>b. if P a b then [f a b] else []) bs) = map (f a) (filter (P a) bs)"
    by (induction bs) simp_all
  ultimately show ?case using Cons by (simp only: mset_concat_append) (simp add: ac_simps)
qed

text \<open>The operation numbers of a batch request for an event: \<open>After\<close> bounds the kind clauses only.\<close>

definition pg_dispatches :: "sql_env \<Rightarrow> WireBatchR2Request \<Rightarrow> int64 \<Rightarrow> string \<Rightarrow> json \<Rightarrow> int list" where
  "pg_dispatches env req i kind body =
     concat (map (\<lambda>k. (case wbk_all k of None \<Rightarrow> [] | Some op \<Rightarrow> [op])
                    @ map wbm_op (filter (\<lambda>mt. case wbm_subset mt of None \<Rightarrow> False | Some doc \<Rightarrow> se_contains env body doc)
                                    (wbk_match k)))
              (filter (\<lambda>k. wbk_kind k = kind \<and> (case wbr_afterID req of Some a \<Rightarrow> 0 < a \<longrightarrow> a < i | None \<Rightarrow> True))
                 (wbr_onKinds req)))
     @ map wbi_op (filter (\<lambda>x. wbi_id x = i) (wbr_onID req))"

definition kind_ops :: "string \<Rightarrow> string \<Rightarrow> int64 \<Rightarrow> WireBatchR2KindQuery \<Rightarrow> Operation list" where
  "kind_ops app str after k =
     (case wbk_all k of
        Some op \<Rightarrow> [OpEachKind \<lparr>ek_app = app, ek_streamName = str, ek_op = op, ek_kindName = wbk_kind k, ek_afterID = after\<rparr>]
      | None \<Rightarrow> [])
     @ map (\<lambda>match. OpMatchSubset \<lparr>ms_app = app, ms_stream = str, ms_op = wbm_op match, ms_kind = wbk_kind k,
                ms_subset = wbm_subset match, ms_afterID = after\<rparr>) (wbk_match k)"

lemma TranslateBatchR2_eq:
  "TranslateBatchR2 app str req =
     concat (map (kind_ops app str (case wbr_afterID req of Some a \<Rightarrow> a | None \<Rightarrow> 0)) (wbr_onKinds req))
     @ map (\<lambda>i. OpMatchID \<lparr>mi_app = app, mi_stream = str, mi_id = wbi_id i, mi_op = wbi_op i\<rparr>) (wbr_onID req)"
  unfolding TranslateBatchR2_def Let_def kind_ops_def ..

lemma kind_ops_numbers:
  "map op_number (filter (\<lambda>op. op_selects env op i kind body) (kind_ops app str after k)) =
    (if wbk_kind k = kind \<and> (0 < after \<longrightarrow> after < i)
     then (case wbk_all k of None \<Rightarrow> [] | Some op \<Rightarrow> [op])
          @ map wbm_op (filter (\<lambda>mt. case wbm_subset mt of None \<Rightarrow> False | Some doc \<Rightarrow> se_contains env body doc) (wbk_match k))
     else [])"
proof (cases "wbk_kind k = kind \<and> (0 < after \<longrightarrow> after < i)")
  case True
  then show ?thesis by (simp add: kind_ops_def filter_map comp_def split: option.split)
next
  case False
  then have "\<not> op_selects env op i kind body" if "op \<in> set (kind_ops app str after k)" for op
    using that by (auto simp: kind_ops_def split: option.splits)
  then have "filter (\<lambda>op. op_selects env op i kind body) (kind_ops app str after k) = []"
    by (simp add: filter_empty_conv)
  then show ?thesis unfolding if_not_P[OF False] by (simp only: list.map)
qed

lemma translate_numbers:
  "map op_number (filter (\<lambda>op. op_selects env op i kind body) (TranslateBatchR2 app str req)) = pg_dispatches env req i kind body"
proof -
  have after: "(0 < (case wbr_afterID req of Some a \<Rightarrow> a | None \<Rightarrow> 0) \<longrightarrow> (case wbr_afterID req of Some a \<Rightarrow> a | None \<Rightarrow> 0) < i)
      \<longleftrightarrow> (case wbr_afterID req of Some a \<Rightarrow> 0 < a \<longrightarrow> a < i | None \<Rightarrow> True)"
    by (simp split: option.split)
  have ids: "map op_number (filter (\<lambda>op. op_selects env op i kind body)
      (map (\<lambda>i. OpMatchID \<lparr>mi_app = app, mi_stream = str, mi_id = wbi_id i, mi_op = wbi_op i\<rparr>) xs)) =
      map wbi_op (filter (\<lambda>x. wbi_id x = i) xs)" for xs
    by (induction xs) auto
  show ?thesis
    unfolding TranslateBatchR2_eq pg_dispatches_def filter_append map_append ids filter_concat map_concat map_map comp_def
      kind_ops_numbers after concat_map_if_filter ..
qed

lemma translate_key: "op \<in> set (TranslateBatchR2 app str req) \<Longrightarrow> op_key op = (app, str)"
  by (auto simp: TranslateBatchR2_eq kind_ops_def split: option.splits)

text \<open>The rows of operations on one stream, event by event.\<close>

definition event_rows :: "sql_env \<Rightarrow> Operation list \<Rightarrow> int64 \<times> time \<times> string \<times> json \<Rightarrow> sql_row list" where
  "event_rows env ops ev =
     (case ev of (i, t, kind, body) \<Rightarrow>
        map (\<lambda>n. \<lparr>sr_id = i, sr_when = t, sr_op = n, sr_event = body, sr_kind = kind\<rparr>)
          (map op_number (filter (\<lambda>op. op_selects env op i kind body) ops)))"

lemma event_rows_translate:
  "event_rows env (TranslateBatchR2 app str req) (i, t, kind, body) =
     map (\<lambda>n. \<lparr>sr_id = i, sr_when = t, sr_op = n, sr_event = body, sr_kind = kind\<rparr>) (pg_dispatches env req i kind body)"
  unfolding event_rows_def case_prod_conv translate_numbers ..

lemma rows_by_event:
  assumes "\<And>op. op \<in> set ops \<Longrightarrow> op_key op = (app, str)"
  shows "mset (concat (map (op_rows env d) ops)) = mset (concat (map (event_rows env ops) (pg_events d app str)))"
proof -
  let ?row = "\<lambda>op (i, t, kind, body). \<lparr>sr_id = i, sr_when = t, sr_op = op_number op, sr_event = body, sr_kind = kind\<rparr>"
  have eq: "map (op_rows env d) ops = map (\<lambda>op. map (?row op)
      (filter (\<lambda>(i, t, kind, body). op_selects env op i kind body) (pg_events d app str))) ops"
    using assms by (auto simp: op_rows_def)
  have "mset (concat (map (op_rows env d) ops)) = mset (concat (map (\<lambda>ev. map (\<lambda>op. ?row op ev)
      (filter (\<lambda>op. (\<lambda>(i, t, kind, body). op_selects env op i kind body) ev) ops)) (pg_events d app str)))"
    unfolding eq by (rule mset_concat_swap)
  moreover have "(\<lambda>ev. map (\<lambda>op. ?row op ev)
      (filter (\<lambda>op. (\<lambda>(i, t, kind, body). op_selects env op i kind body) ev) ops)) = event_rows env ops"
    by (rule ext) (simp add: event_rows_def case_prod_beta comp_def)
  ultimately show ?thesis by (simp only:)
qed

lemma hole_eq: "hole v q = (Suc (length (sq_args q)), q\<lparr>sq_args := sq_args q @ [v]\<rparr>)"
  by (simp add: hole_def)

text \<open>Placeholders of wire queries whose matchers have one value each.\<close>

definition matcher_sql :: "sql_env \<Rightarrow> json \<Rightarrow> WireMatcherV1 \<Rightarrow> bool" where
  "matcher_sql env body c \<longleftrightarrow> se_path env body (wm_property c) = Some (hd (wm_value c))"

lemma translate_matchers_spec:
  "list_all (\<lambda>c. length (wm_value c) = 1) cs \<Longrightarrow>
   \<exists>conds ws. translate_matchers cs q = (conds, q\<lparr>sq_args := sq_args q @ ws\<rparr>) \<and> list_all cond_syntax conds
     \<and> (\<forall>rest e k s. list_all (cond_holds env (sq_args q @ ws @ rest) e k s) conds \<longleftrightarrow>
          list_all (matcher_sql env (ee_event e)) cs)"
proof (induction cs arbitrary: q)
  case Nil
  show ?case by (rule exI[of _ "[]"], rule exI[of _ "[]"]) simp
next
  case (Cons c cs)
  from Cons.prems obtain v where v: "wm_value c = [v]" by (auto simp: length_Suc_conv)
  let ?q = "q\<lparr>sq_args := sq_args q @ [VPath (wm_property c), VText v]\<rparr>"
  from Cons.IH[of ?q] Cons.prems obtain conds ws where
    IH: "translate_matchers cs ?q = (conds, ?q\<lparr>sq_args := sq_args ?q @ ws\<rparr>)" "list_all cond_syntax conds"
    "\<And>rest e k s. list_all (cond_holds env (sq_args ?q @ ws @ rest) e k s) conds \<longleftrightarrow>
       list_all (matcher_sql env (ee_event e)) cs" by auto
  let ?n = "length (sq_args q)"
  have "translate_matchers (c # cs) q =
      (PathIn (Suc ?n) [Suc (Suc ?n)] # conds, q\<lparr>sq_args := sq_args q @ VPath (wm_property c) # VText v # ws\<rparr>)"
    using IH(1) v by (simp add: hole_eq Let_def)
  then show ?case
    by (intro exI[of _ "PathIn (Suc ?n) [Suc (Suc ?n)] # conds"] exI[of _ "VPath (wm_property c) # VText v # ws"])
       (use IH(2,3) v in \<open>auto simp: arg_last arg_holes matcher_sql_def[of _ _ c] split: option.split\<close>)
qed

definition constraint_sql :: "sql_env \<Rightarrow> string \<Rightarrow> json \<Rightarrow> KindConstraint \<Rightarrow> bool" where
  "constraint_sql env kind body c \<longleftrightarrow> kc_kind c = kind \<and> list_all (matcher_sql env body) (kc_eq c)
     \<and> (case kc_matchSubset c of None \<Rightarrow> True | Some doc \<Rightarrow> se_contains env body doc)"

lemma translateKindConstraint_spec:
  assumes "list_all (\<lambda>c. length (wm_value c) = 1) (kc_eq c)"
  shows "\<exists>conds ws. translateKindConstraint c q = (conds, q\<lparr>sq_args := sq_args q @ ws\<rparr>) \<and> list_all cond_syntax conds
     \<and> (\<forall>rest e k s. list_all (cond_holds env (sq_args q @ ws @ rest) e k s) conds \<longleftrightarrow>
          constraint_sql env (ek_kind k) (ee_event e) c)"
proof -
  let ?q = "q\<lparr>sq_args := sq_args q @ [VText (kc_kind c)]\<rparr>"
  let ?n = "length (sq_args q)"
  from translate_matchers_spec[OF assms, of ?q env] obtain conds ws where
    m: "translate_matchers (kc_eq c) ?q = (conds, ?q\<lparr>sq_args := sq_args ?q @ ws\<rparr>)" "list_all cond_syntax conds"
    "\<And>rest e k s. list_all (cond_holds env (sq_args ?q @ ws @ rest) e k s) conds \<longleftrightarrow>
       list_all (matcher_sql env (ee_event e)) (kc_eq c)" by blast
  show ?thesis
  proof (cases "kc_matchSubset c")
    case None
    with m show ?thesis
      by (intro exI[of _ "KindIs (Suc ?n) # conds"] exI[of _ "VText (kc_kind c) # ws"])
         (auto simp: translateKindConstraint_def hole_eq Let_def arg_last constraint_sql_def)
  next
    case (Some doc)
    have h: "arg (sq_args q @ VText (kc_kind c) # ws @ VJson (Some doc) # rest) (Suc (Suc (?n + length ws)))
        = Some (VJson (Some doc))" for rest
      using arg_last[of "sq_args q @ VText (kc_kind c) # ws" "VJson (Some doc)" rest] by simp
    show ?thesis
      by (intro exI[of _ "KindIs (Suc ?n) # conds @ [EventContains (Suc (Suc (?n + length ws)))]"]
          exI[of _ "VText (kc_kind c) # ws @ [VJson (Some doc)]"])
         (use m(1,2) m(3)[of "VJson (Some doc) # _"] Some h in
           \<open>auto simp: translateKindConstraint_def hole_eq Let_def arg_last constraint_sql_def\<close>)
  qed
qed

lemma translate_constraints_spec:
  "list_all (\<lambda>c. list_all (\<lambda>e. length (wm_value e) = 1) (kc_eq c)) cs \<Longrightarrow>
   \<exists>any ws. translate_constraints cs q = (any, q\<lparr>sq_args := sq_args q @ ws\<rparr>) \<and> list_all (list_all cond_syntax) any
     \<and> length any = length cs
     \<and> (\<forall>rest e k s. list_ex (list_all (cond_holds env (sq_args q @ ws @ rest) e k s)) any \<longleftrightarrow>
          list_ex (constraint_sql env (ek_kind k) (ee_event e)) cs)"
proof (induction cs arbitrary: q)
  case Nil
  show ?case by (rule exI[of _ "[]"], rule exI[of _ "[]"]) simp
next
  case (Cons c cs)
  from translateKindConstraint_spec[of c q env] Cons.prems obtain conds vs where
    c: "translateKindConstraint c q = (conds, q\<lparr>sq_args := sq_args q @ vs\<rparr>)" "list_all cond_syntax conds"
    "\<And>rest e k s. list_all (cond_holds env (sq_args q @ vs @ rest) e k s) conds \<longleftrightarrow>
       constraint_sql env (ek_kind k) (ee_event e) c" by auto
  let ?q = "q\<lparr>sq_args := sq_args q @ vs\<rparr>"
  from Cons.IH[of ?q] Cons.prems obtain any ws where
    IH: "translate_constraints cs ?q = (any, ?q\<lparr>sq_args := sq_args ?q @ ws\<rparr>)" "list_all (list_all cond_syntax) any"
    "length any = length cs"
    "\<And>rest e k s. list_ex (list_all (cond_holds env (sq_args ?q @ ws @ rest) e k s)) any \<longleftrightarrow>
          list_ex (constraint_sql env (ek_kind k) (ee_event e)) cs" by auto
  show ?case
    by (intro exI[of _ "conds # any"] exI[of _ "vs @ ws"]) (use c IH in \<open>simp add: Let_def\<close>)
qed

definition event_row_of :: "int \<Rightarrow> int64 \<times> time \<times> string \<times> json \<Rightarrow> sql_row" where
  "event_row_of op ev =
     (case ev of (i, t, kind, body) \<Rightarrow> \<lparr>sr_id = i, sr_when = t, sr_op = op, sr_event = body, sr_kind = kind\<rparr>)"

definition sql_selects :: "sql_env \<Rightarrow> WireQuery \<Rightarrow> int64 \<times> time \<times> string \<times> json \<Rightarrow> bool" where
  "sql_selects env query ev =
     (case ev of (i, t, kind, body) \<Rightarrow>
        after_ok (wq_afterID query) i
        \<and> (wq_kinds query = [] \<or> list_ex (constraint_sql env kind body) (wq_kinds query)))"

definition single_valued :: "WireQuery \<Rightarrow> bool" where
  "single_valued query \<longleftrightarrow> list_all (\<lambda>c. list_all (\<lambda>e. length (wm_value e) = 1) (kc_eq c)) (wq_kinds query)"

lemma TranslateQuery_spec:
  assumes "single_valued query"
  shows "list_all (list_all cond_syntax) (fq_any (TranslateQuery app str query))"
    and "filter_rows env d (TranslateQuery app str query) =
      map (event_row_of 0) (filter (sql_selects env query) (pg_events d app str))"
proof -
  obtain vs where vs: "vs = VText app # VText str # (case wq_afterID query of Some a \<Rightarrow> [VInt a] | None \<Rightarrow> [])"
    by simp
  let ?q = "\<lparr>sq_selects = [], sq_args = vs\<rparr>"
  from translate_constraints_spec[OF assms[unfolded single_valued_def], of ?q env] obtain any ws where
    t: "translate_constraints (wq_kinds query) ?q = (any, ?q\<lparr>sq_args := vs @ ws\<rparr>)" "list_all (list_all cond_syntax) any"
    "length any = length (wq_kinds query)"
    "\<And>e k s. list_ex (list_all (cond_holds env (vs @ ws) e k s)) any \<longleftrightarrow>
       list_ex (constraint_sql env (ek_kind k) (ee_event e)) (wq_kinds query)"
    by (fastforce dest: spec[of _ "[]"])
  have T: "TranslateQuery app str query = \<lparr>fq_where = [AppIs 1, StreamIs 2] @
      (case wq_afterID query of Some a \<Rightarrow> [IdAfter 3] | None \<Rightarrow> []), fq_any = any, fq_args = vs @ ws\<rparr>"
    using t(1) by (cases "wq_afterID query") (simp_all add: vs TranslateQuery_def hole_eq empty_query_def Let_def numeral_eq_Suc)
  from T t(2) show "list_all (list_all cond_syntax) (fq_any (TranslateQuery app str query))" by simp
  have "any = [] \<longleftrightarrow> wq_kinds query = []" using t(3) by auto
  moreover have "list_all (cond_holds env (vs @ ws) e k s) (fq_where (TranslateQuery app str query)) \<longleftrightarrow>
      es_app s = app \<and> es_stream s = str \<and> after_ok (wq_afterID query) (ee_id e)" for e k s
    unfolding T by (cases "wq_afterID query") (auto simp: vs arg_def after_ok_def)
  moreover have "fq_args (TranslateQuery app str query) = vs @ ws" "fq_any (TranslateQuery app str query) = any"
    using T by simp_all
  ultimately show "filter_rows env d (TranslateQuery app str query) =
      map (event_row_of 0) (filter (sql_selects env query) (pg_events d app str))"
    unfolding filter_rows_def pg_events_def map_filter_filter
    by (intro map_filter_cong)
       (auto simp: t(4) sql_selects_def event_row_of_def result_row_def split: option.splits)
qed

lemma dispatch_collect:
  assumes "sound_connection env"
  shows "dispatchRowMeta env (\<lambda>r s. (g r s, Ok ())) rows s = (fold g rows s, Ok ())"
proof -
  have "for_each (\<lambda>r s. (g r s, Ok ())) rows s = (fold g rows s, Ok ())" by (rule for_each_fold) simp
  with assms show ?thesis by (simp add: dispatchRowMeta_def sound_connection_def)
qed

lemma fold_collect: "wqr_matching (fold (\<lambda>r s. s\<lparr>wqr_matching := wqr_matching s @ [f r]\<rparr>) rows s) = wqr_matching s @ map f rows"
  by (induction rows arbitrary: s) simp_all

text \<open>The filter of the in-memory transport on an event with the given body.\<close>

lemma filter_envelope_body:
  assumes "\<And>b. gojq (Some b) = Ok (parse b)" "single_valued query"
  shows "filter_envelope compare gojq (\<lambda>_. Ok (Some body)) query e = Ok (after_ok (wq_afterID query) (env_id e)
    \<and> (wq_kinds query = [] \<or> (case findMatchingConstraint (env_kind e) (wq_kinds query) of
         None \<Rightarrow> False | Some c \<Rightarrow> constraint_holds compare parse c body)))"
proof (cases "findMatchingConstraint (env_kind e) (wq_kinds query)")
  case None
  then show ?thesis by (auto simp: filter_envelope_def after_guard)
next
  case (Some c)
  have "list_all (\<lambda>e. wm_value e \<noteq> []) (kc_eq c)"
    using assms(2) findMatchingConstraint_mem[OF Some] by (fastforce simp: single_valued_def list_all_iff)
  with assms(1) have "applyEqFilter gojq (\<lambda>_. Ok (Some body)) c e = Ok (list_all (matcher_holds (parse body)) (kc_eq c))"
    by (auto simp: applyEqFilter_def filterMatchedProperties_def match_properties_Ok hasEqConstraints_def)
  moreover have "applySubsetFilter compare (\<lambda>_. Ok (Some body)) c e =
      Ok (kc_matchSubset c = None \<or> JSONIsSubset compare (Some body) (kc_matchSubset c))"
    by (auto simp: applySubsetFilter_def filterSubsetMatch_def hasSubsetConstraints_def)
  moreover have "wq_kinds query \<noteq> []" using findMatchingConstraint_mem[OF Some] by auto
  ultimately show ?thesis using Some by (simp add: filter_envelope_def after_guard constraint_holds_def)
qed

lemma first_constraint:
  "distinct (map kc_kind cs) \<Longrightarrow>
     (case findMatchingConstraint kind cs of None \<Rightarrow> False | Some c \<Rightarrow> P c) \<longleftrightarrow> list_ex (\<lambda>c. kc_kind c = kind \<and> P c) cs"
proof (induction cs)
  case (Cons c cs)
  show ?case
  proof (cases "kind = kc_kind c")
    case True
    with Cons.prems have "\<forall>x \<in> set cs. kc_kind x \<noteq> kind" by (metis distinct.simps(2) image_eqI list.map(2) list.set_map)
    then have "\<not> list_ex (\<lambda>c. kc_kind c = kind \<and> P c) cs" by (simp add: list_ex_iff)
    with True show ?thesis by auto
  qed (use Cons in auto)
qed simp

subsection \<open>Properties\<close>

text \<open>
  C11. A batch query on Postgres dispatches exactly what the request asks for: the results of
  \<open>v1QueryBatchR2Route\<close> are, ordered by time, one dispatch for every event of the stream and every clause
  that selects it, with the event's envelope, body and operation number. The placeholders of the
  generated statement stand for the right arguments however many clauses there are; \<open>AfterID\<close> bounds the
  kind clauses and not the identifier clauses.
\<close>

theorem batch_r2_postgres_correct:
  assumes "sound_connection env" "orders_by_when env"
  shows "\<exists>rs. v1QueryBatchR2Route env d app str req = Ok rs
    \<and> mset rs = mset (concat (map (\<lambda>(i, t, kind, body).
        map (\<lambda>n. \<lparr>wbd_envelope = \<lparr>env_id = i, env_when = FormatEnvelopeWhen t, env_kind = kind\<rparr>, wbd_event = Some body, wbd_op = n\<rparr>)
          (pg_dispatches env req i kind body)) (pg_events d app str)))
    \<and> (\<exists>rows. rs = map (\<lambda>r. \<lparr>wbd_envelope = presentMetaAsEnvelope r, wbd_event = Some (sr_event r), wbd_op = sr_op r\<rparr>) rows
         \<and> sorted (map sr_when rows))"
proof -
  let ?ops = "TranslateBatchR2 app str req"
  let ?out = "\<lambda>r. \<lparr>wbd_envelope = presentMetaAsEnvelope r, wbd_event = Some (sr_event r), wbd_op = sr_op r\<rparr>"
  let ?rows = "if ?ops = [] then [] else se_order env (concat (map (op_rows env d) ?ops))"
  have route: "v1QueryBatchR2Route env d app str req = Ok (map ?out ?rows)"
    using Stream_eq[OF assms(1), of ?ops d]
    by (simp add: v1QueryBatchR2Route_def Let_def present_def presentMetaAsEnvelope_def)
  have order: "mset (se_order env rows) = mset rows" "sorted (map sr_when (se_order env rows))" for rows
    using assms(2) by (simp_all add: orders_by_when_def)
  have "mset ?rows = mset (concat (map (op_rows env d) ?ops))" by (simp add: order)
  also have "\<dots> = mset (concat (map (event_rows env ?ops) (pg_events d app str)))"
    by (rule rows_by_event) (rule translate_key)
  finally have "mset (map ?out ?rows) = mset (map ?out (concat (map (event_rows env ?ops) (pg_events d app str))))"
    by (simp only: mset_map)
  also have "map ?out (concat (map (event_rows env ?ops) (pg_events d app str))) = concat (map (\<lambda>(i, t, kind, body).
        map (\<lambda>n. \<lparr>wbd_envelope = \<lparr>env_id = i, env_when = FormatEnvelopeWhen t, env_kind = kind\<rparr>, wbd_event = Some body, wbd_op = n\<rparr>)
          (pg_dispatches env req i kind body)) (pg_events d app str))"
    unfolding map_concat map_map[of "map ?out" "event_rows env ?ops"]
    by (rule arg_cong[where f = concat], rule map_cong)
       (auto simp: event_rows_translate presentMetaAsEnvelope_def)
  finally have "mset (map ?out ?rows) = mset (concat (map (\<lambda>(i, t, kind, body).
        map (\<lambda>n. \<lparr>wbd_envelope = \<lparr>env_id = i, env_when = FormatEnvelopeWhen t, env_kind = kind\<rparr>, wbd_event = Some body, wbd_op = n\<rparr>)
          (pg_dispatches env req i kind body)) (pg_events d app str)))" .
  moreover have "sorted (map sr_when ?rows)" by (simp add: order)
  ultimately show ?thesis using route by blast
qed


subsection \<open>Witnesses\<close>

text \<open>Rows sorted by time, every document contained in every other, no property anywhere.\<close>

definition demo_sql :: sql_env where
  "demo_sql = \<lparr>se_fault = no_faults, se_contains = (\<lambda>_ _. True), se_path = (\<lambda>_ _. None),
     se_order = sort_key sr_when, se_scan = None, se_cut = None\<rparr>"

definition demo_events :: db where
  "demo_events = empty_db\<lparr>db_streams := [\<lparr>es_id = 1, es_app = ''a'', es_stream = ''s''\<rparr>], db_stream_seq := 2,
     db_kinds := [\<lparr>ek_id = 1, ek_kind = ''k''\<rparr>], db_kind_seq := 2,
     db_events := [\<lparr>ee_id = 1, ee_stream_id = Some 1, ee_kind_id = Some 1, ee_when = 20, ee_event = JNum 1\<rparr>,
       \<lparr>ee_id = 2, ee_stream_id = Some 1, ee_kind_id = Some 1, ee_when = 10, ee_event = JNum 2\<rparr>],
     db_event_seq := 3\<rparr>"

lemma demo_sql_ok: "sound_connection demo_sql" "orders_by_when demo_sql"
  by (simp_all add: demo_sql_def sound_connection_def orders_by_when_def)

lemma demo_events_rows: "pg_events demo_events ''a'' ''s'' = [(1, 20, ''k'', JNum 1), (2, 10, ''k'', JNum 2)]"
  by (simp add: demo_events_def pg_events_def join_event_def List.map_filter_simps)

theorem batch_r2_postgres_correct_witness:
  "\<exists>rs. v1QueryBatchR2Route demo_sql demo_events ''a'' ''s''
       \<lparr>wbr_onKinds = [\<lparr>wbk_kind = ''k'', wbk_all = Some 7, wbk_match = []\<rparr>], wbr_onID = [\<lparr>wbi_op = 9, wbi_id = 1\<rparr>],
        wbr_afterID = Some 1\<rparr> = Ok rs
     \<and> mset rs = {#\<lparr>wbd_envelope = \<lparr>env_id = 1, env_when = Timestamp 20, env_kind = ''k''\<rparr>, wbd_event = Some (JNum 1), wbd_op = 9\<rparr>,
         \<lparr>wbd_envelope = \<lparr>env_id = 2, env_when = Timestamp 10, env_kind = ''k''\<rparr>, wbd_event = Some (JNum 2), wbd_op = 7\<rparr>#}"
  using batch_r2_postgres_correct[OF demo_sql_ok, of demo_events "''a''" "''s''"
      "\<lparr>wbr_onKinds = [\<lparr>wbk_kind = ''k'', wbk_all = Some 7, wbk_match = []\<rparr>], wbr_onID = [\<lparr>wbi_op = 9, wbi_id = 1\<rparr>],
        wbr_afterID = Some 1\<rparr>"]
  by (auto simp: demo_events_rows pg_dispatches_def FormatEnvelopeWhen_def)


end
