(* ===== verification/EventService.thy ===== *)
theory EventService
  imports Storage "HOL-Library.Sublist"
begin

text \<open>
  Commands and queries of the service: the gRPC handlers of \<open>src/internal/service/grpc.go\<close>, the result
  stream and the requery signal of a watch (\<open>grpcResultStream.go\<close>, \<open>requery_signal.go\<close>), the event half of
  \<open>bus.go\<close>, and the HTTP routes of \<open>restful.go\<close> that submit and list.

  \<^item> \<open>event_server\<close> is what the handlers share: the database and the stored-event notifications whose
    dispatch was started, in the order they were started.
  \<^item> A reply stream is the list of the messages sent, with the result of the handler; \<open>send\<close> gives the
    error with which sending a message fails, if it does.
  \<^item> A watch is driven by a schedule: what other handlers commit, the notifications of the bus, the
    iterations of its loop, its cancellation. An iteration whose signal is not set cannot start, and an
    exhausted schedule leaves the handler waiting (\<open>None\<close>).
  \<^item> Identifiers and operation numbers are 64-bit in the messages and in the storage code alike, so the
    conversions between \<open>int\<close> and \<open>int64\<close> are the identity on the platforms the service is built for.
\<close>

record EventStorageEvent =
  ese_domain :: string
  ese_stream :: string
  ese_id :: int64
  ese_kind :: string
  ese_body :: json

record event_server =
  vs_db :: db
  vs_dispatched :: "EventStorageEvent list"

definition dispatchOnEventStored ::
  "string \<Rightarrow> string \<Rightarrow> int64 \<Rightarrow> string \<Rightarrow> json \<Rightarrow> event_server \<Rightarrow> event_server" where
  "dispatchOnEventStored domain stream i kind body sv =
     sv\<lparr>vs_dispatched := vs_dispatched sv @
       [\<lparr>ese_domain = domain, ese_stream = stream, ese_id = i, ese_kind = kind, ese_body = body\<rparr>]\<rparr>"

subsection \<open>Commands\<close>

record SubmitIn =
  si_domain :: string
  si_stream :: string
  si_kind :: string
  si_body :: json
  si_lock :: "Lock option"

definition g_CreateStream :: "faults \<Rightarrow> string \<Rightarrow> string \<Rightarrow> event_server \<Rightarrow> event_server \<times> unit outcome" where
  "g_CreateStream fault domain stream sv =
     (case ensureStream fault domain stream (vs_db sv) of (d, r) \<Rightarrow> (sv\<lparr>vs_db := d\<rparr>, r))"

text \<open>
  The transaction of a submission under a lock: \<open>t\<close> is its view of the database. \<open>now\<close> is \<open>NOW()\<close>, the
  start of the transaction for the check of the lock and for \<open>when_occurred\<close> alike. The result is the
  identifier of the event; the notification is left to the caller, since it is started after the commit.
\<close>

definition submitWithinTx :: "faults \<Rightarrow> time \<Rightarrow> SubmitIn \<Rightarrow> Lock \<Rightarrow> db \<Rightarrow> db \<times> int64 outcome" where
  "submitWithinTx fault now inp lock t =
     (case ResolveAndCheckLock fault now (si_domain inp) (si_stream inp) lock t of
        (t1, Err e) \<Rightarrow> (t1, Err e)
      | (t1, Panic p) \<Rightarrow> (t1, Panic p)
      | (t1, Ok _) \<Rightarrow>
          (case unsafeStoreWith fault now (si_domain inp) (si_stream inp) (si_kind inp) (si_body inp) t1 of
             (t2, Err e) \<Rightarrow> (t2, Err e)
           | (t2, Panic p) \<Rightarrow> (t2, Panic p)
           | (t2, Ok i) \<Rightarrow>
               (case fault ''commit'' of
                  Some e \<Rightarrow> (t2, Err e)
                | None \<Rightarrow> (t2, Ok i))))"

definition submitWithLock ::
  "faults \<Rightarrow> time \<Rightarrow> SubmitIn \<Rightarrow> Lock \<Rightarrow> event_server \<Rightarrow> event_server \<times> int64 outcome" where
  "submitWithLock fault now inp lock sv =
     (case fault ''begin'' of
        Some e \<Rightarrow> (sv, Err e)
      | None \<Rightarrow>
          (case submitWithinTx fault now inp lock (vs_db sv) of
             (t, Ok i) \<Rightarrow>
               (dispatchOnEventStored (si_domain inp) (si_stream inp) i (si_kind inp) (si_body inp) (sv\<lparr>vs_db := t\<rparr>), Ok i)
           | (t, Err e) \<Rightarrow> (sv\<lparr>vs_db := rollback (vs_db sv) t\<rparr>, Err (the (join_err (Some e) (fault ''rollback''))))
           | (t, Panic p) \<Rightarrow> (sv\<lparr>vs_db := rollback (vs_db sv) t\<rparr>, Panic p)))"

definition g_Submit :: "faults \<Rightarrow> time \<Rightarrow> SubmitIn \<Rightarrow> event_server \<Rightarrow> event_server \<times> int64 outcome" where
  "g_Submit fault now inp sv =
     (case si_lock inp of
        Some lock \<Rightarrow> submitWithLock fault now inp lock sv
      | None \<Rightarrow>
          (case unsafeStore fault now (si_domain inp) (si_stream inp) (si_kind inp) (si_body inp) (vs_db sv) of
             (d, Err e) \<Rightarrow> (sv\<lparr>vs_db := d\<rparr>, Err e)
           | (d, Panic p) \<Rightarrow> (sv\<lparr>vs_db := d\<rparr>, Panic p)
           | (d, Ok i) \<Rightarrow>
               (dispatchOnEventStored (si_domain inp) (si_stream inp) i (si_kind inp) (si_body inp) (sv\<lparr>vs_db := d\<rparr>), Ok i)))"

text \<open>The HTTP route: \<open>body\<close> is what reading the request gives. There is no lock in the request.\<close>

definition v1SubmitByKind ::
  "faults \<Rightarrow> time \<Rightarrow> string \<Rightarrow> string \<Rightarrow> string \<Rightarrow> json outcome \<Rightarrow> event_server \<Rightarrow> event_server \<times> int64 outcome" where
  "v1SubmitByKind fault now app stream kind body sv =
     (case body of
        Err e \<Rightarrow> (sv, Err e)
      | Panic p \<Rightarrow> (sv, Panic p)
      | Ok payload \<Rightarrow>
          (case unsafeStore fault now app stream kind payload (vs_db sv) of
             (d, Err e) \<Rightarrow> (sv\<lparr>vs_db := d\<rparr>, Err e)
           | (d, Panic p) \<Rightarrow> (sv\<lparr>vs_db := d\<rparr>, Panic p)
           | (d, Ok i) \<Rightarrow> (dispatchOnEventStored app stream i kind payload (sv\<lparr>vs_db := d\<rparr>), Ok i)))"

subsection \<open>Queries\<close>

definition g_Get :: "faults \<Rightarrow> string \<Rightarrow> string \<Rightarrow> int64 \<Rightarrow> db \<Rightarrow> json outcome" where
  "g_Get fault domain stream i d = fetchPayload fault domain stream i d"

text \<open>
  \<open>ListStreams\<close>: all rows of \<open>events_stream\<close>, unless one fails to scan; an error of the connection is
  returned.
\<close>

definition g_ListStreams :: "sql_env \<Rightarrow> db \<Rightarrow> (string \<times> string) list outcome" where
  "g_ListStreams env d =
     (case se_fault env ''query'' of
        Some e \<Rightarrow> Err e
      | None \<Rightarrow>
          (let rows = map (\<lambda>s. (es_app s, es_stream s)) (db_streams d);
               got = (case se_cut env of None \<Rightarrow> rows | Some (n, _) \<Rightarrow> take n rows)
           in case se_scan env of
                Some (n, e) \<Rightarrow>
                  (if n < length got then Err e else (case se_cut env of Some (_, c) \<Rightarrow> Err c | None \<Rightarrow> Ok got))
              | None \<Rightarrow> (case se_cut env of Some (_, c) \<Rightarrow> Err c | None \<Rightarrow> Ok got)))"

text \<open>\<open>v1Meta\<close>: the applications, in the order in which the database lists them, each with its streams.\<close>

definition listApps :: "sql_env \<Rightarrow> (string list \<Rightarrow> string list) \<Rightarrow> db \<Rightarrow> string list outcome" where
  "listApps env order_of d =
     (case se_fault env ''list apps'' of
        Some e \<Rightarrow> Err e
      | None \<Rightarrow>
          (let rows = order_of (remdups (map es_app (db_streams d)));
               got = (case se_cut env of None \<Rightarrow> rows | Some (n, _) \<Rightarrow> take n rows)
           in case se_scan env of
                Some (n, e) \<Rightarrow>
                  (if n < length got then Err e else (case se_cut env of Some (_, c) \<Rightarrow> Err c | None \<Rightarrow> Ok got))
              | None \<Rightarrow> (case se_cut env of Some (_, c) \<Rightarrow> Err c | None \<Rightarrow> Ok got)))"

definition queryStreamsForApp :: "sql_env \<Rightarrow> string \<Rightarrow> db \<Rightarrow> string list outcome" where
  "queryStreamsForApp env app d =
     (case se_fault env ''query streams'' of
        Some e \<Rightarrow> Err e
      | None \<Rightarrow>
          (let rows = map es_stream (filter (\<lambda>s. es_app s = app) (db_streams d));
               got = (case se_cut env of None \<Rightarrow> rows | Some (n, _) \<Rightarrow> take n rows)
           in case se_scan env of
                Some (n, e) \<Rightarrow> (if n < length got then Err e else Ok got)
              | None \<Rightarrow> Ok got))"

definition v1Meta :: "sql_env \<Rightarrow> (string list \<Rightarrow> string list) \<Rightarrow> db \<Rightarrow> (string \<times> string list) list outcome" where
  "v1Meta env order_of d =
     (case listApps env order_of d of
        Err e \<Rightarrow> Err e
      | Panic p \<Rightarrow> Panic p
      | Ok apps \<Rightarrow>
          (case for_each (\<lambda>app out.
               (case queryStreamsForApp env app d of
                  Err e \<Rightarrow> (out, Err e)
                | Panic p \<Rightarrow> (out, Panic p)
                | Ok streams \<Rightarrow> (out @ [(app, streams)], Ok ()))) apps [] of
             (out, Ok _) \<Rightarrow> Ok out
           | (_, Err e) \<Rightarrow> Err e
           | (_, Panic p) \<Rightarrow> Panic p))"

text \<open>The operations of a request, in the order of its clauses.\<close>

definition kind_clause_ops :: "string \<Rightarrow> string \<Rightarrow> int64 \<Rightarrow> OnKindClause \<Rightarrow> Operation list" where
  "kind_clause_ops domain stream afterID kClause =
     (case okc_allOp kClause of
        Some op \<Rightarrow> [OpEachKind \<lparr>ek_app = domain, ek_streamName = stream, ek_op = op, ek_kindName = okc_kind kClause,
                      ek_afterID = afterID\<rparr>]
      | None \<Rightarrow> [])
     @ map (\<lambda>subsetClause. OpMatchSubset \<lparr>ms_app = domain, ms_stream = stream, ms_op = oks_op subsetClause,
             ms_kind = okc_kind kClause, ms_subset = oks_match subsetClause, ms_afterID = afterID\<rparr>)
         (okc_subsets kClause)"

definition WithMatchID :: "string \<Rightarrow> string \<Rightarrow> int64 \<Rightarrow> int \<Rightarrow> Operation" where
  "WithMatchID domain stream i op = OpMatchID \<lparr>mi_app = domain, mi_stream = stream, mi_id = i, mi_op = op\<rparr>"

definition buildQueryOps :: "QueryIn \<Rightarrow> Operation list outcome" where
  "buildQueryOps inp =
     (let afterID = (case qi_afterID inp of Some a \<Rightarrow> a | None \<Rightarrow> 0);
          ops = concat (map (kind_clause_ops (qi_domain inp) (qi_stream inp) afterID) (qi_onKind inp))
            @ map (\<lambda>idClause. WithMatchID (qi_domain inp) (qi_stream inp) (oic_id idClause) (oic_op idClause)) (qi_onID inp)
            @ (case qi_onEach inp of
                 Some op \<Rightarrow> [OpAll \<lparr>as_domain = qi_domain inp, as_stream = qi_stream inp, as_op = op, as_afterID = afterID\<rparr>]
               | None \<Rightarrow> [])
      in if ops = [] then Err EmptyQueryError else Ok ops)"

text \<open>The message of a result; \<open>time.Parse\<close> reads back the text that the storage layer made of the time.\<close>

definition translate_result :: "OperationResult \<Rightarrow> QueryOut outcome" where
  "translate_result r =
     bindo (InternalizeWhen (or_envelope r)) (\<lambda>t.
       Ok \<lparr>qo_op = or_op r, qo_id = env_id (or_envelope r), qo_when = t, qo_kind = env_kind (or_envelope r),
           qo_body = Some (or_event r)\<rparr>)"

definition send_result ::
  "(QueryOut \<Rightarrow> goerror option) \<Rightarrow> OperationResult \<Rightarrow> QueryOut list \<Rightarrow> QueryOut list \<times> unit outcome" where
  "send_result send r sent =
     (case translate_result r of
        Err e \<Rightarrow> (sent, Err e)
      | Panic p \<Rightarrow> (sent, Panic p)
      | Ok m \<Rightarrow> (case send m of Some e \<Rightarrow> (sent, Err e) | None \<Rightarrow> (sent @ [m], Ok ())))"

text \<open>The error an iterator yields after its results is returned when the loop gets to it.\<close>

definition g_Query ::
  "sql_env \<Rightarrow> (QueryOut \<Rightarrow> goerror option) \<Rightarrow> db \<Rightarrow> QueryIn \<Rightarrow> QueryOut list \<times> unit outcome" where
  "g_Query env send d inp =
     (case buildQueryOps inp of
        Err e \<Rightarrow> ([], Err e)
      | Panic p \<Rightarrow> ([], Panic p)
      | Ok ops \<Rightarrow>
          (case Repository_Stream env d ops of
             (rs, failure) \<Rightarrow>
               (case for_each (send_result send) rs [] of
                  (sent, Ok _) \<Rightarrow> (sent, case failure of Some e \<Rightarrow> Err e | None \<Rightarrow> Ok ())
                | (sent, Err e) \<Rightarrow> (sent, Err e)
                | (sent, Panic p) \<Rightarrow> (sent, Panic p))))"

subsection \<open>Watching\<close>

text \<open>
  The state of a watch: its requery signal (a channel of capacity one), the two marks against sending an
  event twice, the operations with their current \<open>AfterID\<close>, and the messages sent. \<open>wt_db\<close> is the
  database as it stands.
\<close>

record watch_state =
  wt_db :: db
  wt_signal :: bool
  wt_lastSentID :: int64
  wt_lastDeliveredID :: int64
  wt_ops :: "Operation list"
  wt_sent :: "QueryOut list"

text \<open>The listener of the signal, \<open>Signal\<close> and the seed: a signal already set coalesces.\<close>

definition Signal :: "watch_state \<Rightarrow> watch_state" where
  "Signal w = w\<lparr>wt_signal := True\<rparr>"

definition pushTranslatorMessage ::
  "(QueryOut \<Rightarrow> goerror option) \<Rightarrow> OperationResult \<Rightarrow> watch_state \<Rightarrow> watch_state \<times> unit outcome" where
  "pushTranslatorMessage send r w =
     (if env_id (or_envelope r) \<le> wt_lastSentID w then (w, Ok ())
      else
        (let w1 = w\<lparr>wt_lastSentID := env_id (or_envelope r)\<rparr>
         in case translate_result r of
              Err e \<Rightarrow> (w1, Err e)
            | Panic p \<Rightarrow> (w1, Panic p)
            | Ok m \<Rightarrow>
                (case send m of
                   Some e \<Rightarrow> (w1, Err e)
                 | None \<Rightarrow> (w1\<lparr>wt_sent := wt_sent w1 @ [m]\<rparr>, Ok ()))))"

definition processWatchResults ::
  "sql_env \<Rightarrow> (QueryOut \<Rightarrow> goerror option) \<Rightarrow> watch_state \<Rightarrow> watch_state \<times> int64 outcome" where
  "processWatchResults env send w =
     (case Repository_Stream env (wt_db w) (wt_ops w) of
        (rs, failure) \<Rightarrow>
          (case for_each (\<lambda>r (w, lastID).
               (case pushTranslatorMessage send r w of
                  (w1, Err e) \<Rightarrow> ((w1, lastID), Err e)
                | (w1, Panic p) \<Rightarrow> ((w1, lastID), Panic p)
                | (w1, Ok _) \<Rightarrow> ((w1, if env_id (or_envelope r) > lastID then env_id (or_envelope r) else lastID), Ok ())))
               rs (w, 0) of
             ((w', lastID), Ok _) \<Rightarrow> (w', case failure of Some e \<Rightarrow> Err e | None \<Rightarrow> Ok lastID)
           | ((w', _), Err e) \<Rightarrow> (w', Err e)
           | ((w', _), Panic p) \<Rightarrow> (w', Panic p)))"

text \<open>One iteration of the loop after \<open>Wait\<close> has taken the signal.\<close>

definition watch_iteration ::
  "sql_env \<Rightarrow> (QueryOut \<Rightarrow> goerror option) \<Rightarrow> watch_state \<Rightarrow> watch_state \<times> unit outcome" where
  "watch_iteration env send w =
     (let w1 = w\<lparr>wt_signal := False, wt_ops := map (UpdateAfterID (wt_lastDeliveredID w)) (wt_ops w)\<rparr>
      in case processWatchResults env send w1 of
           (w2, Err e) \<Rightarrow> (w2, Err e)
         | (w2, Panic p) \<Rightarrow> (w2, Panic p)
         | (w2, Ok lastID) \<Rightarrow>
             (w2\<lparr>wt_lastDeliveredID := (if lastID > wt_lastDeliveredID w2 then lastID else wt_lastDeliveredID w2)\<rparr>, Ok ()))"

datatype watch_item =
    Committed db
      \<comment> \<open>other handlers have committed: the database is now this one\<close>
  | Emitted
      \<comment> \<open>the bus dispatches a stored event\<close>
  | Requery sql_env "QueryOut \<Rightarrow> goerror option"
      \<comment> \<open>\<open>Wait\<close> takes the signal and the loop body runs\<close>
  | Cancelled goerror
      \<comment> \<open>\<open>Wait\<close> finds the context done\<close>

fun watch_loop :: "watch_item list \<Rightarrow> watch_state \<Rightarrow> watch_state \<times> unit outcome option" where
  "watch_loop [] w = (w, None)"
| "watch_loop (Committed d # items) w = watch_loop items (w\<lparr>wt_db := d\<rparr>)"
| "watch_loop (Emitted # items) w = watch_loop items (Signal w)"
| "watch_loop (Cancelled e # items) w = (w, Some (Err e))"
| "watch_loop (Requery env send # items) w =
     (if wt_signal w
      then (case watch_iteration env send w of
              (w', Ok _) \<Rightarrow> watch_loop items w'
            | (w', Err e) \<Rightarrow> (w', Some (Err e))
            | (w', Panic p) \<Rightarrow> (w', Some (Panic p)))
      else watch_loop items w)"

definition getInitialAfterID :: "QueryIn \<Rightarrow> int64" where
  "getInitialAfterID inp = (case qi_afterID inp of Some a \<Rightarrow> a | None \<Rightarrow> 0)"

text \<open>\<open>NewRequerySignal\<close> registers with the bus and seeds the channel before the loop starts.\<close>

definition NewRequerySignal :: "db \<Rightarrow> Operation list \<Rightarrow> int64 \<Rightarrow> watch_state" where
  "NewRequerySignal d ops afterID =
     Signal \<lparr>wt_db = d, wt_signal = False, wt_lastSentID = -1, wt_lastDeliveredID = afterID, wt_ops = ops, wt_sent = []\<rparr>"

definition g_Watch :: "watch_item list \<Rightarrow> db \<Rightarrow> QueryIn \<Rightarrow> watch_state \<times> unit outcome option" where
  "g_Watch items d inp =
     (case buildQueryOps inp of
        Err e \<Rightarrow> (NewRequerySignal d [] 0, Some (Err e))
      | Panic p \<Rightarrow> (NewRequerySignal d [] 0, Some (Panic p))
      | Ok ops \<Rightarrow> watch_loop items (NewRequerySignal d ops (getInitialAfterID inp)))"

subsection \<open>Submitting under a lock\<close>

lemma unsafeStoreWith_cases:
  assumes "unsafeStoreWith fault now app str kind body d = (d', r)"
  shows "db_locks d' = db_locks d" "db_streams d' = db_streams d"
    and "r = Ok i \<Longrightarrow> db_events d' = db_events d @
      [\<lparr>ee_id = i, ee_stream_id = stream_id app str d, ee_kind_id = kind_id kind d', ee_when = now, ee_event = body\<rparr>]"
  using assms
  by (auto simp: unsafeStoreWith_def insert_event_def insert_kind_def kind_id_def stream_id_def Let_def
      split: option.splits)

lemma unsafeStoreWith_no_faults: "\<exists>d' i. unsafeStoreWith no_faults now app str kind body d = (d', Ok i)"
  by (simp add: unsafeStoreWith_def Let_def)

definition holds_lock :: "time \<Rightarrow> string \<Rightarrow> string \<Rightarrow> Lock \<Rightarrow> db \<Rightarrow> bool" where
  "holds_lock now app str lock d \<longleftrightarrow>
     (\<exists>u ttl. cs_lock_row (app, str, lock_consumer lock) d = Some (lock_holder lock, u, ttl) \<and> now < u)"

lemma ResolveAndCheckLock_cases:
  assumes "db_ok d" "ResolveAndCheckLock fault now app str lock d = (d', r)"
  shows "db_locks d' = db_locks d \<and> db_streams d' = db_streams d \<and> db_events d' = db_events d \<and> db_kinds d' = db_kinds d"
    and "r = Ok u \<Longrightarrow> holds_lock now app str lock d"
proof -
  show "db_locks d' = db_locks d \<and> db_streams d' = db_streams d \<and> db_events d' = db_events d \<and> db_kinds d' = db_kinds d"
    using assms(2)
    by (auto simp: ResolveAndCheckLock_def resolveConsumerNameInTx_def Let_def split: option.splits if_splits)
  assume "r = Ok u"
  with assms(2) obtain i x where "name_id (lock_consumer lock) (insert_name (lock_consumer lock) d) = Some i"
    "joined_lock app str i (insert_name (lock_consumer lock) d) = Some x" "cl_holder x = lock_holder lock" "now < cl_held_until x"
    by (auto simp: ResolveAndCheckLock_def resolveConsumerNameInTx_def Let_def split: option.splits if_splits)
  then have "cs_lock_row (app, str, lock_consumer lock) (insert_name (lock_consumer lock) d) =
      Some (lock_holder lock, cl_held_until x, cl_ttl x)"
    by (auto simp: cs_lock_row_Some joined_lock_def split: option.splits)
  with \<open>now < cl_held_until x\<close> show "holds_lock now app str lock d"
    by (auto simp: holds_lock_def cs_lock_row_insert_name[OF assms(1)])
qed

lemma ResolveAndCheckLock_held:
  assumes "db_ok d" "holds_lock now app str lock d"
  shows "\<exists>d'. ResolveAndCheckLock no_faults now app str lock d = (d', Ok ())"
proof -
  from assms(2) obtain u ttl where "cs_lock_row (app, str, lock_consumer lock) d = Some (lock_holder lock, u, ttl)" "now < u"
    by (auto simp: holds_lock_def)
  then have "cs_lock_row (app, str, lock_consumer lock) (insert_name (lock_consumer lock) d) = Some (lock_holder lock, u, ttl)"
    using cs_lock_row_insert_name[OF assms(1)] by simp
  with \<open>now < u\<close> show ?thesis
    by (auto simp: ResolveAndCheckLock_def resolve_no_faults cs_lock_row_Some joined_lock_def)
qed

text \<open>What a submission may do: append the event and start its notification, or nothing.\<close>

definition submit_appends :: "time \<Rightarrow> SubmitIn \<Rightarrow> int64 \<Rightarrow> event_server \<Rightarrow> event_server \<Rightarrow> bool" where
  "submit_appends now inp i sv sv' \<longleftrightarrow>
     db_events (vs_db sv') = db_events (vs_db sv) @
       [\<lparr>ee_id = i, ee_stream_id = stream_id (si_domain inp) (si_stream inp) (vs_db sv),
         ee_kind_id = kind_id (si_kind inp) (vs_db sv'), ee_when = now, ee_event = si_body inp\<rparr>]
     \<and> db_locks (vs_db sv') = db_locks (vs_db sv)
     \<and> vs_dispatched sv' = vs_dispatched sv @ [\<lparr>ese_domain = si_domain inp, ese_stream = si_stream inp, ese_id = i,
         ese_kind = si_kind inp, ese_body = si_body inp\<rparr>]"

definition submit_refused :: "event_server \<Rightarrow> event_server \<Rightarrow> bool" where
  "submit_refused sv sv' \<longleftrightarrow> db_events (vs_db sv') = db_events (vs_db sv) \<and> db_kinds (vs_db sv') = db_kinds (vs_db sv)
     \<and> db_locks (vs_db sv') = db_locks (vs_db sv) \<and> vs_dispatched sv' = vs_dispatched sv"

lemma submit_held_ok:
  assumes "db_ok (vs_db sv)" "si_lock inp = Some lock" "holds_lock now (si_domain inp) (si_stream inp) lock (vs_db sv)"
  shows "is_ok (snd (g_Submit no_faults now inp sv))"
proof -
  from ResolveAndCheckLock_held[OF assms(1,3)] obtain t where
    "ResolveAndCheckLock no_faults now (si_domain inp) (si_stream inp) lock (vs_db sv) = (t, Ok ())" by blast
  with unsafeStoreWith_no_faults[of now "si_domain inp" "si_stream inp" "si_kind inp" "si_body inp" t] assms(2)
  show ?thesis by (auto simp: g_Submit_def submitWithLock_def submitWithinTx_def)
qed

text \<open>
  C20. Submitting under a lock is atomic and fenced, whichever statements fail, the commit and the
  rollback included: a submission that succeeds was made while the named holder held the lock, appends
  exactly the submitted event to the stream and starts exactly one notification; a submission that
  fails leaves events, kinds and locks as they were and notifies nobody. Without faults, it succeeds
  whenever the lock is held.
\<close>

theorem submit_under_lock_atomic:
  assumes "db_ok (vs_db sv)" "si_lock inp = Some lock"
  shows "(case g_Submit fault now inp sv of
      (sv', Ok i) \<Rightarrow> holds_lock now (si_domain inp) (si_stream inp) lock (vs_db sv) \<and> submit_appends now inp i sv sv'
    | (sv', _) \<Rightarrow> submit_refused sv sv')
    \<and> (fault = no_faults \<and> holds_lock now (si_domain inp) (si_stream inp) lock (vs_db sv)
        \<longrightarrow> is_ok (snd (g_Submit fault now inp sv)))"
proof -
  obtain t1 r1 where c: "ResolveAndCheckLock fault now (si_domain inp) (si_stream inp) lock (vs_db sv) = (t1, r1)"
    by fastforce
  obtain t2 r2 where s: "unsafeStoreWith fault now (si_domain inp) (si_stream inp) (si_kind inp) (si_body inp) t1 = (t2, r2)"
    by fastforce
  note C = ResolveAndCheckLock_cases[OF assms(1) c]
  note S = unsafeStoreWith_cases[OF s]
  have "stream_id (si_domain inp) (si_stream inp) t1 = stream_id (si_domain inp) (si_stream inp) (vs_db sv)"
    using C(1) by (simp add: stream_id_def)
  with C S c s assms(2) have "case g_Submit fault now inp sv of
      (sv', Ok i) \<Rightarrow> holds_lock now (si_domain inp) (si_stream inp) lock (vs_db sv) \<and> submit_appends now inp i sv sv'
    | (sv', _) \<Rightarrow> submit_refused sv sv'"
    by (auto simp: g_Submit_def submitWithLock_def submitWithinTx_def dispatchOnEventStored_def rollback_def
        submit_appends_def submit_refused_def split: outcome.splits option.splits)
  with submit_held_ok[OF assms] show ?thesis by blast
qed

subsection \<open>What a request selects\<close>

text \<open>
  The specification of a request: the operation numbers for which an event is a result, clause by
  clause. \<open>AfterID\<close> bounds the kind clauses and the clause for every event, not the identifier clauses.
\<close>

definition query_dispatches :: "(json \<Rightarrow> json \<Rightarrow> bool) \<Rightarrow> QueryIn \<Rightarrow> int64 \<Rightarrow> string \<Rightarrow> json \<Rightarrow> int64 list" where
  "query_dispatches contains q i kind body =
     (let after = (case qi_afterID q of Some a \<Rightarrow> 0 < a \<longrightarrow> a < i | None \<Rightarrow> True)
      in concat (map (\<lambda>k. (case okc_allOp k of None \<Rightarrow> [] | Some op \<Rightarrow> [op])
                    @ map oks_op (filter (\<lambda>mt. case oks_match mt of None \<Rightarrow> False | Some doc \<Rightarrow> contains body doc)
                                    (okc_subsets k)))
              (filter (\<lambda>k. okc_kind k = kind \<and> after) (qi_onKind q)))
         @ map oic_op (filter (\<lambda>c. oic_id c = i) (qi_onID q))
         @ (case qi_onEach q of Some op \<Rightarrow> (if after then [op] else []) | None \<Rightarrow> []))"

text \<open>A kind clause of the messages is a kind clause of the batch requests.\<close>

definition r2_kind :: "OnKindClause \<Rightarrow> WireBatchR2KindQuery" where
  "r2_kind k = \<lparr>wbk_kind = okc_kind k, wbk_all = okc_allOp k,
     wbk_match = map (\<lambda>m. \<lparr>wbm_op = oks_op m, wbm_subset = oks_match m\<rparr>) (okc_subsets k)\<rparr>"

lemma kind_clause_ops_r2: "kind_clause_ops app str after k = kind_ops app str after (r2_kind k)"
  by (simp add: kind_clause_ops_def kind_ops_def r2_kind_def split: option.split)

lemma build_numbers:
  assumes "buildQueryOps q = Ok ops"
  shows "map op_number (filter (\<lambda>op. op_selects env op i kind body) ops) = query_dispatches (se_contains env) q i kind body"
proof -
  have after: "(0 < (case qi_afterID q of Some a \<Rightarrow> a | None \<Rightarrow> 0) \<longrightarrow> (case qi_afterID q of Some a \<Rightarrow> a | None \<Rightarrow> 0) < i)
      \<longleftrightarrow> (case qi_afterID q of Some a \<Rightarrow> 0 < a \<longrightarrow> a < i | None \<Rightarrow> True)"
    by (simp split: option.split)
  have ids: "map op_number (filter (\<lambda>op. op_selects env op i kind body)
      (map (\<lambda>c. WithMatchID app str (oic_id c) (oic_op c)) xs)) = map oic_op (filter (\<lambda>c. oic_id c = i) xs)" for app str xs
    by (induction xs) (auto simp: WithMatchID_def)
  have ops: "ops = concat (map (kind_clause_ops (qi_domain q) (qi_stream q) (case qi_afterID q of Some a \<Rightarrow> a | None \<Rightarrow> 0)) (qi_onKind q))
      @ map (\<lambda>c. WithMatchID (qi_domain q) (qi_stream q) (oic_id c) (oic_op c)) (qi_onID q)
      @ (case qi_onEach q of Some op \<Rightarrow> [OpAll \<lparr>as_domain = qi_domain q, as_stream = qi_stream q, as_op = op,
            as_afterID = (case qi_afterID q of Some a \<Rightarrow> a | None \<Rightarrow> 0)\<rparr>] | None \<Rightarrow> [])"
    using assms by (simp add: buildQueryOps_def Let_def split: if_splits)
  have each: "map op_number (filter (\<lambda>op. op_selects env op i kind body)
      (case qi_onEach q of Some op \<Rightarrow> [OpAll \<lparr>as_domain = qi_domain q, as_stream = qi_stream q, as_op = op,
            as_afterID = (case qi_afterID q of Some a \<Rightarrow> a | None \<Rightarrow> 0)\<rparr>] | None \<Rightarrow> [])) =
      (case qi_onEach q of Some op \<Rightarrow> (if (case qi_afterID q of Some a \<Rightarrow> 0 < a \<longrightarrow> a < i | None \<Rightarrow> True) then [op] else []) | None \<Rightarrow> [])"
    by (simp add: after split: option.split)
  have r2: "(case wbk_all (r2_kind k) of None \<Rightarrow> [] | Some op \<Rightarrow> [op])
      @ map wbm_op (filter (\<lambda>mt. case wbm_subset mt of None \<Rightarrow> False | Some doc \<Rightarrow> se_contains env body doc) (wbk_match (r2_kind k)))
      = (case okc_allOp k of None \<Rightarrow> [] | Some op \<Rightarrow> [op])
      @ map oks_op (filter (\<lambda>mt. case oks_match mt of None \<Rightarrow> False | Some doc \<Rightarrow> se_contains env body doc) (okc_subsets k))" for k
    by (simp add: r2_kind_def filter_map comp_def)
  have kind: "wbk_kind (r2_kind k) = okc_kind k" for k by (simp add: r2_kind_def)
  show ?thesis
    unfolding ops filter_append map_append ids each query_dispatches_def Let_def filter_concat map_concat map_map comp_def
      kind_clause_ops_r2 kind_ops_numbers after r2 kind concat_map_if_filter ..
qed

lemma build_ops:
  assumes "buildQueryOps q = Ok ops" "op \<in> set ops"
  shows "op_key op = (qi_domain q, qi_stream q)" "UpdateAfterID (getInitialAfterID q) op = op"
  using assms
  by (auto simp: buildQueryOps_def kind_clause_ops_def WithMatchID_def getInitialAfterID_def Let_def
      split: if_splits option.splits)

subsection \<open>Moving the mark of the operations\<close>

lemma UpdateAfterID_frame [simp]:
  "op_key (UpdateAfterID x op) = op_key op" "op_number (UpdateAfterID x op) = op_number op"
  "UpdateAfterID y (UpdateAfterID x op) = UpdateAfterID y op"
  by (cases op; simp)+

lemma UpdateAfterID_fixed:
  "UpdateAfterID a (OpEachKind e) = OpEachKind e \<longleftrightarrow> ek_afterID e = a"
  "UpdateAfterID a (OpMatchSubset m) = OpMatchSubset m \<longleftrightarrow> ms_afterID m = a"
  "UpdateAfterID a (OpAll l) = OpAll l \<longleftrightarrow> as_afterID l = a"
  by (cases e, auto) (cases m, auto, cases l, auto)

lemma UpdateAfterID_weaken:
  "UpdateAfterID a op = op \<Longrightarrow> a \<le> x \<Longrightarrow> op_selects env (UpdateAfterID x op) i kind body \<Longrightarrow> op_selects env op i kind body"
  by (cases op) (auto simp del: UpdateAfterID.simps(1,2,4) simp: UpdateAfterID_fixed, auto)

lemma UpdateAfterID_beyond:
  "op_selects env op i kind body \<Longrightarrow> (0 < x \<longrightarrow> x < i) \<Longrightarrow> op_selects env (UpdateAfterID x op) i kind body"
  by (cases op) auto

subsection \<open>The messages of a watch\<close>

definition row_message :: "sql_row \<Rightarrow> QueryOut" where
  "row_message r = \<lparr>qo_op = sr_op r, qo_id = sr_id r, qo_when = sr_when r, qo_kind = sr_kind r, qo_body = Some (sr_event r)\<rparr>"

lemma translate_present: "translate_result (present r) = Ok (row_message r)"
  by (simp add: translate_result_def present_def row_message_def)

lemma present_id [simp]: "env_id (or_envelope (present r)) = sr_id r"
  by (simp add: present_def)

text \<open>The messages that an event of a stream is worth, from the specification.\<close>

definition event_messages :: "(json \<Rightarrow> json \<Rightarrow> bool) \<Rightarrow> QueryIn \<Rightarrow> int64 \<times> time \<times> string \<times> json \<Rightarrow> QueryOut list" where
  "event_messages contains q ev =
     (case ev of (i, t, kind, body) \<Rightarrow>
        map (\<lambda>op. \<lparr>qo_op = op, qo_id = i, qo_when = t, qo_kind = kind, qo_body = Some body\<rparr>)
          (query_dispatches contains q i kind body))"

definition stream_messages :: "(json \<Rightarrow> json \<Rightarrow> bool) \<Rightarrow> QueryIn \<Rightarrow> db \<Rightarrow> QueryOut list" where
  "stream_messages contains q d = concat (map (event_messages contains q) (pg_events d (qi_domain q) (qi_stream q)))"

lemma rows_event_messages:
  assumes "buildQueryOps q = Ok ops"
  shows "map row_message (event_rows env ops ev) = event_messages (se_contains env) q ev"
proof (cases ev)
  case (fields i t kind body)
  then show ?thesis
    unfolding event_rows_def event_messages_def fields case_prod_conv build_numbers[OF assms]
    by (simp add: row_message_def comp_def)
qed

text \<open>
  A row of the operations, their mark moved forward, is a message of the request.
\<close>

lemma rows_sound:
  assumes "buildQueryOps q = Ok ops" "getInitialAfterID q \<le> x" "orders_by_when env"
    and "row \<in> set (se_order env (concat (map (op_rows env d) (map (UpdateAfterID x) ops))))"
  shows "row_message row \<in> set (stream_messages (se_contains env) q d)"
proof -
  have "set (se_order env rows) = set rows" for rows
    using assms(3) by (metis orders_by_when_def set_mset_mset)
  with assms(4) obtain op where op: "op \<in> set ops" "row \<in> set (op_rows env d (UpdateAfterID x op))" by auto
  note key = build_ops[OF assms(1) op(1)]
  from op(2) obtain i t kind body where ev: "(i, t, kind, body) \<in> set (pg_events d (qi_domain q) (qi_stream q))"
    "op_selects env (UpdateAfterID x op) i kind body"
    and row: "row = \<lparr>sr_id = i, sr_when = t, sr_op = op_number op, sr_event = body, sr_kind = kind\<rparr>"
    using key(1) by (auto simp: op_rows_def)
  from UpdateAfterID_weaken[OF key(2) assms(2) ev(2)] op(1)
  have "op_number op \<in> set (query_dispatches (se_contains env) q i kind body)"
    unfolding build_numbers[OF assms(1), symmetric] by auto
  then have "row_message row \<in> set (event_messages (se_contains env) q (i, t, kind, body))"
    by (auto simp: event_messages_def row row_message_def)
  with ev(1) show ?thesis unfolding stream_messages_def by auto
qed

subsection \<open>Every message once, in order\<close>

text \<open>Sent identifiers increase and stay below the mark, and every message is among \<open>good\<close>.\<close>

definition sent_ok :: "QueryOut set \<Rightarrow> watch_state \<Rightarrow> bool" where
  "sent_ok good w \<longleftrightarrow> sorted_wrt (<) (map qo_id (wt_sent w)) \<and> (\<forall>m \<in> set (wt_sent w). qo_id m \<le> wt_lastSentID w)
     \<and> set (wt_sent w) \<subseteq> good"

lemma push_sent_ok:
  assumes "sent_ok good w" "r = present row" "row_message row \<in> good"
  shows "sent_ok good (fst (pushTranslatorMessage send r w))"
proof (cases "sr_id row \<le> wt_lastSentID w \<or> send (row_message row) \<noteq> None")
  case True
  with assms show ?thesis
    by (auto simp: pushTranslatorMessage_def translate_present sent_ok_def) (meson linear order.trans)
next
  case False
  then have "fst (pushTranslatorMessage send r w) = w\<lparr>wt_lastSentID := sr_id row, wt_sent := wt_sent w @ [row_message row]\<rparr>"
    by (simp add: pushTranslatorMessage_def translate_present assms(2))
  moreover have "qo_id (row_message row) = sr_id row" by (simp add: row_message_def)
  ultimately show ?thesis using False assms(1,3)
    by (auto simp: sent_ok_def sorted_wrt_append not_le intro: order.strict_implies_order le_less_trans)
qed

lemma push_frame:
  "wt_db (fst (pushTranslatorMessage send r w)) = wt_db w" "wt_ops (fst (pushTranslatorMessage send r w)) = wt_ops w"
  "wt_signal (fst (pushTranslatorMessage send r w)) = wt_signal w"
  "wt_lastDeliveredID (fst (pushTranslatorMessage send r w)) = wt_lastDeliveredID w"
  by (simp_all add: pushTranslatorMessage_def Let_def split: option.split outcome.split)

text \<open>What the loop over the results keeps.\<close>

lemma results_invariant:
  assumes "\<And>r w. r \<in> set (fst (Repository_Stream env (wt_db w0) (wt_ops w0))) \<Longrightarrow> I w \<Longrightarrow> I (fst (pushTranslatorMessage send r w))"
    and "I w0"
  shows "I (fst (processWatchResults env send w0))"
proof -
  obtain rs failure where s: "Repository_Stream env (wt_db w0) (wt_ops w0) = (rs, failure)" by fastforce
  let ?body = "\<lambda>r (w, lastID).
               (case pushTranslatorMessage send r w of
                  (w1, Err e) \<Rightarrow> ((w1, lastID), Err e)
                | (w1, Panic p) \<Rightarrow> ((w1, lastID), Panic p)
                | (w1, Ok _) \<Rightarrow> ((w1, if env_id (or_envelope r) > lastID then env_id (or_envelope r) else lastID), Ok ()))"
  have "(\<lambda>s. I (fst s)) (fst (for_each ?body rs (w0, 0)))"
  proof (rule for_each_inv)
    show "I (fst (fst (?body r s)))" if "r \<in> set rs" "I (fst s)" for r s
      using assms(1)[of r "fst s"] that s
      by (cases s; cases "pushTranslatorMessage send r (fst s)") (auto split: outcome.split)
  qed (simp add: assms(2))
  then show ?thesis
    by (auto simp: processWatchResults_def s split: prod.split outcome.split)
qed

text \<open>The state of a running watch: its operations are those of the request with a mark moved forward.\<close>

definition watch_ops_ok :: "QueryIn \<Rightarrow> Operation list \<Rightarrow> watch_state \<Rightarrow> bool" where
  "watch_ops_ok q ops w \<longleftrightarrow> getInitialAfterID q \<le> wt_lastDeliveredID w
     \<and> (\<exists>x. getInitialAfterID q \<le> x \<and> wt_ops w = map (UpdateAfterID x) ops)"

lemma process_frame:
  "wt_db (fst (processWatchResults env send w)) = wt_db w \<and> wt_ops (fst (processWatchResults env send w)) = wt_ops w
     \<and> wt_lastDeliveredID (fst (processWatchResults env send w)) = wt_lastDeliveredID w
     \<and> wt_signal (fst (processWatchResults env send w)) = wt_signal w"
  by (rule results_invariant[where I = "\<lambda>v. wt_db v = wt_db w \<and> wt_ops v = wt_ops w
      \<and> wt_lastDeliveredID v = wt_lastDeliveredID w \<and> wt_signal v = wt_signal w"])
     (simp_all add: push_frame)

lemma iteration_sent_ok:
  assumes "buildQueryOps q = Ok ops" "orders_by_when env" "watch_ops_ok q ops w" "sent_ok good w"
    and "set (stream_messages (se_contains env) q (wt_db w)) \<subseteq> good"
  shows "sent_ok good (fst (watch_iteration env send w)) \<and> watch_ops_ok q ops (fst (watch_iteration env send w))
    \<and> wt_db (fst (watch_iteration env send w)) = wt_db w"
proof -
  let ?w1 = "w\<lparr>wt_signal := False, wt_ops := map (UpdateAfterID (wt_lastDeliveredID w)) (wt_ops w)\<rparr>"
  obtain w2 r where p: "processWatchResults env send ?w1 = (w2, r)" by fastforce
  from assms(3) have ops: "wt_ops ?w1 = map (UpdateAfterID (wt_lastDeliveredID w)) ops"
    and le: "getInitialAfterID q \<le> wt_lastDeliveredID w"
    by (auto simp: watch_ops_ok_def comp_def)
  have "sent_ok good (fst (processWatchResults env send ?w1))"
  proof (rule results_invariant)
    fix r v
    assume r: "r \<in> set (fst (Repository_Stream env (wt_db ?w1) (wt_ops ?w1)))" and v: "sent_ok good v"
    from Stream_sound[OF r] obtain row where
      row: "row \<in> set (se_order env (concat (map (op_rows env (wt_db w)) (map (UpdateAfterID (wt_lastDeliveredID w)) ops))))"
      "r = present row" by (auto simp: ops simp del: map_map)
    from rows_sound[OF assms(1) le assms(2) row(1)] assms(5) have "row_message row \<in> good" by blast
    with push_sent_ok[OF v row(2)] show "sent_ok good (fst (pushTranslatorMessage send r v))" by blast
  qed (use assms(4) in \<open>simp add: sent_ok_def\<close>)
  with p have w2: "sent_ok good w2" by simp
  have f: "wt_db w2 = wt_db w" "wt_ops w2 = map (UpdateAfterID (wt_lastDeliveredID w)) ops"
    "wt_lastDeliveredID w2 = wt_lastDeliveredID w"
    using process_frame[of env send ?w1] p ops by simp_all
  from w2 le show ?thesis
    by (auto simp: watch_iteration_def Let_def p sent_ok_def watch_ops_ok_def f split: outcome.split)
qed

lemma watch_loop_sent_ok:
  assumes "buildQueryOps q = Ok ops"
    and "\<And>env send. Requery env send \<in> set items \<Longrightarrow> orders_by_when env \<and> se_contains env = contains"
    and "\<And>d. d = wt_db w \<or> Committed d \<in> set items \<Longrightarrow> set (stream_messages contains q d) \<subseteq> good"
    and "watch_ops_ok q ops w" "sent_ok good w"
  shows "sent_ok good (fst (watch_loop items w))"
  using assms(2-)
proof (induction items arbitrary: w)
  case (Cons item items)
  note prems = Cons.prems
  have later: "sent_ok good (fst (watch_loop items v))"
    if "watch_ops_ok q ops v" "sent_ok good v" "wt_db v = wt_db w \<or> Committed (wt_db v) = item" for v
    using that prems(1,2) by (intro Cons.IH) auto
  show ?case
  proof (cases item)
    case (Committed d)
    then show ?thesis using later[of "w\<lparr>wt_db := d\<rparr>"] prems(3,4) by (simp add: watch_ops_ok_def sent_ok_def)
  next
    case Emitted
    then show ?thesis using later[of "Signal w"] prems(3,4) by (simp add: watch_ops_ok_def sent_ok_def Signal_def)
  next
    case (Requery env send)
    from prems(1)[of env send] Requery have e: "orders_by_when env" "se_contains env = contains" by simp_all
    obtain w' r where i: "watch_iteration env send w = (w', r)" by fastforce
    with iteration_sent_ok[OF assms(1) e(1) prems(3,4), of send] prems(2)[of "wt_db w"] e(2)
    have "sent_ok good w'" "watch_ops_ok q ops w'" "wt_db w' = wt_db w" by simp_all
    with later[of w'] later[of w] prems(3,4) show ?thesis
      by (auto simp: Requery i split: outcome.split)
  qed (use prems in simp)
qed simp

text \<open>
  C22. A watch never sends an event twice and never sends backwards, whatever is committed meanwhile,
  whichever statements and sends fail and however often its signal is set: the identifiers of its
  messages strictly increase, and every message is one that the request asks for, of an event that
  was in the stream.
\<close>

theorem grpc_watch_sends_once:
  assumes "\<And>env send. Requery env send \<in> set items \<Longrightarrow> orders_by_when env \<and> se_contains env = contains"
  shows "case g_Watch items d q of (w, _) \<Rightarrow>
    sorted_wrt (<) (map qo_id (wt_sent w))
    \<and> set (wt_sent w) \<subseteq> (\<Union>d' \<in> insert d {d'. Committed d' \<in> set items}. set (stream_messages contains q d'))"
proof (cases "buildQueryOps q")
  case (Ok ops)
  let ?good = "\<Union>d' \<in> insert d {d'. Committed d' \<in> set items}. set (stream_messages contains q d')"
  let ?w = "NewRequerySignal d ops (getInitialAfterID q)"
  have "map (UpdateAfterID (getInitialAfterID q)) ops = ops"
    using build_ops(2)[OF Ok] by (simp add: map_idI)
  then have "watch_ops_ok q ops ?w" by (auto simp: watch_ops_ok_def NewRequerySignal_def Signal_def intro!: exI[of _ "getInitialAfterID q"])
  moreover have "sent_ok ?good ?w" by (simp add: sent_ok_def NewRequerySignal_def Signal_def)
  ultimately have "sent_ok ?good (fst (watch_loop items ?w))"
    using assms by (intro watch_loop_sent_ok[OF Ok]) (auto simp: NewRequerySignal_def Signal_def)
  then show ?thesis by (auto simp: g_Watch_def Ok sent_ok_def)
qed (simp_all add: g_Watch_def NewRequerySignal_def Signal_def)

subsection \<open>A watch catches up\<close>

text \<open>
  The order the watch relies on: the events of the stream, in the order of the table, have increasing
  identifiers and times, and no event is wanted for two operations.
\<close>

definition in_order :: "(json \<Rightarrow> json \<Rightarrow> bool) \<Rightarrow> QueryIn \<Rightarrow> (int64 \<times> time \<times> string \<times> json) list \<Rightarrow> bool" where
  "in_order contains q evs \<longleftrightarrow>
     sorted_wrt (\<lambda>(i, t, _) (i', t', _). i < i' \<and> t < t') evs
     \<and> list_all (\<lambda>(i, t, kind, body). 0 < i \<and> length (query_dispatches contains q i kind body) \<le> 1) evs"

text \<open>
  A schedule without faults and cancellation in which commits append to the stream and keep it in
  order.
\<close>

fun orderly :: "(json \<Rightarrow> json \<Rightarrow> bool) \<Rightarrow> QueryIn \<Rightarrow> watch_item list \<Rightarrow> db \<Rightarrow> bool" where
  "orderly contains q [] d \<longleftrightarrow> True"
| "orderly contains q (Committed d' # items) d \<longleftrightarrow>
     prefix (pg_events d (qi_domain q) (qi_stream q)) (pg_events d' (qi_domain q) (qi_stream q))
     \<and> in_order contains q (pg_events d' (qi_domain q) (qi_stream q)) \<and> orderly contains q items d'"
| "orderly contains q (Emitted # items) d \<longleftrightarrow> orderly contains q items d"
| "orderly contains q (Requery env send # items) d \<longleftrightarrow>
     sound_connection env \<and> orders_by_when env \<and> se_contains env = contains \<and> send = (\<lambda>_. None)
     \<and> orderly contains q items d"
| "orderly contains q (Cancelled e # items) d \<longleftrightarrow> False"

fun db_after :: "watch_item list \<Rightarrow> db \<Rightarrow> db" where
  "db_after [] d = d"
| "db_after (Committed d' # items) d = db_after items d'"
| "db_after (_ # items) d = db_after items d"

lemma orderly_append: "orderly contains q (xs @ ys) d \<longleftrightarrow> orderly contains q xs d \<and> orderly contains q ys (db_after xs d)"
  by (induction contains q xs d rule: orderly.induct) auto

lemma db_after_append: "db_after (xs @ ys) d = db_after ys (db_after xs d)"
  by (induction xs d rule: db_after.induct) auto

lemma event_rows_length:
  assumes "length (map op_number (filter (\<lambda>op. op_selects env op i kind body) ops)) \<le> 1"
  shows "event_rows env ops (i, t, kind, body) = [] \<or> (\<exists>n. event_rows env ops (i, t, kind, body) =
      [\<lparr>sr_id = i, sr_when = t, sr_op = n, sr_event = body, sr_kind = kind\<rparr>])"
  using assms
  by (cases "map op_number (filter (\<lambda>op. op_selects env op i kind body) ops)")
     (auto simp: event_rows_def simp del: length_map)

text \<open>Rows of events in order are in order.\<close>

lemma event_rows_sorted:
  assumes "sorted_wrt (\<lambda>(i, t, _) (i', t', _). i < i' \<and> t < t') evs"
    and "\<And>i t kind body. (i, t, kind, body) \<in> set evs \<Longrightarrow>
      length (map op_number (filter (\<lambda>op. op_selects env op i kind body) ops)) \<le> 1"
  shows "sorted_wrt (\<lambda>r r'. sr_id r < sr_id r' \<and> sr_when r < sr_when r') (concat (map (event_rows env ops) evs))"
  using assms
proof (induction evs)
  case (Cons ev evs)
  obtain i t kind body where ev: "ev = (i, t, kind, body)" by (cases ev)
  have "\<exists>i' t' kind' body'. (i', t', kind', body') \<in> set evs \<and> sr_id r = i' \<and> sr_when r = t'"
    if "r \<in> set (concat (map (event_rows env ops) evs))" for r
    using that by (fastforce simp: event_rows_def)
  with Cons.prems(1) have "\<forall>r \<in> set (concat (map (event_rows env ops) evs)). i < sr_id r \<and> t < sr_when r"
    by (fastforce simp: ev)
  moreover have "event_rows env ops ev = [] \<or> (\<exists>n. event_rows env ops ev =
      [\<lparr>sr_id = i, sr_when = t, sr_op = n, sr_event = body, sr_kind = kind\<rparr>])"
    unfolding ev by (rule event_rows_length, rule Cons.prems(2)[of i t]) (simp add: ev)
  moreover have "sorted_wrt (\<lambda>r r'. sr_id r < sr_id r' \<and> sr_when r < sr_when r') (concat (map (event_rows env ops) evs))"
  proof (rule Cons.IH)
    show "length (map op_number (filter (\<lambda>op. op_selects env op i kind body) ops)) \<le> 1"
      if "(i, t, kind, body) \<in> set evs" for i t kind body
      using Cons.prems(2)[of i t kind body] that by simp
  qed (use Cons.prems(1) in simp)
  ultimately show ?case by (auto simp: sorted_wrt_append)
qed simp

lemma sorted_rows_unique:
  assumes "mset xs = mset ys" "sorted (map sr_when xs)"
    and "sorted_wrt (\<lambda>r r'. sr_id r < sr_id r' \<and> sr_when r < sr_when r') ys"
  shows "xs = ys"
proof -
  have "sorted_wrt (\<lambda>r r'. sr_when r < sr_when r') ys" using assms(3) by (rule sorted_wrt_mono_rel[rotated]) simp
  then have ys: "sorted_wrt (<) (map sr_when ys)" by (simp add: sorted_wrt_map)
  then have d: "distinct (map sr_when ys)" "sorted (map sr_when ys)" by (simp_all add: strict_sorted_iff)
  from assms(1) have m: "mset (map sr_when xs) = mset (map sr_when ys)" by simp
  have "distinct (map sr_when xs)" using d(1) m by (metis mset_eq_imp_distinct_iff)
  moreover have "set xs = set ys" using assms(1) by (metis set_mset_mset)
  moreover have "inj_on sr_when (set xs \<union> set ys)" using d(1) \<open>set xs = set ys\<close> by (simp add: distinct_map)
  ultimately show ?thesis using assms(2) d map_sorted_distinct_set_unique by blast
qed

text \<open>Pushing rows in order sends those above the mark; the mark and the last identifier are theirs.\<close>

definition push_row ::
  "OperationResult \<Rightarrow> watch_state \<times> int64 \<Rightarrow> (watch_state \<times> int64) \<times> unit outcome" where
  "push_row r = (\<lambda>(w, lastID). (case pushTranslatorMessage (\<lambda>_. None) r w of
      (w1, Err e) \<Rightarrow> ((w1, lastID), Err e)
    | (w1, Panic p) \<Rightarrow> ((w1, lastID), Panic p)
    | (w1, Ok _) \<Rightarrow> ((w1, if env_id (or_envelope r) > lastID then env_id (or_envelope r) else lastID), Ok ())))"

lemma push_row_eq:
  "push_row (present r) (w, l) =
     ((if sr_id r \<le> wt_lastSentID w then w
       else w\<lparr>wt_lastSentID := sr_id r, wt_sent := wt_sent w @ [row_message r]\<rparr>, max l (sr_id r)), Ok ())"
  by (simp add: push_row_def pushTranslatorMessage_def translate_present max_def)

lemma push_rows:
  assumes "sorted_wrt (\<lambda>r r'. sr_id r < sr_id r') rows"
  shows "\<exists>last l'. for_each push_row (map present rows) (w, l) =
      ((w\<lparr>wt_lastSentID := last, wt_sent := wt_sent w @ map row_message (filter (\<lambda>r. wt_lastSentID w < sr_id r) rows)\<rparr>, l'), Ok ())
    \<and> wt_lastSentID w \<le> last \<and> (last = wt_lastSentID w \<or> last \<in> sr_id ` set rows) \<and> (\<forall>r \<in> set rows. sr_id r \<le> last)
    \<and> (l' = l \<or> l' \<in> sr_id ` set rows)"
  using assms
proof (induction rows arbitrary: w l)
  case Nil
  show ?case by (rule exI[of _ "wt_lastSentID w"], rule exI[of _ l]) simp
next
  case (Cons r rows)
  let ?w = "if sr_id r \<le> wt_lastSentID w then w else w\<lparr>wt_lastSentID := sr_id r, wt_sent := wt_sent w @ [row_message r]\<rparr>"
  from Cons.prems have srt: "sorted_wrt (\<lambda>r r'. sr_id r < sr_id r') rows" by simp
  obtain last l' where
    IH: "for_each push_row (map present rows) (?w, max l (sr_id r)) =
      ((?w\<lparr>wt_lastSentID := last, wt_sent := wt_sent ?w @ map row_message (filter (\<lambda>r. wt_lastSentID ?w < sr_id r) rows)\<rparr>, l'), Ok ())"
    "wt_lastSentID ?w \<le> last" "last = wt_lastSentID ?w \<or> last \<in> sr_id ` set rows" "\<forall>r \<in> set rows. sr_id r \<le> last"
    "l' = max l (sr_id r) \<or> l' \<in> sr_id ` set rows"
    using Cons.IH[OF srt, of ?w "max l (sr_id r)"] by blast
  have step: "for_each push_row (map present (r # rows)) (w, l) = for_each push_row (map present rows) (?w, max l (sr_id r))"
    by (simp only: list.map for_each.simps push_row_eq prod.case outcome.case)
  have sent: "?w\<lparr>wt_lastSentID := last, wt_sent := wt_sent ?w @ map row_message (filter (\<lambda>r. wt_lastSentID ?w < sr_id r) rows)\<rparr> =
      w\<lparr>wt_lastSentID := last, wt_sent := wt_sent w @ map row_message (filter (\<lambda>r. wt_lastSentID w < sr_id r) (r # rows))\<rparr>"
  proof (cases "sr_id r \<le> wt_lastSentID w")
    case False
    then have "filter (\<lambda>x. sr_id r < sr_id x) rows = filter (\<lambda>x. wt_lastSentID w < sr_id x) rows"
      using Cons.prems by (intro filter_cong) auto
    with False show ?thesis by simp
  qed simp
  have marks: "wt_lastSentID w \<le> last \<and> (last = wt_lastSentID w \<or> last \<in> sr_id ` set (r # rows))
      \<and> (\<forall>x \<in> set (r # rows). sr_id x \<le> last) \<and> (l' = l \<or> l' \<in> sr_id ` set (r # rows))"
    using IH(2-5) by (cases "sr_id r \<le> wt_lastSentID w"; cases "l \<le> sr_id r") (auto simp: max_def)
  show ?case using IH(1) marks unfolding step sent by blast
qed

text \<open>
  The watch has sent exactly the messages of the events \<open>seen\<close>, the first ones of the stream, and its
  marks are identifiers of messages sent. \<open>E\<close> is what it has to have seen when no signal is set.
\<close>

definition caught_up ::
  "(json \<Rightarrow> json \<Rightarrow> bool) \<Rightarrow> QueryIn \<Rightarrow> (int64 \<times> time \<times> string \<times> json) list \<Rightarrow> watch_state \<Rightarrow> bool" where
  "caught_up contains q E w \<longleftrightarrow>
     (\<exists>seen. prefix seen (pg_events (wt_db w) (qi_domain q) (qi_stream q))
        \<and> wt_sent w = concat (map (event_messages contains q) seen)
        \<and> (wt_lastSentID w = -1 \<or> wt_lastSentID w \<in> qo_id ` set (wt_sent w))
        \<and> (\<forall>m \<in> set (wt_sent w). qo_id m \<le> wt_lastSentID w)
        \<and> (wt_lastDeliveredID w = getInitialAfterID q \<or> wt_lastDeliveredID w \<le> 0 \<or> wt_lastDeliveredID w \<in> qo_id ` set (wt_sent w))
        \<and> (wt_signal w \<or> prefix E seen))
     \<and> prefix E (pg_events (wt_db w) (qi_domain q) (qi_stream q))
     \<and> in_order contains q (pg_events (wt_db w) (qi_domain q) (qi_stream q))"

lemma length_filter_le_filter:
  "(\<And>x. x \<in> set xs \<Longrightarrow> P x \<Longrightarrow> Q x) \<Longrightarrow> length (filter P xs) \<le> length (filter Q xs)"
  by (induction xs) auto

text \<open>The operations after their mark has moved to \<open>x\<close>, on events in order.\<close>

lemma moved_ops_once:
  assumes "buildQueryOps q = Ok ops" "getInitialAfterID q \<le> x" "in_order (se_contains env) q evs" "(i, t, kind, body) \<in> set evs"
  shows "length (map op_number (filter (\<lambda>op. op_selects env op i kind body) (map (UpdateAfterID x) ops))) \<le> 1"
proof -
  have "length (filter (\<lambda>op. op_selects env (UpdateAfterID x op) i kind body) ops)
      \<le> length (filter (\<lambda>op. op_selects env op i kind body) ops)"
    using build_ops(2)[OF assms(1)] assms(2) by (intro length_filter_le_filter) (blast intro: UpdateAfterID_weaken)
  also have "\<dots> = length (query_dispatches (se_contains env) q i kind body)"
    unfolding build_numbers[OF assms(1), symmetric] by simp
  also have "\<dots> \<le> 1" using assms(3,4) by (auto simp: in_order_def list_all_iff)
  finally show ?thesis by (simp add: filter_map comp_def)
qed

lemma moved_ops_rows:
  assumes "buildQueryOps q = Ok ops" "getInitialAfterID q \<le> x" "sound_connection env" "orders_by_when env"
    and "in_order (se_contains env) q (pg_events d (qi_domain q) (qi_stream q))"
  shows "Repository_Stream env d (map (UpdateAfterID x) ops) =
      (map present (concat (map (event_rows env (map (UpdateAfterID x) ops)) (pg_events d (qi_domain q) (qi_stream q)))), None)"
    and "sorted_wrt (\<lambda>r r'. sr_id r < sr_id r' \<and> sr_when r < sr_when r')
      (concat (map (event_rows env (map (UpdateAfterID x) ops)) (pg_events d (qi_domain q) (qi_stream q))))"
proof -
  let ?ops = "map (UpdateAfterID x) ops"
  let ?R = "concat (map (event_rows env ?ops) (pg_events d (qi_domain q) (qi_stream q)))"
  have "ops \<noteq> []" using assms(1) by (auto simp: buildQueryOps_def Let_def split: if_splits)
  show srt: "sorted_wrt (\<lambda>r r'. sr_id r < sr_id r' \<and> sr_when r < sr_when r') ?R"
    using assms(5) moved_ops_once[OF assms(1,2,5)] by (intro event_rows_sorted) (auto simp: in_order_def)
  have "mset (concat (map (op_rows env d) ?ops)) = mset ?R"
    by (rule rows_by_event) (use build_ops(1)[OF assms(1)] in auto)
  then have "mset (se_order env (concat (map (op_rows env d) ?ops))) = mset ?R"
    "sorted (map sr_when (se_order env (concat (map (op_rows env d) ?ops))))"
    using assms(4) by (simp_all add: orders_by_when_def)
  from sorted_rows_unique[OF this srt] Stream_eq[OF assms(3), of ?ops d] \<open>ops \<noteq> []\<close>
  show "Repository_Stream env d ?ops = (map present ?R, None)" by simp
qed

text \<open>An event that was seen gives no row above the mark, any later one gives all of its rows.\<close>

lemma moved_ops_seen:
  assumes "buildQueryOps q = Ok ops" "getInitialAfterID q \<le> x" "r \<in> set (event_rows env (map (UpdateAfterID x) ops) ev)"
  shows "row_message r \<in> set (event_messages (se_contains env) q ev)"
proof -
  obtain i t kind body where ev: "ev = (i, t, kind, body)" by (cases ev)
  from assms(3) obtain op where op: "op \<in> set ops" "op_selects env (UpdateAfterID x op) i kind body"
    "r = \<lparr>sr_id = i, sr_when = t, sr_op = op_number op, sr_event = body, sr_kind = kind\<rparr>"
    by (auto simp: event_rows_def ev)
  from UpdateAfterID_weaken[OF build_ops(2)[OF assms(1) op(1)] assms(2) op(2)] op
  have "r \<in> set (event_rows env ops ev)" by (auto simp: event_rows_def ev)
  then show ?thesis unfolding rows_event_messages[OF assms(1), symmetric] by simp
qed

lemma moved_ops_new:
  assumes "buildQueryOps q = Ok ops" "x = getInitialAfterID q \<or> x \<le> 0 \<or> x < i" "getInitialAfterID q \<le> x"
  shows "event_rows env (map (UpdateAfterID x) ops) (i, t, kind, body) = event_rows env ops (i, t, kind, body)"
proof -
  have "op_selects env (UpdateAfterID x op) i kind body = op_selects env op i kind body" if "op \<in> set ops" for op
    using assms(2) build_ops(2)[OF assms(1) that] UpdateAfterID_weaken[OF build_ops(2)[OF assms(1) that] assms(3)]
      UpdateAfterID_beyond[of env op i kind body x] by fastforce
  then have "filter (\<lambda>op. op_selects env (UpdateAfterID x op) i kind body) ops = filter (\<lambda>op. op_selects env op i kind body) ops"
    by (intro filter_cong) auto
  then show ?thesis by (simp add: event_rows_def filter_map comp_def)
qed

lemma event_messages_id: "m \<in> set (event_messages contains q (i, t, kind, body)) \<Longrightarrow> qo_id m = i"
  by (auto simp: event_messages_def)

text \<open>Of the rows of the stream, those above the mark \<open>s\<close> are the rows of the events not seen.\<close>

lemma kept_rows:
  assumes b: "buildQueryOps q = Ok ops" and le: "getInitialAfterID q \<le> L"
    and ord: "in_order (se_contains env) q (seen @ rest)"
    and sent: "sent = concat (map (event_messages (se_contains env) q) seen)"
    and mark: "s = -1 \<or> s \<in> qo_id ` set sent" and below: "\<And>m. m \<in> set sent \<Longrightarrow> qo_id m \<le> s"
    and L: "L = getInitialAfterID q \<or> L \<le> 0 \<or> L \<in> qo_id ` set sent"
  shows "map row_message (filter (\<lambda>r. s < sr_id r) (concat (map (event_rows env (map (UpdateAfterID L) ops)) (seen @ rest)))) =
      concat (map (event_messages (se_contains env) q) rest)"
proof -
  let ?rows = "event_rows env (map (UpdateAfterID L) ops)"
  have later: "qo_id m < i" if "(i, t, kind, body) \<in> set rest" "m \<in> set sent" for i t kind body m
    using ord that unfolding in_order_def sent by (fastforce simp: sorted_wrt_append dest: event_messages_id)
  have pos: "0 < i" if "(i, t, kind, body) \<in> set rest" for i t kind body
    using ord that unfolding in_order_def by (auto simp: list_all_iff)
  have new: "?rows ev = event_rows env ops ev" if "ev \<in> set rest" for ev
  proof -
    obtain i t kind body where ev: "ev = (i, t, kind, body)" by (cases ev)
    from L later[of i t kind body] that ev have "L = getInitialAfterID q \<or> L \<le> 0 \<or> L < i" by auto
    then show ?thesis unfolding ev by (rule moved_ops_new[OF b _ le])
  qed
  have above: "s < sr_id r" if "ev \<in> set rest" "r \<in> set (?rows ev)" for ev r
  proof -
    obtain i t kind body where ev: "ev = (i, t, kind, body)" by (cases ev)
    with that(2) have "sr_id r = i" by (auto simp: event_rows_def)
    with mark later[of i t kind body] pos[of i t kind body] that(1) ev show ?thesis by auto
  qed
  have old: "\<not> s < sr_id r" if "ev \<in> set seen" "r \<in> set (?rows ev)" for ev r
  proof -
    have "row_message r \<in> set sent" using moved_ops_seen[OF b le that(2)] that(1) by (auto simp: sent)
    from below[OF this] show ?thesis by (simp add: row_message_def)
  qed
  have "filter (\<lambda>r. s < sr_id r) (concat (map ?rows seen)) = []"
    using old by (auto simp: filter_empty_conv)
  moreover have "filter (\<lambda>r. s < sr_id r) (concat (map ?rows rest)) = concat (map ?rows rest)"
    using above by (auto simp: filter_id_conv)
  moreover have "map ?rows rest = map (event_rows env ops) rest" using new by (rule map_cong[OF refl])
  ultimately have "filter (\<lambda>r. s < sr_id r) (concat (map ?rows (seen @ rest))) = concat (map (event_rows env ops) rest)"
    by (simp only: map_append concat_append filter_append append_Nil)
  then show ?thesis by (simp add: map_concat comp_def rows_event_messages[OF b])
qed

lemma iteration_catches_up:
  assumes b: "buildQueryOps q = Ok ops" and env: "sound_connection env" "orders_by_when env"
    and ops: "watch_ops_ok q ops w" and c: "caught_up (se_contains env) q E w"
  shows "\<exists>w'. watch_iteration env (\<lambda>_. None) w = (w', Ok ()) \<and> watch_ops_ok q ops w' \<and> wt_db w' = wt_db w
    \<and> caught_up (se_contains env) q E w'"
proof -
  let ?msgs = "event_messages (se_contains env) q"
  let ?evs = "pg_events (wt_db w) (qi_domain q) (qi_stream q)"
  let ?L = "wt_lastDeliveredID w"
  let ?rows = "event_rows env (map (UpdateAfterID ?L) ops)"
  from c have ord: "in_order (se_contains env) q ?evs" and E: "prefix E ?evs" by (simp_all add: caught_up_def)
  from c obtain seen rest where evs: "?evs = seen @ rest" and sent: "wt_sent w = concat (map ?msgs seen)"
    and mark: "wt_lastSentID w = -1 \<or> wt_lastSentID w \<in> qo_id ` set (wt_sent w)"
    and below: "\<And>m. m \<in> set (wt_sent w) \<Longrightarrow> qo_id m \<le> wt_lastSentID w"
    and L: "?L = getInitialAfterID q \<or> ?L \<le> 0 \<or> ?L \<in> qo_id ` set (wt_sent w)"
    unfolding caught_up_def prefix_def[of _ ?evs] by blast
  from ops have le: "getInitialAfterID q \<le> ?L" by (simp add: watch_ops_ok_def)
  have keep: "map row_message (filter (\<lambda>r. wt_lastSentID w < sr_id r) (concat (map ?rows ?evs))) = concat (map ?msgs rest)"
    unfolding evs by (rule kept_rows[OF b le ord[unfolded evs] sent mark below L])
  let ?w1 = "w\<lparr>wt_signal := False, wt_ops := map (UpdateAfterID ?L) (wt_ops w)\<rparr>"
  have ops1: "wt_ops ?w1 = map (UpdateAfterID ?L) ops" using ops by (auto simp: watch_ops_ok_def comp_def)
  note rows = moved_ops_rows[OF b le env ord]
  have "sorted_wrt (\<lambda>r r'. sr_id r < sr_id r') (concat (map ?rows ?evs))"
    using rows(2) by (rule sorted_wrt_mono_rel[rotated]) simp
  note pushed = push_rows[OF this, of ?w1 0]
  have w1: "wt_lastSentID ?w1 = wt_lastSentID w" "wt_sent ?w1 = wt_sent w" by simp_all
  obtain last l where
    p: "for_each push_row (map present (concat (map ?rows ?evs))) (?w1, 0) =
      ((?w1\<lparr>wt_lastSentID := last, wt_sent := wt_sent w @ concat (map ?msgs rest)\<rparr>, l), Ok ())"
    "last = wt_lastSentID w \<or> last \<in> sr_id ` set (concat (map ?rows ?evs))" "wt_lastSentID w \<le> last"
    "\<forall>r \<in> set (concat (map ?rows ?evs)). sr_id r \<le> last" "l = 0 \<or> l \<in> sr_id ` set (concat (map ?rows ?evs))"
    using pushed unfolding w1 keep by blast
  let ?w2 = "?w1\<lparr>wt_lastSentID := last, wt_sent := concat (map ?msgs ?evs),
      wt_lastDeliveredID := (if l > ?L then l else ?L)\<rparr>"
  have res: "watch_iteration env (\<lambda>_. None) w = (?w2, Ok ())"
    using p(1) rows(1) ops1
    by (simp add: watch_iteration_def processWatchResults_def push_row_def[abs_def] sent evs)
  have ids: "i \<in> qo_id ` set (concat (map ?msgs ?evs))" if i: "i \<in> sr_id ` set (concat (map ?rows ?evs))" for i
  proof -
    from i obtain ev r where "ev \<in> set ?evs" "r \<in> set (?rows ev)" "i = sr_id r" by auto
    with moved_ops_seen[OF b le this(2)] have "row_message r \<in> set (concat (map ?msgs ?evs))" "qo_id (row_message r) = i"
      by (auto simp: row_message_def)
    then show ?thesis by blast
  qed
  have "qo_id m \<le> last" if "m \<in> set (concat (map ?msgs ?evs))" for m
  proof (cases "m \<in> set (wt_sent w)")
    case True
    with below p(3) show ?thesis by fastforce
  next
    case False
    with that have "m \<in> set (concat (map ?msgs rest))" by (auto simp: evs sent)
    then have "m \<in> set (map row_message (filter (\<lambda>r. wt_lastSentID w < sr_id r) (concat (map ?rows ?evs))))" by (simp only: keep)
    then obtain r where "r \<in> set (concat (map ?rows ?evs))" "m = row_message r" by auto
    with p(4) show ?thesis by (simp add: row_message_def del: set_concat)
  qed
  moreover have "last = -1 \<or> last \<in> qo_id ` set (concat (map ?msgs ?evs))"
    using p(2) mark ids by (auto simp: evs sent)
  moreover have "(if l > ?L then l else ?L) = getInitialAfterID q \<or> (if l > ?L then l else ?L) \<le> 0
      \<or> (if l > ?L then l else ?L) \<in> qo_id ` set (concat (map ?msgs ?evs))"
    using p(5) L ids by (auto simp: evs sent)
  ultimately have "caught_up (se_contains env) q E ?w2"
    using E ord by (auto simp: caught_up_def intro!: exI[of _ ?evs])
  moreover have "watch_ops_ok q ops ?w2" using le ops1 by (auto simp: watch_ops_ok_def)
  ultimately show ?thesis using res by simp
qed

lemma watch_loop_catches_up:
  assumes b: "buildQueryOps q = Ok ops"
  shows "orderly contains q items (wt_db w) \<Longrightarrow> watch_ops_ok q ops w \<Longrightarrow> caught_up contains q E w \<Longrightarrow>
    \<exists>w'. watch_loop items w = (w', None) \<and> watch_ops_ok q ops w' \<and> wt_db w' = db_after items (wt_db w) \<and> caught_up contains q E w'"
proof (induction items arbitrary: w)
  case (Cons item items)
  note prems = Cons.prems
  show ?case
  proof (cases item)
    case (Committed d)
    with prems(3) have "caught_up contains q E (w\<lparr>wt_db := d\<rparr>)"
      using prems(1) unfolding caught_up_def by (auto intro: prefix_order.trans)
    with Cons.IH[of "w\<lparr>wt_db := d\<rparr>"] prems(1,2) Committed show ?thesis by (simp add: watch_ops_ok_def)
  next
    case Emitted
    from prems(3) have "caught_up contains q E (Signal w)" by (auto simp: caught_up_def Signal_def)
    with Cons.IH[of "Signal w"] prems(1,2) Emitted show ?thesis by (simp add: watch_ops_ok_def Signal_def)
  next
    case (Requery env send)
    with prems(1) have env: "sound_connection env" "orders_by_when env" "contains = se_contains env" "send = (\<lambda>_. None)" by auto
    show ?thesis
    proof (cases "wt_signal w")
      case True
      from iteration_catches_up[OF b env(1,2) prems(2) prems(3)[unfolded env(3)]] obtain w' where
        "watch_iteration env send w = (w', Ok ())" "watch_ops_ok q ops w'" "wt_db w' = wt_db w" "caught_up contains q E w'"
        unfolding env(3,4) by blast
      with Cons.IH[of w'] prems(1) True Requery show ?thesis by simp
    qed (use Cons.IH[of w] prems Requery in simp)
  qed (use prems(1) in simp)
qed simp

lemma watch_loop_append:
  "watch_loop (xs @ ys) w = (case watch_loop xs w of (w', None) \<Rightarrow> watch_loop ys w' | r \<Rightarrow> r)"
  by (induction xs w rule: watch_loop.induct) (auto split: prod.split outcome.split)

lemma new_watch:
  assumes "buildQueryOps q = Ok ops" "in_order contains q (pg_events d (qi_domain q) (qi_stream q))"
  shows "watch_ops_ok q ops (NewRequerySignal d ops (getInitialAfterID q))"
    "caught_up contains q [] (NewRequerySignal d ops (getInitialAfterID q))"
proof -
  have "map (UpdateAfterID (getInitialAfterID q)) ops = ops"
    using build_ops(2)[OF assms(1)] by (simp add: map_idI)
  then show "watch_ops_ok q ops (NewRequerySignal d ops (getInitialAfterID q))"
    by (auto simp: watch_ops_ok_def NewRequerySignal_def Signal_def intro!: exI[of _ "getInitialAfterID q"])
  show "caught_up contains q [] (NewRequerySignal d ops (getInitialAfterID q))"
    using assms(2) by (auto simp: caught_up_def NewRequerySignal_def Signal_def intro!: exI[of _ "[]"])
qed


subsection \<open>Events that a watch never sends\<close>

text \<open>Below the mark nothing is sent any more, and the mark is above all that was sent.\<close>

definition passed :: "QueryOut \<Rightarrow> watch_state \<Rightarrow> bool" where
  "passed m w \<longleftrightarrow> qo_id m \<le> wt_lastSentID w \<and> m \<notin> set (wt_sent w)"

definition sent_below_mark :: "watch_state \<Rightarrow> bool" where
  "sent_below_mark w \<longleftrightarrow> (\<forall>m \<in> set (wt_sent w). qo_id m \<le> wt_lastSentID w)"

lemma push_passed:
  "passed m w \<Longrightarrow> passed m (fst (pushTranslatorMessage send (present row) w))"
  "sent_below_mark w \<Longrightarrow> sent_below_mark (fst (pushTranslatorMessage send (present row) w))"
proof -
  have "fst (pushTranslatorMessage send (present row) w) =
      (if sr_id row \<le> wt_lastSentID w then w
       else if send (row_message row) = None then w\<lparr>wt_lastSentID := sr_id row, wt_sent := wt_sent w @ [row_message row]\<rparr>
       else w\<lparr>wt_lastSentID := sr_id row\<rparr>)"
    by (auto simp: pushTranslatorMessage_def translate_present)
  moreover have "qo_id (row_message row) = sr_id row" by (simp add: row_message_def)
  ultimately show "passed m w \<Longrightarrow> passed m (fst (pushTranslatorMessage send (present row) w))"
    "sent_below_mark w \<Longrightarrow> sent_below_mark (fst (pushTranslatorMessage send (present row) w))"
    by (fastforce simp: passed_def sent_below_mark_def)+
qed

lemma loop_invariant:
  assumes push: "\<And>send row v. I v \<Longrightarrow> I (fst (pushTranslatorMessage send (present row) v))"
    and frame: "\<And>v v'. I v \<Longrightarrow> wt_sent v' = wt_sent v \<Longrightarrow> wt_lastSentID v' = wt_lastSentID v \<Longrightarrow> I v'"
  shows "I w \<Longrightarrow> I (fst (watch_loop items w))"
proof (induction items arbitrary: w)
  case (Cons item items)
  show ?case
  proof (cases item)
    case (Requery env send)
    let ?w1 = "w\<lparr>wt_signal := False, wt_ops := map (UpdateAfterID (wt_lastDeliveredID w)) (wt_ops w)\<rparr>"
    have "I (fst (processWatchResults env send ?w1))"
    proof (rule results_invariant)
      fix r v
      assume "r \<in> set (fst (Repository_Stream env (wt_db ?w1) (wt_ops ?w1)))" "I v"
      with Stream_sound[OF this(1)] push show "I (fst (pushTranslatorMessage send r v))" by blast
    qed (rule frame[OF Cons.prems]; simp)
    then have "I (fst (watch_iteration env send w))"
      by (auto simp: watch_iteration_def Let_def intro: frame split: prod.split outcome.split)
    with Cons show ?thesis by (auto simp: Requery split: prod.split outcome.split)
  qed (use Cons frame[of w] in \<open>simp_all add: Signal_def\<close>)
qed simp

text \<open>
  A watch never sends what it has passed: once it has sent an event, it sends no event with a
  smaller identifier, whatever is committed and dispatched afterwards and however the connection
  behaves. An event whose transaction commits after one with a larger identifier has been delivered,
  or whose time is later than that of an event with a larger identifier in the same query, is lost to
  the watch.
\<close>

theorem grpc_watch_loses_late_events:
  assumes "g_Watch items d q = (w, None)" "n \<in> set (wt_sent w)" "qo_id m < qo_id n" "m \<notin> set (wt_sent w)"
  shows "m \<notin> set (wt_sent (fst (g_Watch (items @ more_items) d q)))"
proof -
  from assms(1) obtain ops where b: "buildQueryOps q = Ok ops" by (cases "buildQueryOps q") (auto simp: g_Watch_def)
  let ?w = "NewRequerySignal d ops (getInitialAfterID q)"
  from assms(1) have w: "watch_loop items ?w = (w, None)" by (simp add: g_Watch_def b)
  have "sent_below_mark (fst (watch_loop items ?w))"
    by (rule loop_invariant) (auto simp: push_passed, auto simp: sent_below_mark_def NewRequerySignal_def Signal_def)
  with w assms(2,3,4) have "passed m w" by (fastforce simp: passed_def sent_below_mark_def)
  have "passed m (fst (watch_loop more_items w))"
    by (rule loop_invariant[where I = "passed m", OF _ _ \<open>passed m w\<close>]) (auto simp: push_passed, auto simp: passed_def)
  then show ?thesis by (simp add: g_Watch_def b watch_loop_append w passed_def)
qed

subsection \<open>Witnesses\<close>

definition demo_watch :: QueryIn where
  "demo_watch = \<lparr>qi_domain = ''a'', qi_stream = ''s'', qi_onKind = [], qi_onID = [], qi_onEach = Some 7, qi_afterID = None\<rparr>"

text \<open>The stream with only the second event committed, with both, and with a third one.\<close>

definition demo_second :: db where
  "demo_second = demo_events\<lparr>db_events := drop 1 (db_events demo_events)\<rparr>"

definition demo_first :: db where
  "demo_first = demo_events\<lparr>db_events := take 1 (db_events demo_events)\<rparr>"

definition demo_grown :: db where
  "demo_grown = demo_events\<lparr>db_events := take 1 (db_events demo_events) @
     [\<lparr>ee_id = 2, ee_stream_id = Some 1, ee_kind_id = Some 1, ee_when = 30, ee_event = JNum 2\<rparr>]\<rparr>"

lemma demo_dbs:
  "pg_events demo_second ''a'' ''s'' = [(2, 10, ''k'', JNum 2)]"
  "pg_events demo_first ''a'' ''s'' = [(1, 20, ''k'', JNum 1)]"
  "pg_events demo_grown ''a'' ''s'' = [(1, 20, ''k'', JNum 1), (2, 30, ''k'', JNum 2)]"
  by (simp_all add: demo_second_def demo_first_def demo_grown_def demo_events_def pg_events_def join_event_def List.map_filter_simps)

lemma demo_build: "\<exists>ops. buildQueryOps demo_watch = Ok ops"
  by (simp add: buildQueryOps_def demo_watch_def)

lemma demo_contains: "se_contains demo_sql = (\<lambda>_ _. True)"
  by (simp add: demo_sql_def)

theorem submit_under_lock_atomic_witness:
  "is_ok (snd (g_Submit no_faults 10 \<lparr>si_domain = ''d'', si_stream = ''s'', si_kind = ''k'', si_body = JNull,
       si_lock = Some \<lparr>lock_consumer = ''c'', lock_holder = ''a''\<rparr>\<rparr> \<lparr>vs_db = demo_db, vs_dispatched = []\<rparr>))"
proof -
  have "holds_lock 10 ''d'' ''s'' \<lparr>lock_consumer = ''c'', lock_holder = ''a''\<rparr> demo_db"
    using demo_db_ok(3) by (simp add: holds_lock_def)
  then show ?thesis
    using submit_under_lock_atomic[of "\<lparr>vs_db = demo_db, vs_dispatched = []\<rparr>"
        "\<lparr>si_domain = ''d'', si_stream = ''s'', si_kind = ''k'', si_body = JNull,
       si_lock = Some \<lparr>lock_consumer = ''c'', lock_holder = ''a''\<rparr>\<rparr>" _ 10 no_faults] demo_db_ok(1)
    by simp
qed

theorem grpc_watch_sends_once_witness:
  "sorted_wrt (<) (map qo_id (wt_sent (fst (g_Watch [Requery demo_sql (\<lambda>_. None), Emitted, Requery demo_sql (\<lambda>_. None)]
     demo_events demo_watch))))"
  using grpc_watch_sends_once[of "[Requery demo_sql (\<lambda>_. None), Emitted, Requery demo_sql (\<lambda>_. None)]" "\<lambda>_ _. True"
      demo_watch demo_events] demo_sql_ok demo_contains
  by (auto split: prod.splits)


lemma demo_watch_sent:
  "\<exists>w. g_Watch [Requery demo_sql (\<lambda>_. None)] demo_second demo_watch = (w, None)
     \<and> wt_sent w = [\<lparr>qo_op = 7, qo_id = 2, qo_when = 10, qo_kind = ''k'', qo_body = Some (JNum 2)\<rparr>]"
proof -
  let ?ops = "[OpAll \<lparr>as_domain = ''a'', as_stream = ''s'', as_op = 7, as_afterID = 0\<rparr>]"
  let ?w = "\<lparr>wt_db = demo_second, wt_signal = False, wt_lastSentID = -1, wt_lastDeliveredID = 0, wt_ops = ?ops, wt_sent = []\<rparr>"
  let ?row = "\<lparr>sr_id = 2, sr_when = 10, sr_op = 7, sr_event = JNum 2, sr_kind = ''k''\<rparr>"
  have "Repository_Stream demo_sql demo_second ?ops = ([present ?row], None)"
    by (simp add: Stream_eq[OF demo_sql_ok(1)] op_rows_def demo_dbs) (simp add: demo_sql_def)
  then have "processWatchResults demo_sql (\<lambda>_. None) ?w = (?w\<lparr>wt_lastSentID := 2, wt_sent := [row_message ?row]\<rparr>, Ok 2)"
    by (simp add: processWatchResults_def pushTranslatorMessage_def translate_present)
  then show ?thesis
    by (simp add: g_Watch_def buildQueryOps_def demo_watch_def NewRequerySignal_def Signal_def getInitialAfterID_def
        watch_iteration_def row_message_def)
qed

theorem grpc_watch_loses_late_events_witness:
  "\<lparr>qo_op = 7, qo_id = 1, qo_when = 20, qo_kind = ''k'', qo_body = Some (JNum 1)\<rparr> \<notin> set (wt_sent (fst (g_Watch
     ([Requery demo_sql (\<lambda>_. None)] @ [Committed demo_events, Emitted, Requery demo_sql (\<lambda>_. None)]) demo_second demo_watch)))
   \<and> \<lparr>qo_op = 7, qo_id = 1, qo_when = 20, qo_kind = ''k'', qo_body = Some (JNum 1)\<rparr>
       \<in> set (stream_messages (\<lambda>_ _. True) demo_watch demo_events)"
proof -
  obtain w where "g_Watch [Requery demo_sql (\<lambda>_. None)] demo_second demo_watch = (w, None)"
    "wt_sent w = [\<lparr>qo_op = 7, qo_id = 2, qo_when = 10, qo_kind = ''k'', qo_body = Some (JNum 2)\<rparr>]"
    using demo_watch_sent by blast
  moreover have "\<lparr>qo_op = 7, qo_id = 1, qo_when = 20, qo_kind = ''k'', qo_body = Some (JNum 1)\<rparr>
       \<in> set (stream_messages (\<lambda>_ _. True) demo_watch demo_events)"
    by (simp add: stream_messages_def demo_watch_def event_messages_def query_dispatches_def demo_events_rows)
  ultimately show ?thesis
    using grpc_watch_loses_late_events[of "[Requery demo_sql (\<lambda>_. None)]" demo_second demo_watch w
        "\<lparr>qo_op = 7, qo_id = 2, qo_when = 10, qo_kind = ''k'', qo_body = Some (JNum 2)\<rparr>"
        "\<lparr>qo_op = 7, qo_id = 1, qo_when = 20, qo_kind = ''k'', qo_body = Some (JNum 1)\<rparr>"
        "[Committed demo_events, Emitted, Requery demo_sql (\<lambda>_. None)]"]
    by simp
qed

end
