(* ===== verification/EventClient.thy ===== *)
theory EventClient
  imports EventService
begin

text \<open>
  The client side of commands and queries over gRPC: the remaining methods of \<open>GrpcAdapter\<close> in
  \<open>src/pkg/v1/grpcAdapter.go\<close>. A remote call is an argument: \<open>rpc\<close> gives for a request what the stub
  returns; for a streaming call this is either the error of opening the stream or the messages that
  \<open>Recv\<close> yields with how the stream ends (\<open>Ok ()\<close> for \<open>io.EOF\<close>). The fields of a request that only
  shape the reply (\<open>Style\<close>) are left out, as in the messages.
\<close>

type_synonym query_rpc = "QueryIn \<Rightarrow> (QueryOut list \<times> unit outcome) outcome"

subsection \<open>Commands\<close>

definition ga_EnsureStream :: "(string \<Rightarrow> string \<Rightarrow> unit outcome) \<Rightarrow> string \<Rightarrow> string \<Rightarrow> unit outcome" where
  "ga_EnsureStream rpc domain stream = bindo (rpc domain stream) (\<lambda>_. Ok ())"

text \<open>\<open>body\<close> is the result of \<open>json.Marshal\<close>.\<close>

definition ga_Submit ::
  "(SubmitIn \<Rightarrow> int64 outcome) \<Rightarrow> string \<Rightarrow> string \<Rightarrow> string \<Rightarrow> json outcome \<Rightarrow> Lock list \<Rightarrow> Submitted outcome" where
  "ga_Submit rpc domain stream kind body opts =
     bindo body (\<lambda>bytes.
       bindo (rpc \<lparr>si_domain = domain, si_stream = stream, si_kind = kind, si_body = bytes,
                   si_lock = map_option (\<lambda>l. \<lparr>lock_consumer = lock_consumer l, lock_holder = lock_holder l\<rparr>)
                     (cfg_lock (apply_options opts))\<rparr>)
         (\<lambda>i. Ok \<lparr>sub_id = i\<rparr>))"

text \<open>\<open>decode\<close> is \<open>json.Unmarshal\<close> into the caller's value.\<close>

definition ga_GetEvent ::
  "(string \<Rightarrow> string \<Rightarrow> int64 \<Rightarrow> json outcome) \<Rightarrow> (json \<Rightarrow> 'v outcome) \<Rightarrow> string \<Rightarrow> string \<Rightarrow> int64 \<Rightarrow> 'v outcome" where
  "ga_GetEvent rpc decode domain stream i = bindo (rpc domain stream i) decode"

subsection \<open>Queries\<close>

definition out_envelope :: "QueryOut \<Rightarrow> Envelope" where
  "out_envelope m = \<lparr>env_id = qo_id m, env_when = FormatEnvelopeWhen (qo_when m), env_kind = qo_kind m\<rparr>"

text \<open>What a receiving loop makes of a stream: the messages it turns into results, and how it returns.\<close>

definition receive_all :: "(QueryOut \<Rightarrow> 'r) \<Rightarrow> QueryOut list \<times> unit outcome \<Rightarrow> 'r list \<times> unit outcome" where
  "receive_all f = (\<lambda>(ms, ending). (map f ms, ending))"

definition ga_AllEnvelopes :: "query_rpc \<Rightarrow> string \<Rightarrow> string \<Rightarrow> Envelope list \<times> unit outcome" where
  "ga_AllEnvelopes rpc domain stream =
     (case rpc \<lparr>qi_domain = domain, qi_stream = stream, qi_onKind = [], qi_onID = [], qi_onEach = Some 42, qi_afterID = None\<rparr> of
        Err e \<Rightarrow> ([], Err e)
      | Panic p \<Rightarrow> ([], Panic p)
      | Ok (ms, ending) \<Rightarrow> receive_all out_envelope (filter (\<lambda>m. qo_op m = 42) ms, ending))"

text \<open>
  \<open>buildQueryRequest\<close> looks at whether the slice \<open>Eq\<close> is nil, which an empty list does not tell: \<open>eq_nil\<close>
  says so for the constraints of the query. A constraint with property matchers is sent without them and
  the result is marked as not filtered; \<open>AfterID\<close> is not sent.
\<close>

definition buildKindConstraint :: "KindConstraint \<Rightarrow> nat \<Rightarrow> OnKindClause" where
  "buildKindConstraint onKind index =
     \<lparr>okc_kind = kc_kind onKind, okc_allOp = None,
      okc_subsets = (case kc_matchSubset onKind of
         Some doc \<Rightarrow> [\<lparr>oks_op = int index, oks_match = Some doc\<rparr>] | None \<Rightarrow> [])\<rparr>"

definition buildQueryRequest :: "(KindConstraint \<Rightarrow> bool) \<Rightarrow> string \<Rightarrow> string \<Rightarrow> WireQuery \<Rightarrow> QueryIn \<times> bool" where
  "buildQueryRequest eq_nil domain stream query =
     (\<lparr>qi_domain = domain, qi_stream = stream,
       qi_onKind = map (\<lambda>(index, onKind).
          if \<not> eq_nil onKind then \<lparr>okc_kind = kc_kind onKind, okc_allOp = Some 42, okc_subsets = []\<rparr>
          else let constraint = buildKindConstraint onKind index
               in if kc_matchSubset onKind = None \<and> kc_eq onKind = [] then constraint\<lparr>okc_allOp := Some 42\<rparr> else constraint)
         (enumerate 0 (wq_kinds query)),
       qi_onID = [], qi_onEach = None, qi_afterID = None\<rparr>,
      list_all eq_nil (wq_kinds query))"

definition receiveQueryResults :: "QueryOut list \<times> unit outcome \<Rightarrow> WireQueryResult \<Rightarrow> WireQueryResult \<times> unit outcome" where
  "receiveQueryResults result out =
     (case receive_all out_envelope result of (es, ending) \<Rightarrow> (out\<lparr>wqr_matching := wqr_matching out @ es\<rparr>, ending))"

definition ga_Query ::
  "query_rpc \<Rightarrow> (KindConstraint \<Rightarrow> bool) \<Rightarrow> string \<Rightarrow> string \<Rightarrow> WireQuery \<Rightarrow> WireQueryResult \<Rightarrow> WireQueryResult \<times> unit outcome" where
  "ga_Query rpc eq_nil domain stream query out =
     (case buildQueryRequest eq_nil domain stream query of
        (q, filtered) \<Rightarrow>
          (case rpc q of
             Err e \<Rightarrow> (out, Err e)
           | Panic p \<Rightarrow> (out, Panic p)
           | Ok result \<Rightarrow> receiveQueryResults result (out\<lparr>wqr_filtered := filtered, wqr_subsetMatch := filtered\<rparr>)))"

definition ga_QueryBatch ::
  "query_rpc \<Rightarrow> string \<Rightarrow> string \<Rightarrow> WireQuery \<Rightarrow> WireBatchResultPair list \<Rightarrow> WireBatchResultPair list \<times> unit outcome" where
  "ga_QueryBatch rpc domain stream query out =
     (case rpc \<lparr>qi_domain = domain, qi_stream = stream,
         qi_onKind = map (\<lambda>k. \<lparr>okc_kind = kc_kind k,
             okc_allOp = (if kc_matchSubset k = None then Some 42 else None),
             okc_subsets = (case kc_matchSubset k of None \<Rightarrow> [] | Some doc \<Rightarrow> [\<lparr>oks_op = 42, oks_match = Some doc\<rparr>])\<rparr>) (wq_kinds query),
         qi_onID = [], qi_onEach = None, qi_afterID = None\<rparr> of
        Err e \<Rightarrow> (out, Err e)
      | Panic p \<Rightarrow> (out, Panic p)
      | Ok result \<Rightarrow>
          (case receive_all (\<lambda>m. \<lparr>wbp_meta = out_envelope m, wbp_data = qo_body m\<rparr>) result of
             (page, ending) \<Rightarrow> (out @ page, ending)))"

definition grpcMaybeWireOp :: "int option \<Rightarrow> int64 option" where
  "grpcMaybeWireOp maybeOp = (case maybeOp of None \<Rightarrow> None | Some deReferenced \<Rightarrow> Some deReferenced)"

definition buildBatchR2KindClause :: "WireBatchR2KindQuery \<Rightarrow> OnKindClause" where
  "buildBatchR2KindClause k =
     \<lparr>okc_kind = wbk_kind k, okc_allOp = grpcMaybeWireOp (wbk_all k),
      okc_subsets = map (\<lambda>match. \<lparr>oks_op = wbm_op match, oks_match = wbm_subset match\<rparr>) (wbk_match k)\<rparr>"

text \<open>For an empty batch the request is nil, which travels as a message without any field.\<close>

definition buildBatchR2Request :: "string \<Rightarrow> string \<Rightarrow> WireBatchR2Request \<Rightarrow> QueryIn option" where
  "buildBatchR2Request domain stream batch =
     (if WireBatchR2Request_Empty batch then None
      else Some \<lparr>qi_domain = domain, qi_stream = stream, qi_onKind = map buildBatchR2KindClause (wbr_onKinds batch),
                 qi_onID = map (\<lambda>i. \<lparr>oic_op = wbi_op i, oic_id = wbi_id i\<rparr>) (wbr_onID batch),
                 qi_onEach = None, qi_afterID = wbr_afterID batch\<rparr>)"

definition on_the_wire :: "QueryIn option \<Rightarrow> QueryIn" where
  "on_the_wire inp = (case inp of Some q \<Rightarrow> q
     | None \<Rightarrow> \<lparr>qi_domain = '''', qi_stream = '''', qi_onKind = [], qi_onID = [], qi_onEach = None, qi_afterID = None\<rparr>)"

definition receiveBatchR2Results ::
  "QueryOut list \<times> unit outcome \<Rightarrow> WireBatchR2Dispatch list \<Rightarrow> WireBatchR2Dispatch list \<times> unit outcome" where
  "receiveBatchR2Results result out =
     (case receive_all (\<lambda>m. \<lparr>wbd_envelope = out_envelope m, wbd_event = qo_body m, wbd_op = qo_op m\<rparr>) result of
        (rs, ending) \<Rightarrow> (out @ rs, ending))"

definition ga_QueryBatchR2 ::
  "query_rpc \<Rightarrow> string \<Rightarrow> string \<Rightarrow> WireBatchR2Request \<Rightarrow> WireBatchR2Dispatch list \<Rightarrow> WireBatchR2Dispatch list \<times> unit outcome" where
  "ga_QueryBatchR2 rpc domain stream batch out =
     (case rpc (on_the_wire (buildBatchR2Request domain stream batch)) of
        Err e \<Rightarrow> (out, Err e)
      | Panic p \<Rightarrow> (out, Panic p)
      | Ok result \<Rightarrow> receiveBatchR2Results result out)"

text \<open>
  \<open>Meta\<close> groups the streams by domain in a map; \<open>order\<close> is the order in which \<open>range\<close> visits the map.
\<close>

definition group_streams :: "(string \<times> string) list \<Rightarrow> (string, string list) mapping" where
  "group_streams targets =
     fold (\<lambda>(domain, stream) m. Mapping.update domain
             ((case Mapping.lookup m domain of Some ss \<Rightarrow> ss | None \<Rightarrow> []) @ [stream]) m) targets Mapping.empty"

definition ga_Meta :: "(string \<times> string) list outcome \<Rightarrow> string list \<Rightarrow> (string \<times> string list) list outcome" where
  "ga_Meta rpc order =
     bindo rpc (\<lambda>targets. Ok (map (\<lambda>d. (d, case Mapping.lookup (group_streams targets) d of Some ss \<Rightarrow> ss | None \<Rightarrow> [])) order))"

text \<open>A tick of a watch: a cancellation of the stream is the cancellation of the context.\<close>

definition grpcWatchPump_Tick :: "QueryOut outcome \<Rightarrow> QueryOut outcome" where
  "grpcWatchPump_Tick recv =
     (case recv of
        Err e \<Rightarrow> (case e of StatusError code msg \<Rightarrow> (if code = ''Canceled'' then Err (ContextError False) else Err e) | _ \<Rightarrow> Err e)
      | r \<Rightarrow> r)"

subsection \<open>The two transports agree\<close>

text \<open>The requests of the gRPC client and of the HTTP client become the same operations.\<close>

lemma kind_clause_ops_build: "kind_clause_ops domain stream a (buildBatchR2KindClause k) = kind_ops domain stream a k"
  by (simp add: kind_clause_ops_def buildBatchR2KindClause_def kind_ops_def grpcMaybeWireOp_def comp_def split: option.split)

lemma build_translate:
  assumes "\<not> WireBatchR2Request_Empty batch" "TranslateBatchR2 domain stream batch \<noteq> []"
  shows "buildQueryOps (on_the_wire (buildBatchR2Request domain stream batch)) = Ok (TranslateBatchR2 domain stream batch)"
  using assms
  by (simp add: buildBatchR2Request_def on_the_wire_def buildQueryOps_def TranslateBatchR2_eq kind_clause_ops_build comp_def
      WithMatchID_def Let_def)

lemma send_all:
  "for_each (send_result (\<lambda>_. None)) (map present rows) sent = (sent @ map row_message rows, Ok ())"
  by (induction rows arbitrary: sent) (simp_all add: send_result_def translate_present)

lemma Stream_present: "\<exists>rows. fst (Repository_Stream env d ops) = map present rows"
  unfolding ex_map_conv using Stream_sound[of _ env d ops] by blast


end
