(* ===== verification/Http.thy ===== *)
theory Http
  imports EventService
begin

text \<open>
  The HTTP interface: the routes of the service (\<open>dataRoutes\<close> of \<open>src/internal/service/service.go\<close>, with its handlers for
  positions, and \<open>src/internal/junk/restful\<close>) and the client \<open>HTTPTransportLayer\<close> (\<open>src/pkg/v1/restful.go\<close>).

  \<^item> A request has the verb, the URL and a body; a response the status and a body. A body is a document, \<open>None\<close> for
    one that is no JSON text. Encoders and decoders follow the JSON tags of the structs, with Go's rules for missing
    members and null (they give the zero value) and for a member of another type (an error); member names are matched
    exactly. An empty slice is encoded as null, as a nil slice is.
  \<^item> The time of an envelope is text: \<open>tx\<close> writes a \<open>when_text\<close> out and \<open>xt\<close> reads it.
  \<^item> \<open>mux\<close> is how gorilla/mux matches a template against a path: given whether the route is a path prefix, the
    segments of the template and the path it returns the variables. \<open>mux_documented\<close> is what its documentation says about
    it, for paths of plain segments.
  \<^item> \<open>network\<close> is \<open>http.NewRequest\<close> and \<open>http.Client.Do\<close>, on a state of what is at the other end.
\<close>

subsection \<open>Decimal numbers\<close>

fun digits :: "nat \<Rightarrow> string" where
  "digits n = (if n < 10 then [char_of (48 + n)] else digits (n div 10) @ [char_of (48 + n mod 10)])"

declare digits.simps [simp del]

definition FormatInt :: "int64 \<Rightarrow> string" where
  "FormatInt i = (if i < 0 then CHR ''-'' # digits (nat (- i)) else digits (nat i))"

definition digit_value :: "char \<Rightarrow> nat option" where
  "digit_value c = (let n = of_char c in if 48 \<le> n \<and> n \<le> (57 :: nat) then Some (n - 48) else None)"

fun read_digits :: "nat \<Rightarrow> string \<Rightarrow> nat option" where
  "read_digits acc [] = Some acc"
| "read_digits acc (c # cs) = (case digit_value c of None \<Rightarrow> None | Some v \<Rightarrow> read_digits (10 * acc + v) cs)"

definition ParseInt :: "string \<Rightarrow> int64 outcome" where
  "ParseInt s =
     (let (negative, ds) = (case s of
            [] \<Rightarrow> (False, [])
          | c # r \<Rightarrow> (if c = CHR ''-'' then (True, r) else if c = CHR ''+'' then (False, r) else (False, s)))
      in case (if ds = [] then None else read_digits 0 ds) of
           None \<Rightarrow> Err (TextError ''invalid syntax'')
         | Some n \<Rightarrow>
             (let i = (if negative then - int n else int n)
              in if i < - (2 ^ 63) \<or> 2 ^ 63 \<le> i then Err (TextError ''value out of range'') else Ok i))"

lemma digit_value_char: "n < 10 \<Longrightarrow> digit_value (char_of (48 + n)) = Some n"
  by (simp add: digit_value_def Let_def)

lemma digits_not_Nil [simp]: "digits n \<noteq> []"
  by (subst digits.simps) simp

lemma read_digits_append:
  "read_digits acc (xs @ ys) = (case read_digits acc xs of None \<Rightarrow> None | Some a \<Rightarrow> read_digits a ys)"
  by (induction xs arbitrary: acc) (auto split: option.splits)

lemma read_digits_digits: "read_digits 0 (digits n) = Some n"
proof (induction n rule: digits.induct)
  case (1 n)
  show ?case
  proof (cases "n < 10")
    case True
    then show ?thesis by (subst digits.simps) (simp add: digit_value_char)
  next
    case False
    with 1 have "read_digits 0 (digits (n div 10)) = Some (n div 10)" by simp
    with False show ?thesis by (subst digits.simps) (simp add: read_digits_append digit_value_char)
  qed
qed

definition is_digit :: "char \<Rightarrow> bool" where
  "is_digit c \<longleftrightarrow> digit_value c \<noteq> None"

lemma digits_are_digits: "c \<in> set (digits n) \<Longrightarrow> is_digit c"
proof (induction n rule: digits.induct)
  case (1 n)
  then show ?case
    by (subst (asm) (2) digits.simps) (auto simp: is_digit_def digit_value_char split: if_splits)
qed

lemma ParseInt_FormatInt:
  assumes "- (2 ^ 63) \<le> i" "i < 2 ^ 63"
  shows "ParseInt (FormatInt i) = Ok i"
proof (cases "i < 0")
  case True
  with assms show ?thesis by (simp add: ParseInt_def FormatInt_def read_digits_digits)
next
  case False
  obtain c r where d: "digits (nat i) = c # r" by (cases "digits (nat i)") auto
  then have "is_digit c" using digits_are_digits[of c "nat i"] by simp
  then have "c \<noteq> CHR ''-'' \<and> c \<noteq> CHR ''+''" by (auto simp: is_digit_def digit_value_def Let_def)
  with False d read_digits_digits[of "nat i"] assms show ?thesis by (simp add: ParseInt_def FormatInt_def)
qed

subsection \<open>Documents\<close>

definition json_error :: goerror where
  "json_error = TextError ''json: cannot unmarshal''"

fun dec_int :: "json \<Rightarrow> int outcome" where
  "dec_int (JNum n) = Ok n"
| "dec_int JNull = Ok 0"
| "dec_int _ = Err json_error"

fun dec_str :: "json \<Rightarrow> string outcome" where
  "dec_str (JStr s) = Ok s"
| "dec_str JNull = Ok ''''"
| "dec_str _ = Err json_error"

fun dec_bool :: "json \<Rightarrow> bool outcome" where
  "dec_bool (JBool b) = Ok b"
| "dec_bool JNull = Ok False"
| "dec_bool _ = Err json_error"

fun dec_list :: "(json \<Rightarrow> 'a outcome) \<Rightarrow> json \<Rightarrow> 'a list outcome" where
  "dec_list d (JArr xs) = traverse d xs"
| "dec_list d JNull = Ok []"
| "dec_list d _ = Err json_error"

definition dec_option :: "(json \<Rightarrow> 'a outcome) \<Rightarrow> json \<Rightarrow> 'a option outcome" where
  "dec_option d j = (if j = JNull then Ok None else bindo (d j) (\<lambda>x. Ok (Some x)))"

definition dec_raw :: "json \<Rightarrow> raw_message outcome" where
  "dec_raw j = Ok (Some j)"

text \<open>A member of an object, with the zero value of its type for an object that lacks it.\<close>

fun member :: "string \<Rightarrow> 'a \<Rightarrow> (json \<Rightarrow> 'a outcome) \<Rightarrow> json \<Rightarrow> 'a outcome" where
  "member name zero d (JObj ms) = (case map_of ms name of None \<Rightarrow> Ok zero | Some j \<Rightarrow> d j)"
| "member name zero d JNull = Ok zero"
| "member name zero d _ = Err json_error"

definition enc_list :: "('a \<Rightarrow> json) \<Rightarrow> 'a list \<Rightarrow> json" where
  "enc_list e xs = (if xs = [] then JNull else JArr (map e xs))"

definition enc_raw :: "raw_message \<Rightarrow> json" where
  "enc_raw r = (case r of None \<Rightarrow> JNull | Some j \<Rightarrow> j)"

definition omitempty :: "string \<Rightarrow> json option \<Rightarrow> (string \<times> json) list" where
  "omitempty name j = (case j of None \<Rightarrow> [] | Some j \<Rightarrow> [(name, j)])"

definition enc_Envelope :: "(when_text \<Rightarrow> string) \<Rightarrow> Envelope \<Rightarrow> json" where
  "enc_Envelope tx e = JObj [(''id'', JNum (env_id e)), (''when'', JStr (tx (env_when e))), (''kind'', JStr (env_kind e))]"

definition dec_Envelope :: "(string \<Rightarrow> when_text) \<Rightarrow> json \<Rightarrow> Envelope outcome" where
  "dec_Envelope xt j =
     bindo (member ''id'' 0 dec_int j) (\<lambda>i. bindo (member ''when'' '''' dec_str j) (\<lambda>w. bindo (member ''kind'' '''' dec_str j) (\<lambda>k.
       Ok \<lparr>env_id = i, env_when = xt w, env_kind = k\<rparr>)))"

definition enc_WireMatcherV1 :: "WireMatcherV1 \<Rightarrow> json" where
  "enc_WireMatcherV1 m = JObj [(''key'', enc_list JStr (wm_property m)), (''in'', enc_list JStr (wm_value m))]"

definition dec_WireMatcherV1 :: "json \<Rightarrow> WireMatcherV1 outcome" where
  "dec_WireMatcherV1 j =
     bindo (member ''key'' [] (dec_list dec_str) j) (\<lambda>p. bindo (member ''in'' [] (dec_list dec_str) j) (\<lambda>v.
       Ok \<lparr>wm_property = p, wm_value = v\<rparr>))"

definition enc_KindConstraint :: "KindConstraint \<Rightarrow> json" where
  "enc_KindConstraint c =
     JObj ((''kind'', JStr (kc_kind c))
       # omitempty ''$eq'' (if kc_eq c = [] then None else Some (enc_list enc_WireMatcherV1 (kc_eq c)))
       @ omitempty ''$sub'' (kc_matchSubset c))"

definition dec_KindConstraint :: "json \<Rightarrow> KindConstraint outcome" where
  "dec_KindConstraint j =
     bindo (member ''kind'' '''' dec_str j) (\<lambda>k. bindo (member ''$eq'' [] (dec_list dec_WireMatcherV1) j) (\<lambda>eq.
       bindo (member ''$sub'' None dec_raw j) (\<lambda>s. Ok \<lparr>kc_kind = k, kc_eq = eq, kc_matchSubset = s\<rparr>)))"

definition enc_WireQuery :: "WireQuery \<Rightarrow> json" where
  "enc_WireQuery q =
     JObj [(''KindConstraint'', enc_list enc_KindConstraint (wq_kinds q)),
           (''AfterID'', case wq_afterID q of None \<Rightarrow> JNull | Some i \<Rightarrow> JNum i)]"

definition dec_WireQuery :: "json \<Rightarrow> WireQuery outcome" where
  "dec_WireQuery j =
     bindo (member ''KindConstraint'' [] (dec_list dec_KindConstraint) j) (\<lambda>ks.
       bindo (member ''AfterID'' None (dec_option dec_int) j) (\<lambda>a. Ok \<lparr>wq_kinds = ks, wq_afterID = a\<rparr>))"

definition enc_WireQueryResult :: "(when_text \<Rightarrow> string) \<Rightarrow> WireQueryResult \<Rightarrow> json" where
  "enc_WireQueryResult tx r =
     JObj ((''filtered'', JBool (wqr_filtered r))
       # omitempty ''subsetMatch'' (if wqr_subsetMatch r then Some (JBool True) else None)
       @ [(''Matching'', enc_list (enc_Envelope tx) (wqr_matching r))])"

definition dec_WireQueryResult :: "(string \<Rightarrow> when_text) \<Rightarrow> json \<Rightarrow> WireQueryResult outcome" where
  "dec_WireQueryResult xt j =
     bindo (member ''filtered'' False dec_bool j) (\<lambda>f. bindo (member ''subsetMatch'' False dec_bool j) (\<lambda>s.
       bindo (member ''Matching'' [] (dec_list (dec_Envelope xt)) j) (\<lambda>m.
         Ok \<lparr>wqr_filtered = f, wqr_subsetMatch = s, wqr_matching = m\<rparr>)))"

definition enc_WireBatchResultPair :: "(when_text \<Rightarrow> string) \<Rightarrow> WireBatchResultPair \<Rightarrow> json" where
  "enc_WireBatchResultPair tx p = JObj [(''meta'', enc_Envelope tx (wbp_meta p)), (''event'', enc_raw (wbp_data p))]"

definition dec_WireBatchResultPair :: "(string \<Rightarrow> when_text) \<Rightarrow> json \<Rightarrow> WireBatchResultPair outcome" where
  "dec_WireBatchResultPair xt j =
     bindo (member ''meta'' \<lparr>env_id = 0, env_when = xt '''', env_kind = ''''\<rparr> (dec_Envelope xt) j) (\<lambda>m.
       bindo (member ''event'' None dec_raw j) (\<lambda>d. Ok \<lparr>wbp_meta = m, wbp_data = d\<rparr>))"

definition enc_page :: "(when_text \<Rightarrow> string) \<Rightarrow> WireBatchResultPair list \<Rightarrow> json" where
  "enc_page tx ps = JObj [(''page'', enc_list (enc_WireBatchResultPair tx) ps)]"

definition dec_page :: "(string \<Rightarrow> when_text) \<Rightarrow> json \<Rightarrow> WireBatchResultPair list outcome" where
  "dec_page xt = member ''page'' [] (dec_list (dec_WireBatchResultPair xt))"

definition enc_KindMatch :: "WireBatchR2KindMatch \<Rightarrow> json" where
  "enc_KindMatch m = JObj [(''op'', JNum (wbm_op m)), (''$sub'', enc_raw (wbm_subset m))]"

definition dec_KindMatch :: "json \<Rightarrow> WireBatchR2KindMatch outcome" where
  "dec_KindMatch j =
     bindo (member ''op'' 0 dec_int j) (\<lambda>n. bindo (member ''$sub'' None dec_raw j) (\<lambda>s. Ok \<lparr>wbm_op = n, wbm_subset = s\<rparr>))"

definition enc_KindQuery :: "WireBatchR2KindQuery \<Rightarrow> json" where
  "enc_KindQuery k =
     JObj ((''kind'', JStr (wbk_kind k)) # omitempty ''all'' (map_option JNum (wbk_all k))
       @ omitempty ''match'' (if wbk_match k = [] then None else Some (enc_list enc_KindMatch (wbk_match k))))"

definition dec_KindQuery :: "json \<Rightarrow> WireBatchR2KindQuery outcome" where
  "dec_KindQuery j =
     bindo (member ''kind'' '''' dec_str j) (\<lambda>k. bindo (member ''all'' None (dec_option dec_int) j) (\<lambda>a.
       bindo (member ''match'' [] (dec_list dec_KindMatch) j) (\<lambda>m. Ok \<lparr>wbk_kind = k, wbk_all = a, wbk_match = m\<rparr>)))"

definition enc_IDQuery :: "WireBatchR2IDQuery \<Rightarrow> json" where
  "enc_IDQuery q = JObj [(''op'', JNum (wbi_op q)), (''id'', JNum (wbi_id q))]"

definition dec_IDQuery :: "json \<Rightarrow> WireBatchR2IDQuery outcome" where
  "dec_IDQuery j = bindo (member ''op'' 0 dec_int j) (\<lambda>n. bindo (member ''id'' 0 dec_int j) (\<lambda>i. Ok \<lparr>wbi_op = n, wbi_id = i\<rparr>))"

definition enc_R2Request :: "WireBatchR2Request \<Rightarrow> json" where
  "enc_R2Request r =
     JObj ([(''kinds'', enc_list enc_KindQuery (wbr_onKinds r)), (''ids'', enc_list enc_IDQuery (wbr_onID r))]
       @ omitempty ''afterID'' (map_option JNum (wbr_afterID r)))"

definition dec_R2Request :: "json \<Rightarrow> WireBatchR2Request outcome" where
  "dec_R2Request j =
     bindo (member ''kinds'' [] (dec_list dec_KindQuery) j) (\<lambda>ks. bindo (member ''ids'' [] (dec_list dec_IDQuery) j) (\<lambda>is.
       bindo (member ''afterID'' None (dec_option dec_int) j) (\<lambda>a.
         Ok \<lparr>wbr_onKinds = ks, wbr_onID = is, wbr_afterID = a\<rparr>)))"

definition enc_Dispatch :: "(when_text \<Rightarrow> string) \<Rightarrow> WireBatchR2Dispatch \<Rightarrow> json" where
  "enc_Dispatch tx x =
     JObj [(''n'', enc_Envelope tx (wbd_envelope x)), (''v'', enc_raw (wbd_event x)), (''o'', JNum (wbd_op x))]"

definition dec_Dispatch :: "(string \<Rightarrow> when_text) \<Rightarrow> json \<Rightarrow> WireBatchR2Dispatch outcome" where
  "dec_Dispatch xt j =
     bindo (member ''n'' \<lparr>env_id = 0, env_when = xt '''', env_kind = ''''\<rparr> (dec_Envelope xt) j) (\<lambda>n.
       bindo (member ''v'' None dec_raw j) (\<lambda>v. bindo (member ''o'' 0 dec_int j) (\<lambda>p.
         Ok \<lparr>wbd_envelope = n, wbd_event = v, wbd_op = p\<rparr>)))"

definition enc_R2Result :: "(when_text \<Rightarrow> string) \<Rightarrow> WireBatchR2Dispatch list \<Rightarrow> json" where
  "enc_R2Result tx xs = JObj [(''results'', enc_list (enc_Dispatch tx) xs)]"

definition dec_R2Result :: "(string \<Rightarrow> when_text) \<Rightarrow> json \<Rightarrow> WireBatchR2Dispatch list outcome" where
  "dec_R2Result xt = member ''results'' [] (dec_list (dec_Dispatch xt))"

definition enc_Meta :: "(string \<times> string list) list \<Rightarrow> json" where
  "enc_Meta ds =
     JObj [(''domains'', enc_list (\<lambda>(name, streams). JObj [(''name'', JStr name), (''streams'', enc_list JStr streams)]) ds)]"

definition dec_Meta :: "json \<Rightarrow> (string \<times> string list) list outcome" where
  "dec_Meta = member ''domains'' [] (dec_list (\<lambda>j.
     bindo (member ''name'' '''' dec_str j) (\<lambda>n. bindo (member ''streams'' [] (dec_list dec_str) j) (\<lambda>s. Ok (n, s)))))"

subsection \<open>Decoding what was encoded\<close>

lemma traverse_inverse: "(\<And>x. x \<in> set xs \<Longrightarrow> d (e x) = Ok x) \<Longrightarrow> traverse d (map e xs) = Ok xs"
  by (induction xs) simp_all

lemma dec_enc_list [simp]: "(\<And>x. x \<in> set xs \<Longrightarrow> d (e x) = Ok x) \<Longrightarrow> dec_list d (enc_list e xs) = Ok xs"
  by (simp add: enc_list_def traverse_inverse)

lemma omitempty_simps [simp]: "omitempty name None = []" "omitempty name (Some j) = [(name, j)]"
  by (simp_all add: omitempty_def)

lemma dec_option_simps [simp]: "dec_option d JNull = Ok None" "dec_option dec_int (JNum i) = Ok (Some i)"
  by (simp_all add: dec_option_def)

lemma dec_enc_raw [simp]: "r \<noteq> None \<Longrightarrow> dec_raw (enc_raw r) = Ok r" "dec_raw j = Ok (Some j)"
  by (auto simp: dec_raw_def enc_raw_def)

lemma dec_enc_Envelope [simp]: "xt (tx (env_when e)) = env_when e \<Longrightarrow> dec_Envelope xt (enc_Envelope tx e) = Ok e"
  by (simp add: dec_Envelope_def enc_Envelope_def)

lemma dec_enc_WireMatcherV1 [simp]: "dec_WireMatcherV1 (enc_WireMatcherV1 m) = Ok m"
  by (simp add: dec_WireMatcherV1_def enc_WireMatcherV1_def)

lemma dec_enc_KindConstraint [simp]: "dec_KindConstraint (enc_KindConstraint c) = Ok c"
  by (cases c; cases "kc_matchSubset c") (auto simp: dec_KindConstraint_def enc_KindConstraint_def)

lemma dec_enc_WireQuery [simp]: "dec_WireQuery (enc_WireQuery q) = Ok q"
  by (cases q; cases "wq_afterID q") (auto simp: dec_WireQuery_def enc_WireQuery_def)

lemma dec_enc_WireQueryResult [simp]:
  "(\<And>w. xt (tx w) = w) \<Longrightarrow> dec_WireQueryResult xt (enc_WireQueryResult tx r) = Ok r"
  by (cases r; cases "wqr_subsetMatch r") (auto simp: dec_WireQueryResult_def enc_WireQueryResult_def)

lemma dec_enc_page [simp]:
  assumes "\<And>w. xt (tx w) = w" "\<forall>p \<in> set ps. wbp_data p \<noteq> None"
  shows "dec_page xt (enc_page tx ps) = Ok ps"
proof -
  have "dec_WireBatchResultPair xt (enc_WireBatchResultPair tx p) = Ok p" if "p \<in> set ps" for p
    using that assms by (cases "wbp_data p") (auto simp: dec_WireBatchResultPair_def enc_WireBatchResultPair_def enc_raw_def)
  then show ?thesis by (simp add: dec_page_def enc_page_def)
qed

definition subsets_given :: "WireBatchR2Request \<Rightarrow> bool" where
  "subsets_given r \<longleftrightarrow> (\<forall>k \<in> set (wbr_onKinds r). \<forall>mt \<in> set (wbk_match k). wbm_subset mt \<noteq> None)"

lemma dec_enc_KindQuery [simp]:
  assumes "\<forall>mt \<in> set (wbk_match k). wbm_subset mt \<noteq> None"
  shows "dec_KindQuery (enc_KindQuery k) = Ok k"
proof -
  have "dec_KindMatch (enc_KindMatch mt) = Ok mt" if "mt \<in> set (wbk_match k)" for mt
    using that assms by (cases "wbm_subset mt") (auto simp: dec_KindMatch_def enc_KindMatch_def enc_raw_def)
  then have "dec_list dec_KindMatch (enc_list enc_KindMatch (wbk_match k)) = Ok (wbk_match k)" by simp
  then show ?thesis by (cases "wbk_all k"; cases "wbk_match k = []") (simp_all add: dec_KindQuery_def enc_KindQuery_def)
qed

lemma dec_enc_R2Request [simp]:
  assumes "subsets_given r"
  shows "dec_R2Request (enc_R2Request r) = Ok r"
proof -
  have "dec_list dec_KindQuery (enc_list enc_KindQuery (wbr_onKinds r)) = Ok (wbr_onKinds r)"
    using assms by (simp add: subsets_given_def)
  moreover have "dec_list dec_IDQuery (enc_list enc_IDQuery (wbr_onID r)) = Ok (wbr_onID r)"
    by (simp add: dec_IDQuery_def enc_IDQuery_def)
  ultimately show ?thesis by (cases "wbr_afterID r") (simp_all add: dec_R2Request_def enc_R2Request_def)
qed

lemma dec_enc_R2Result [simp]:
  assumes "\<And>w. xt (tx w) = w" "\<forall>x \<in> set xs. wbd_event x \<noteq> None"
  shows "dec_R2Result xt (enc_R2Result tx xs) = Ok xs"
proof -
  have "dec_Dispatch xt (enc_Dispatch tx x) = Ok x" if "x \<in> set xs" for x
    using that assms by (cases "wbd_event x") (auto simp: dec_Dispatch_def enc_Dispatch_def enc_raw_def)
  then show ?thesis by (simp add: dec_R2Result_def enc_R2Result_def)
qed

lemma dec_enc_Meta [simp]: "dec_Meta (enc_Meta ds) = Ok ds"
  by (auto simp: dec_Meta_def enc_Meta_def split: prod.split)

subsection \<open>The routes of the service\<close>

datatype http_method = GET | POST | PUT | DELETE

record http_response =
  hr_status :: int
  hr_body :: raw_message

datatype segment = Lit string | Var

datatype route =
    ServiceInfo | Info | EnsureRoute | AllRoute | PayloadRoute | SubmitRoute | QueryRoute | QueryBatchRoute | QueryBatchR2Route
  | MetaRoute | GetPositionRoute | SetPositionRoute | DeletePositionRoute | ListConsumersRoute

type_synonym mux = "bool \<Rightarrow> segment list \<Rightarrow> string \<Rightarrow> string list option"

text \<open>The table of routes, in the order in which they are tried: handler, methods, path prefix or path, template.\<close>

definition dataRoutes :: "(route \<times> http_method option \<times> bool \<times> segment list) list" where
  "dataRoutes =
     (let v1 = Lit ''v1''; app = [v1, Lit ''app'', Var, Var]; positions = [v1, Lit ''domains'', Var, Lit ''streams'', Var, Lit ''positions'']
      in [(ServiceInfo, None, False, [Lit '''']),
          (Info, None, True, [v1, Lit ''info'']),
          (EnsureRoute, Some PUT, True, app),
          (AllRoute, Some GET, True, app @ [Lit ''all'']),
          (PayloadRoute, Some GET, True, app @ [Lit ''payload'', Var]),
          (SubmitRoute, Some POST, True, app @ [Lit ''submit'', Var]),
          (QueryRoute, Some POST, False, app @ [Lit ''query'']),
          (QueryBatchRoute, Some POST, False, app @ [Lit ''query-batch'']),
          (QueryBatchR2Route, Some POST, False, app @ [Lit ''query-batch-r2'']),
          (MetaRoute, Some GET, False, [v1, Lit ''app'']),
          (GetPositionRoute, Some GET, True, positions @ [Var]),
          (SetPositionRoute, Some POST, True, positions @ [Var]),
          (DeletePositionRoute, Some DELETE, True, positions @ [Var]),
          (ListConsumersRoute, Some GET, True, positions)])"

text \<open>The first route whose template and verb match; 405 when only the verb of a route differs, else 404.\<close>

fun find_route ::
  "mux \<Rightarrow> http_method \<Rightarrow> string \<Rightarrow> int \<Rightarrow> (route \<times> http_method option \<times> bool \<times> segment list) list \<Rightarrow> int + (route \<times> string list)" where
  "find_route mux verb path status [] = Inl status"
| "find_route mux verb path status ((r, want, pre, template) # rs) =
     (case mux pre template path of
        None \<Rightarrow> find_route mux verb path status rs
      | Some vars \<Rightarrow>
          (if want = None \<or> want = Some verb then Inr (r, vars) else find_route mux verb path 405 rs))"

text \<open>What the handlers read: faults of the statements, the environment of the queries, the clock and the order of rows.\<close>

record http_env =
  he_fault :: faults
  he_sql :: sql_env
  he_now :: time
  he_order :: "string list \<Rightarrow> string list"

definition respond_ok :: "json \<Rightarrow> http_response outcome" where
  "respond_ok doc = Ok \<lparr>hr_status = 200, hr_body = Some doc\<rparr>"

definition respond_text :: "int \<Rightarrow> http_response outcome" where
  "respond_text status = Ok \<lparr>hr_status = status, hr_body = None\<rparr>"

text \<open>\<open>InternalError\<close> answers an error; a panic of a handler ends the connection.\<close>

definition respond_result :: "('a \<Rightarrow> json) \<Rightarrow> 'a outcome \<Rightarrow> http_response outcome" where
  "respond_result enc r = (case r of Ok x \<Rightarrow> respond_ok (enc x) | Err e \<Rightarrow> respond_text 500 | Panic p \<Rightarrow> Panic p)"

text \<open>\<open>ParseRequestEntity\<close>: a body that does not decode is answered with 422.\<close>

definition with_entity :: "(json \<Rightarrow> 'a outcome) \<Rightarrow> raw_message \<Rightarrow> ('a \<Rightarrow> http_response outcome) \<Rightarrow> http_response outcome" where
  "with_entity dec body f =
     (case body of
        None \<Rightarrow> respond_text 422
      | Some doc \<Rightarrow> (case dec doc of Ok x \<Rightarrow> f x | Err e \<Rightarrow> respond_text 422 | Panic p \<Rightarrow> Panic p))"

definition getPosition :: "http_env \<Rightarrow> string \<Rightarrow> string \<Rightarrow> string \<Rightarrow> db \<Rightarrow> http_response outcome" where
  "getPosition env domain stream consumer d =
     respond_result (\<lambda>(eventID, found). JObj [(''eventID'', JNum eventID), (''found'', JBool found)])
       (cs_GetPosition (he_fault env) domain stream consumer d)"

definition setPosition :: "http_env \<Rightarrow> string \<Rightarrow> string \<Rightarrow> string \<Rightarrow> raw_message \<Rightarrow> db \<Rightarrow> db \<times> http_response outcome" where
  "setPosition env domain stream consumer body d =
     (case (case body of None \<Rightarrow> Err json_error | Some doc \<Rightarrow> member ''eventID'' 0 dec_int doc) of
        Err e \<Rightarrow> (d, respond_text 500)
      | Panic p \<Rightarrow> (d, Panic p)
      | Ok eventID \<Rightarrow>
          (case cs_SetPosition (he_fault env) domain stream consumer eventID d of
             (d1, r) \<Rightarrow>
               (d1, respond_result (\<lambda>result.
                      JObj ([(''ok'', JBool True), (''currentEventID'', JNum (sp_current result))]
                        @ omitempty ''previousEventID'' (map_option JNum (sp_previous result)))) r)))"

definition deletePosition :: "http_env \<Rightarrow> string \<Rightarrow> string \<Rightarrow> string \<Rightarrow> db \<Rightarrow> db \<times> http_response outcome" where
  "deletePosition env domain stream consumer d =
     (case cs_DeletePosition (he_fault env) domain stream consumer d of
        (d1, r) \<Rightarrow> (d1, respond_result (\<lambda>_. JObj [(''ok'', JBool True)]) r))"

definition listConsumers :: "http_env \<Rightarrow> string \<Rightarrow> string \<Rightarrow> db \<Rightarrow> http_response outcome" where
  "listConsumers env domain stream d =
     respond_result (\<lambda>consumers. JObj [(''consumers'', enc_list JStr consumers)])
       (cs_ListConsumers (he_fault env) domain stream d)"

text \<open>The handlers of \<open>ensureStream\<close> and \<open>fetchPayload\<close>, which are written in the table itself.\<close>

definition ensure_route :: "http_env \<Rightarrow> string \<Rightarrow> string \<Rightarrow> db \<Rightarrow> db \<times> http_response outcome" where
  "ensure_route env app stream d =
     (case ensureStream (he_fault env) app stream d of (d1, r) \<Rightarrow> (d1, respond_result (\<lambda>_. JObj [(''ok'', JBool True)]) r))"

definition payload_route :: "http_env \<Rightarrow> string \<Rightarrow> string \<Rightarrow> string \<Rightarrow> db \<Rightarrow> http_response outcome" where
  "payload_route env app stream idString d =
     (case ParseInt idString of
        Ok i \<Rightarrow>
          (case fetchPayload (he_fault env) app stream i d of
             Ok doc \<Rightarrow> respond_ok doc
           | Err e \<Rightarrow> Panic ''junk.Must''
           | Panic p \<Rightarrow> Panic p)
      | _ \<Rightarrow> respond_text 404)"

text \<open>A body that is no JSON fails in the database, which keeps events in a \<open>JSONB\<close> column.\<close>

definition submit_route ::
  "http_env \<Rightarrow> string \<Rightarrow> string \<Rightarrow> string \<Rightarrow> raw_message \<Rightarrow> event_server \<Rightarrow> event_server \<times> http_response outcome" where
  "submit_route env app stream kind body sv =
     (case body of
        None \<Rightarrow> (sv, respond_text 500)
      | Some doc \<Rightarrow>
          (case v1SubmitByKind (he_fault env) (he_now env) app stream kind (Ok doc) sv of
             (sv1, r) \<Rightarrow> (sv1, respond_result (\<lambda>i. JObj [(''id'', JNum i)]) r)))"

definition serve_data ::
  "mux \<Rightarrow> (when_text \<Rightarrow> string) \<Rightarrow> http_env \<Rightarrow> http_method \<Rightarrow> string \<Rightarrow> raw_message \<Rightarrow> event_server
     \<Rightarrow> event_server \<times> http_response outcome" where
  "serve_data mux tx env verb path body sv =
     (let d = vs_db sv; stored = (\<lambda>(d1, r). (sv\<lparr>vs_db := d1\<rparr>, r)) in
      case find_route mux verb path 404 dataRoutes of
        Inl status \<Rightarrow> (sv, respond_text status)
      | Inr (r, vars) \<Rightarrow>
          (case r of
             ServiceInfo \<Rightarrow> (sv, respond_ok (JObj [(''string'', JStr ''pgcqrs''), (''version'', JStr ''dev'')]))
           | Info \<Rightarrow> (sv, respond_ok (JStr ''pg-cqrs''))
           | EnsureRoute \<Rightarrow> stored (ensure_route env (vars ! 0) (vars ! 1) d)
           | AllRoute \<Rightarrow>
               (sv, respond_result (\<lambda>es. JObj [(''envelopes'', enc_list (enc_Envelope tx) es)])
                      (v1QueryAllEnvelopes (he_sql env) d (vars ! 0) (vars ! 1)))
           | PayloadRoute \<Rightarrow> (sv, payload_route env (vars ! 0) (vars ! 1) (vars ! 2) d)
           | SubmitRoute \<Rightarrow> submit_route env (vars ! 0) (vars ! 1) (vars ! 2) body sv
           | QueryRoute \<Rightarrow>
               (sv, with_entity dec_WireQuery body (\<lambda>query.
                      respond_result (enc_WireQueryResult tx) (v1QueryRoute (he_sql env) d (vars ! 0) (vars ! 1) query)))
           | QueryBatchRoute \<Rightarrow>
               (sv, with_entity dec_WireQuery body (\<lambda>query.
                      respond_result (enc_page tx) (v1QueryBatchRoute (he_sql env) d (vars ! 0) (vars ! 1) query)))
           | QueryBatchR2Route \<Rightarrow>
               (sv, with_entity dec_R2Request body (\<lambda>query.
                      respond_result (enc_R2Result tx) (v1QueryBatchR2Route (he_sql env) d (vars ! 0) (vars ! 1) query)))
           | MetaRoute \<Rightarrow> (sv, respond_result enc_Meta (v1Meta (he_sql env) (he_order env) d))
           | GetPositionRoute \<Rightarrow> (sv, getPosition env (vars ! 0) (vars ! 1) (vars ! 2) d)
           | SetPositionRoute \<Rightarrow> stored (setPosition env (vars ! 0) (vars ! 1) (vars ! 2) body d)
           | DeletePositionRoute \<Rightarrow> stored (deletePosition env (vars ! 0) (vars ! 1) (vars ! 2) d)
           | ListConsumersRoute \<Rightarrow> (sv, listConsumers env (vars ! 0) (vars ! 1) d)))"

subsection \<open>The client\<close>

record 's network =
  nw_newRequest :: "http_method \<Rightarrow> string \<Rightarrow> goerror option"
  nw_do :: "http_method \<Rightarrow> string \<Rightarrow> raw_message \<Rightarrow> 's \<Rightarrow> 's \<times> http_response outcome"

definition http_exchange ::
  "'s network \<Rightarrow> http_method \<Rightarrow> string \<Rightarrow> raw_message \<Rightarrow> 's \<Rightarrow> 's \<times> http_response outcome" where
  "http_exchange nw verb url body s =
     (case nw_newRequest nw verb url of
        Some e \<Rightarrow> (s, Err e)
      | None \<Rightarrow>
          (case nw_do nw verb url body s of
             (s1, Err e) \<Rightarrow> (s1, Err (TransportError e))
           | r \<Rightarrow> r))"

definition decode_body :: "(json \<Rightarrow> 'a outcome) \<Rightarrow> http_response \<Rightarrow> 'a outcome" where
  "decode_body decode resp = (case hr_body resp of None \<Rightarrow> Err json_error | Some doc \<Rightarrow> decode doc)"

definition expect_200 :: "string \<Rightarrow> (http_response \<Rightarrow> 'a outcome) \<Rightarrow> 's \<times> http_response outcome \<Rightarrow> 's \<times> 'a outcome" where
  "expect_200 url f sr =
     (case sr of (s, r) \<Rightarrow>
        (s, bindo r (\<lambda>resp. if hr_status resp \<noteq> 200 then Err (BadResponseCode url (hr_status resp)) else f resp)))"

definition http_post ::
  "'s network \<Rightarrow> string \<Rightarrow> string \<Rightarrow> json outcome \<Rightarrow> (json \<Rightarrow> 'a outcome) \<Rightarrow> 's \<Rightarrow> 's \<times> 'a outcome" where
  "http_post nw base resource requestEntity decode s =
     (case requestEntity of
        Err e \<Rightarrow> (s, Err e)
      | Panic p \<Rightarrow> (s, Panic p)
      | Ok doc \<Rightarrow>
          expect_200 (base @ resource) (decode_body decode) (http_exchange nw POST (base @ resource) (Some doc) s))"

definition http_get :: "'s network \<Rightarrow> string \<Rightarrow> string \<Rightarrow> (json \<Rightarrow> 'a outcome) \<Rightarrow> 's \<Rightarrow> 's \<times> 'a outcome" where
  "http_get nw base resource decode s =
     expect_200 (base @ resource) (decode_body decode) (http_exchange nw GET (base @ resource) None s)"

definition http_AllEnvelopes ::
  "'s network \<Rightarrow> string \<Rightarrow> (string \<Rightarrow> when_text) \<Rightarrow> string \<Rightarrow> string \<Rightarrow> 's \<Rightarrow> 's \<times> Envelope list outcome" where
  "http_AllEnvelopes nw base xt app stream =
     http_get nw base (''/v1/app/'' @ app @ ''/'' @ stream @ ''/all'') (member ''envelopes'' [] (dec_list (dec_Envelope xt)))"

text \<open>Every status but 404 is taken for success when the body decodes.\<close>

definition http_Submit ::
  "'s network \<Rightarrow> string \<Rightarrow> string \<Rightarrow> string \<Rightarrow> string \<Rightarrow> json outcome \<Rightarrow> 's \<Rightarrow> 's \<times> Submitted outcome" where
  "http_Submit nw base app stream kind event s =
     (case event of
        Err e \<Rightarrow> (s, Err e)
      | Panic p \<Rightarrow> (s, Panic p)
      | Ok payload \<Rightarrow>
          (let url = base @ ''/v1/app/'' @ app @ ''/'' @ stream @ ''/submit/'' @ kind
           in case http_exchange nw POST url (Some payload) s of
                (s1, r) \<Rightarrow>
                  (s1, bindo r (\<lambda>resp.
                     if hr_status resp = 404 then Err (JoinError [BadResponseCode url 404])
                     else bindo (decode_body (member ''id'' 0 dec_int) resp) (\<lambda>i. Ok \<lparr>sub_id = i\<rparr>)))))"

definition http_EnsureStream :: "'s network \<Rightarrow> string \<Rightarrow> string \<Rightarrow> string \<Rightarrow> 's \<Rightarrow> 's \<times> unit outcome" where
  "http_EnsureStream nw base app stream s =
     (let url = base @ ''/v1/app/'' @ app @ ''/'' @ stream
      in expect_200 url (\<lambda>resp. Ok ()) (http_exchange nw PUT url None s))"

definition http_GetEvent ::
  "'s network \<Rightarrow> string \<Rightarrow> string \<Rightarrow> string \<Rightarrow> int64 \<Rightarrow> (json \<Rightarrow> 'a outcome) \<Rightarrow> 's \<Rightarrow> 's \<times> 'a outcome" where
  "http_GetEvent nw base app stream i decode =
     http_get nw base (''/v1/app/'' @ app @ ''/'' @ stream @ ''/payload/'' @ FormatInt i) decode"

definition http_Query ::
  "'s network \<Rightarrow> string \<Rightarrow> (string \<Rightarrow> when_text) \<Rightarrow> string \<Rightarrow> string \<Rightarrow> WireQuery \<Rightarrow> 's \<Rightarrow> 's \<times> WireQueryResult outcome" where
  "http_Query nw base xt domain stream query =
     http_post nw base (''/v1/app/'' @ domain @ ''/'' @ stream @ ''/query'') (Ok (enc_WireQuery query)) (dec_WireQueryResult xt)"

definition http_QueryBatch ::
  "'s network \<Rightarrow> string \<Rightarrow> (string \<Rightarrow> when_text) \<Rightarrow> string \<Rightarrow> string \<Rightarrow> WireQuery \<Rightarrow> 's \<Rightarrow> 's \<times> WireBatchResultPair list outcome" where
  "http_QueryBatch nw base xt domain stream query =
     http_post nw base (''/v1/app/'' @ domain @ ''/'' @ stream @ ''/query-batch'') (Ok (enc_WireQuery query)) (dec_page xt)"

definition http_QueryBatchR2 ::
  "'s network \<Rightarrow> string \<Rightarrow> (string \<Rightarrow> when_text) \<Rightarrow> string \<Rightarrow> string \<Rightarrow> WireBatchR2Request \<Rightarrow> 's
     \<Rightarrow> 's \<times> WireBatchR2Dispatch list outcome" where
  "http_QueryBatchR2 nw base xt domain stream query =
     http_post nw base (''/v1/app/'' @ domain @ ''/'' @ stream @ ''/query-batch-r2'') (Ok (enc_R2Request query)) (dec_R2Result xt)"

definition positions_url :: "string \<Rightarrow> string \<Rightarrow> string" where
  "positions_url domain stream = ''/v1/domains/'' @ domain @ ''/streams/'' @ stream @ ''/positions''"

definition http_SetPosition ::
  "'s network \<Rightarrow> string \<Rightarrow> string \<Rightarrow> string \<Rightarrow> string \<Rightarrow> int64 \<Rightarrow> 's \<Rightarrow> 's \<times> SetPositionResult outcome" where
  "http_SetPosition nw base domain stream consumer eventID =
     http_post nw base (positions_url domain stream @ ''/'' @ consumer) (Ok (JObj [(''eventID'', JNum eventID)])) (\<lambda>j.
       bindo (member ''currentEventID'' 0 dec_int j) (\<lambda>current.
         bindo (member ''previousEventID'' None (dec_option dec_int) j) (\<lambda>previous.
           Ok \<lparr>sp_previous = previous, sp_current = current\<rparr>)))"

definition http_GetPosition ::
  "'s network \<Rightarrow> string \<Rightarrow> string \<Rightarrow> string \<Rightarrow> string \<Rightarrow> 's \<Rightarrow> 's \<times> (int64 \<times> bool) outcome" where
  "http_GetPosition nw base domain stream consumer =
     http_get nw base (positions_url domain stream @ ''/'' @ consumer) (\<lambda>j.
       bindo (member ''eventID'' 0 dec_int j) (\<lambda>i. bindo (member ''found'' False dec_bool j) (\<lambda>found. Ok (i, found))))"

definition http_ListConsumers :: "'s network \<Rightarrow> string \<Rightarrow> string \<Rightarrow> string \<Rightarrow> 's \<Rightarrow> 's \<times> string list outcome" where
  "http_ListConsumers nw base domain stream =
     http_get nw base (positions_url domain stream) (member ''consumers'' [] (dec_list dec_str))"

definition http_DeletePosition :: "'s network \<Rightarrow> string \<Rightarrow> string \<Rightarrow> string \<Rightarrow> string \<Rightarrow> 's \<Rightarrow> 's \<times> unit outcome" where
  "http_DeletePosition nw base domain stream consumer s =
     (let url = base @ positions_url domain stream @ ''/'' @ consumer
      in expect_200 url (\<lambda>resp. Ok ()) (http_exchange nw DELETE url None s))"

definition http_Meta :: "'s network \<Rightarrow> string \<Rightarrow> 's \<Rightarrow> 's \<times> (string \<times> string list) list outcome" where
  "http_Meta nw base = http_get nw base ''/v1/app'' dec_Meta"

text \<open>What HTTP does not support.\<close>

definition http_Watch :: "QueryIn \<Rightarrow> unit outcome" where
  "http_Watch query = Err (TextError ''HTTP transport does not support Watch'')"

definition http_locks :: "string \<Rightarrow> 'a outcome" where
  "http_locks operation = Err (TextError (''consumer locks require gRPC transport; HTTP transport does not support '' @ operation))"

subsection \<open>Routing\<close>

definition plain_char :: "char \<Rightarrow> bool" where
  "plain_char c \<longleftrightarrow>
     (let n = of_char c :: nat in 48 \<le> n \<and> n \<le> 57 \<or> 65 \<le> n \<and> n \<le> 90 \<or> 97 \<le> n \<and> n \<le> 122 \<or> n = 45 \<or> n = 95)"

definition plain :: "string \<Rightarrow> bool" where
  "plain name \<longleftrightarrow> name \<noteq> [] \<and> list_all plain_char name"

definition path_of :: "string list \<Rightarrow> string" where
  "path_of names = concat (map (\<lambda>n. CHR ''/'' # n) names)"

text \<open>Matching by segments: a variable takes a whole segment; a prefix may end within a literal or leave segments over.\<close>

fun seg_match :: "bool \<Rightarrow> segment list \<Rightarrow> string list \<Rightarrow> string list option" where
  "seg_match pre [] names = (if names = [] \<or> pre then Some [] else None)"
| "seg_match pre (s # segs) [] = None"
| "seg_match pre (Var # segs) (n # names) = map_option (Cons n) (seg_match pre segs names)"
| "seg_match pre (Lit l # segs) (n # names) =
     (if n = l then seg_match pre segs names else if pre \<and> segs = [] \<and> take (length l) n = l then Some [] else None)"

definition mux_documented :: "mux \<Rightarrow> bool" where
  "mux_documented mux \<longleftrightarrow>
     (\<forall>(r, want, pre, template) \<in> set dataRoutes. \<forall>names. list_all plain names \<longrightarrow> mux pre template (path_of names) = seg_match pre template names)"

lemma find_route_segments:
  assumes "\<And>r want pre template. (r, want, pre, template) \<in> set rs \<Longrightarrow> mux pre template (path_of names) = seg_match pre template names"
  shows "find_route mux verb (path_of names) status rs = find_route (\<lambda>pre template _. seg_match pre template names) verb [] status rs"
  using assms
proof (induction rs arbitrary: status)
  case (Cons x rs)
  obtain r want pre template where x: "x = (r, want, pre, template)" by (cases x)
  have IH: "find_route mux verb (path_of names) st rs = find_route (\<lambda>pre template _. seg_match pre template names) verb [] st rs" for st
    by (rule Cons.IH) (use Cons.prems in auto)
  show ?case using Cons.prems[of r want pre template] by (auto simp: x IH split: option.split)
qed simp

definition route_for :: "http_method \<Rightarrow> string list \<Rightarrow> int + (route \<times> string list)" where
  "route_for verb names = find_route (\<lambda>pre template _. seg_match pre template names) verb [] 404 dataRoutes"

lemma documented_route:
  assumes "mux_documented mux" "list_all plain names"
  shows "find_route mux verb (path_of names) 404 dataRoutes = route_for verb names"
  unfolding route_for_def by (rule find_route_segments) (use assms in \<open>auto simp: mux_documented_def\<close>)

lemma routes:
  "route_for PUT [''v1'', ''app'', a, s] = Inr (EnsureRoute, [a, s])"
  "route_for GET [''v1'', ''app'', a, s, ''all''] = Inr (AllRoute, [a, s])"
  "route_for GET [''v1'', ''app'', a, s, ''payload'', i] = Inr (PayloadRoute, [a, s, i])"
  "route_for POST [''v1'', ''app'', a, s, ''submit'', k] = Inr (SubmitRoute, [a, s, k])"
  "route_for POST [''v1'', ''app'', a, s, ''query''] = Inr (QueryRoute, [a, s])"
  "route_for POST [''v1'', ''app'', a, s, ''query-batch''] = Inr (QueryBatchRoute, [a, s])"
  "route_for POST [''v1'', ''app'', a, s, ''query-batch-r2''] = Inr (QueryBatchR2Route, [a, s])"
  "route_for GET [''v1'', ''app''] = Inr (MetaRoute, [])"
  "route_for GET [''v1'', ''domains'', a, ''streams'', s, ''positions'', c] = Inr (GetPositionRoute, [a, s, c])"
  "route_for POST [''v1'', ''domains'', a, ''streams'', s, ''positions'', c] = Inr (SetPositionRoute, [a, s, c])"
  "route_for DELETE [''v1'', ''domains'', a, ''streams'', s, ''positions'', c] = Inr (DeletePositionRoute, [a, s, c])"
  "route_for GET [''v1'', ''domains'', a, ''streams'', s, ''positions''] = Inr (ListConsumersRoute, [a, s])"
  by (simp_all add: route_for_def dataRoutes_def Let_def)

lemma plain_FormatInt: "plain (FormatInt i)"
proof -
  have "plain_char c" if "is_digit c" for c
    using that by (auto simp: is_digit_def digit_value_def plain_char_def Let_def split: if_splits)
  then have "list_all plain_char (digits n)" for n using digits_are_digits by (auto simp: list_all_iff)
  moreover have "plain_char CHR ''-''" by (simp add: plain_char_def)
  ultimately show ?thesis by (simp add: plain_def FormatInt_def)
qed

lemma plain_literals [simp]:
  "plain ''v1''" "plain ''app''" "plain ''all''" "plain ''payload''" "plain ''submit''" "plain ''query''" "plain ''query-batch''"
  "plain ''query-batch-r2''" "plain ''domains''" "plain ''streams''" "plain ''positions''"
  by (simp_all add: plain_def plain_char_def)

subsection \<open>Client and service together\<close>

text \<open>A network whose other end is the service: a handler that panics breaks the connection.\<close>

definition lost :: goerror where
  "lost = DriverError ''EOF''"

definition net_to :: "mux \<Rightarrow> (when_text \<Rightarrow> string) \<Rightarrow> http_env \<Rightarrow> string \<Rightarrow> event_server network" where
  "net_to mux tx env base =
     \<lparr>nw_newRequest = (\<lambda>verb url. None),
      nw_do = (\<lambda>verb url body sv.
        if take (length base) url \<noteq> base then (sv, Err (DriverError ''no such host''))
        else case serve_data mux tx env verb (drop (length base) url) body sv of
               (sv1, Panic p) \<Rightarrow> (sv1, Err lost)
             | r \<Rightarrow> r)\<rparr>"

text \<open>What a client sees of the answer of a handler.\<close>

definition over_http :: "string \<Rightarrow> 'a outcome \<Rightarrow> 'a outcome" where
  "over_http url r =
     (case r of Ok x \<Rightarrow> Ok x | Err e \<Rightarrow> Err (BadResponseCode url 500) | Panic p \<Rightarrow> Err (TransportError lost))"

definition received :: "'s \<times> http_response outcome \<Rightarrow> 's \<times> http_response outcome" where
  "received sr = (case sr of (s, Panic p) \<Rightarrow> (s, Err (TransportError lost)) | (s, Err e) \<Rightarrow> (s, Err (TransportError e)) | r \<Rightarrow> r)"

lemma exchange_served:
  "http_exchange (net_to mux tx env base) verb (base @ p) body sv = received (serve_data mux tx env verb p body sv)"
  by (simp add: http_exchange_def net_to_def received_def split: prod.split outcome.split)

lemma respond_result_simps [simp]:
  "respond_result enc (Ok x) = Ok \<lparr>hr_status = 200, hr_body = Some (enc x)\<rparr>"
  "respond_result enc (Err e) = Ok \<lparr>hr_status = 500, hr_body = None\<rparr>"
  "respond_result enc (Panic p) = Panic p"
  by (simp_all add: respond_result_def respond_ok_def respond_text_def)

lemma expect_respond:
  "(\<And>x. r = Ok x \<Longrightarrow> dec (enc x) = Ok (f x)) \<Longrightarrow>
   expect_200 url (decode_body dec) (received (s, respond_result enc r)) = (s, over_http url (case r of Ok x \<Rightarrow> Ok (f x) | Err e \<Rightarrow> Err e | Panic p \<Rightarrow> Panic p))"
  by (cases r) (simp_all add: expect_200_def received_def over_http_def decode_body_def)

lemma expect_respond_same:
  "(\<And>x. r = Ok x \<Longrightarrow> dec (enc x) = Ok x) \<Longrightarrow>
   expect_200 url (decode_body dec) (received (s, respond_result enc r)) = (s, over_http url r)"
  by (cases r) (simp_all add: expect_200_def received_def over_http_def decode_body_def)

lemma expect_respond_unit:
  "expect_200 url (\<lambda>resp. Ok ()) (received (s, respond_result enc r)) = (s, over_http url (r :: unit outcome))"
  by (cases r) (simp_all add: expect_200_def received_def over_http_def)

lemma serve_route:
  assumes "mux_documented mux" "list_all plain names" "p = path_of names" "route_for verb names = Inr rv"
  shows "find_route mux verb p 404 dataRoutes = Inr rv"
  using documented_route[OF assms(1,2), of verb] assms(3,4) by simp

text \<open>Bodies that the query routes return are never nil.\<close>

lemma dispatchRowMeta_inv:
  assumes "\<And>r s. I s \<Longrightarrow> I (fst (onEvent r s))" "I s"
  shows "I (fst (dispatchRowMeta env onEvent rows s))"
proof -
  let ?got = "case se_cut env of None \<Rightarrow> rows | Some (n, _) \<Rightarrow> take n rows"
  let ?read = "case se_scan env of None \<Rightarrow> ?got | Some (n, _) \<Rightarrow> take n ?got"
  obtain s' r where f: "for_each onEvent ?read s = (s', r)" by fastforce
  have "I (fst (for_each onEvent ?read s))" by (rule for_each_inv) (use assms in auto)
  with f have "I s'" by simp
  moreover have "fst (dispatchRowMeta env onEvent rows s) = s'"
    unfolding dispatchRowMeta_def Let_def f by (auto split: outcome.splits option.splits)
  ultimately show ?thesis by simp
qed

lemma applyQuery_inv:
  assumes "\<And>r s. I s \<Longrightarrow> I (fst (onEvent r s))" "I s"
  shows "I (fst (applyQuery env d app stream query onEvent s))"
  using assms by (auto simp: applyQuery_def Let_def intro: dispatchRowMeta_inv split: option.split)

lemma batch_pages_given:
  assumes "v1QueryBatchRoute env d app stream query = Ok ps"
  shows "\<forall>p \<in> set ps. wbp_data p \<noteq> None"
proof -
  let ?f = "\<lambda>r page. (page @ [\<lparr>wbp_meta = presentMetaAsEnvelope r, wbp_data = Some (sr_event r)\<rparr>], Ok ())"
  obtain page r where q: "applyQuery env d app stream query ?f [] = (page, r)" by fastforce
  have "\<forall>p \<in> set (fst (applyQuery env d app stream query ?f [])). wbp_data p \<noteq> None"
    by (rule applyQuery_inv) auto
  with q assms show ?thesis by (auto simp: v1QueryBatchRoute_def split: outcome.splits)
qed

lemma r2_results_given:
  assumes "v1QueryBatchR2Route env d app stream query = Ok xs"
  shows "\<forall>x \<in> set xs. wbd_event x \<noteq> None"
  using assms by (auto simp: v1QueryBatchR2Route_def Let_def split: if_splits prod.splits option.splits)

subsection \<open>Each operation over the wire\<close>

lemma http_EnsureStream_served:
  assumes "mux_documented mux" "plain a" "plain s"
  shows "http_EnsureStream (net_to mux tx env base) base a s sv = (case ensureStream (he_fault env) a s (vs_db sv) of
    (d1, r) \<Rightarrow> (sv\<lparr>vs_db := d1\<rparr>, over_http (base @ ''/v1/app/'' @ a @ ''/'' @ s) r))"
proof -
  have "find_route mux PUT (''/v1/app/'' @ a @ ''/'' @ s) 404 dataRoutes = Inr (EnsureRoute, [a, s])"
    by (rule serve_route[OF assms(1), where names = "[''v1'', ''app'', a, s]"]) (simp_all add: assms path_of_def routes)
  then show ?thesis
    unfolding http_EnsureStream_def Let_def exchange_served
    by (simp add: serve_data_def Let_def ensure_route_def expect_respond_unit split: prod.split)
qed

lemma http_Submit_served:
  assumes "mux_documented mux" "plain a" "plain s" "plain c"
  shows "http_Submit (net_to mux tx env base) base a s c (Ok doc) sv =
    (case v1SubmitByKind (he_fault env) (he_now env) a s c (Ok doc) sv of
       (sv1, Ok n) \<Rightarrow> (sv1, Ok \<lparr>sub_id = n\<rparr>)
     | (sv1, Err e) \<Rightarrow> (sv1, Err json_error)
     | (sv1, Panic p) \<Rightarrow> (sv1, Err (TransportError lost)))"
proof -
  have "find_route mux POST (''/v1/app/'' @ a @ ''/'' @ s @ ''/submit/'' @ c) 404 dataRoutes = Inr (SubmitRoute, [a, s, c])"
    by (rule serve_route[OF assms(1), where names = "[''v1'', ''app'', a, s, ''submit'', c]"]) (simp_all add: assms path_of_def routes)
  then have served: "serve_data mux tx env POST (''/v1/app/'' @ a @ ''/'' @ s @ ''/submit/'' @ c) (Some doc) sv =
      submit_route env a s c (Some doc) sv"
    by (simp add: serve_data_def Let_def)
  obtain sv1 r where v: "v1SubmitByKind (he_fault env) (he_now env) a s c (Ok doc) sv = (sv1, r)" by fastforce
  show ?thesis
    using served v by (cases r) (simp_all add: http_Submit_def Let_def exchange_served submit_route_def received_def decode_body_def)
qed

lemma http_GetEvent_served:
  assumes "mux_documented mux" "plain a" "plain s" "- (2 ^ 63) \<le> i" "i < 2 ^ 63"
  shows "http_GetEvent (net_to mux tx env base) base a s i decode sv =
    (sv, case fetchPayload (he_fault env) a s i (vs_db sv) of Ok doc \<Rightarrow> decode doc | _ \<Rightarrow> Err (TransportError lost))"
proof -
  have "find_route mux GET (''/v1/app/'' @ a @ ''/'' @ s @ ''/payload/'' @ FormatInt i) 404 dataRoutes
      = Inr (PayloadRoute, [a, s, FormatInt i])"
    by (rule serve_route[OF assms(1), where names = "[''v1'', ''app'', a, s, ''payload'', FormatInt i]"])
       (simp_all add: assms path_of_def routes plain_FormatInt)
  then have served: "serve_data mux tx env GET (''/v1/app/'' @ a @ ''/'' @ s @ ''/payload/'' @ FormatInt i) None sv =
      (sv, payload_route env a s (FormatInt i) (vs_db sv))"
    by (simp add: serve_data_def Let_def)
  show ?thesis
    unfolding http_GetEvent_def http_get_def exchange_served served payload_route_def ParseInt_FormatInt[OF assms(4,5)]
    by (cases "fetchPayload (he_fault env) a s i (vs_db sv)")
       (simp_all add: respond_ok_def received_def expect_200_def decode_body_def)
qed

lemma http_AllEnvelopes_served:
  assumes "mux_documented mux" "plain a" "plain s" "\<And>w. xt (tx w) = w"
  shows "http_AllEnvelopes (net_to mux tx env base) base xt a s sv =
    (sv, over_http (base @ ''/v1/app/'' @ a @ ''/'' @ s @ ''/all'') (v1QueryAllEnvelopes (he_sql env) (vs_db sv) a s))"
proof -
  have "find_route mux GET (''/v1/app/'' @ a @ ''/'' @ s @ ''/all'') 404 dataRoutes = Inr (AllRoute, [a, s])"
    by (rule serve_route[OF assms(1), where names = "[''v1'', ''app'', a, s, ''all'']"]) (simp_all add: assms path_of_def routes)
  then show ?thesis
    unfolding http_AllEnvelopes_def http_get_def exchange_served
    by (simp add: serve_data_def Let_def expect_respond_same assms)
qed

lemma http_Query_served:
  assumes "mux_documented mux" "plain a" "plain s" "\<And>w. xt (tx w) = w"
  shows "http_Query (net_to mux tx env base) base xt a s query sv =
    (sv, over_http (base @ ''/v1/app/'' @ a @ ''/'' @ s @ ''/query'') (v1QueryRoute (he_sql env) (vs_db sv) a s query))"
proof -
  have "find_route mux POST (''/v1/app/'' @ a @ ''/'' @ s @ ''/query'') 404 dataRoutes = Inr (QueryRoute, [a, s])"
    by (rule serve_route[OF assms(1), where names = "[''v1'', ''app'', a, s, ''query'']"]) (simp_all add: assms path_of_def routes)
  then show ?thesis
    by (simp add: http_Query_def http_post_def exchange_served serve_data_def Let_def with_entity_def expect_respond_same assms)
qed

lemma http_QueryBatch_served:
  assumes "mux_documented mux" "plain a" "plain s" "\<And>w. xt (tx w) = w"
  shows "http_QueryBatch (net_to mux tx env base) base xt a s query sv =
    (sv, over_http (base @ ''/v1/app/'' @ a @ ''/'' @ s @ ''/query-batch'') (v1QueryBatchRoute (he_sql env) (vs_db sv) a s query))"
proof -
  have "find_route mux POST (''/v1/app/'' @ a @ ''/'' @ s @ ''/query-batch'') 404 dataRoutes = Inr (QueryBatchRoute, [a, s])"
    by (rule serve_route[OF assms(1), where names = "[''v1'', ''app'', a, s, ''query-batch'']"]) (simp_all add: assms path_of_def routes)
  then show ?thesis
    by (simp add: http_QueryBatch_def http_post_def exchange_served serve_data_def Let_def with_entity_def expect_respond_same assms
        batch_pages_given)
qed

lemma http_QueryBatchR2_served:
  assumes "mux_documented mux" "plain a" "plain s" "\<And>w. xt (tx w) = w" "subsets_given query"
  shows "http_QueryBatchR2 (net_to mux tx env base) base xt a s query sv =
    (sv, over_http (base @ ''/v1/app/'' @ a @ ''/'' @ s @ ''/query-batch-r2'') (v1QueryBatchR2Route (he_sql env) (vs_db sv) a s query))"
proof -
  have "find_route mux POST (''/v1/app/'' @ a @ ''/'' @ s @ ''/query-batch-r2'') 404 dataRoutes = Inr (QueryBatchR2Route, [a, s])"
    by (rule serve_route[OF assms(1), where names = "[''v1'', ''app'', a, s, ''query-batch-r2'']"])
       (simp_all add: assms path_of_def routes)
  then show ?thesis
    by (simp add: http_QueryBatchR2_def http_post_def exchange_served serve_data_def Let_def with_entity_def expect_respond_same assms
        r2_results_given)
qed

lemma http_Meta_served:
  assumes "mux_documented mux"
  shows "http_Meta (net_to mux tx env base) base sv =
    (sv, over_http (base @ ''/v1/app'') (v1Meta (he_sql env) (he_order env) (vs_db sv)))"
proof -
  have "find_route mux GET ''/v1/app'' 404 dataRoutes = Inr (MetaRoute, [])"
    by (rule serve_route[OF assms(1), where names = "[''v1'', ''app'']"]) (simp_all add: path_of_def routes)
  then show ?thesis
    unfolding http_Meta_def http_get_def exchange_served by (simp add: serve_data_def Let_def expect_respond_same)
qed

lemma positions_routes:
  assumes "mux_documented mux" "plain a" "plain s" "plain c"
  shows "find_route mux GET (positions_url a s @ CHR ''/'' # c) 404 dataRoutes = Inr (GetPositionRoute, [a, s, c])"
    "find_route mux POST (positions_url a s @ CHR ''/'' # c) 404 dataRoutes = Inr (SetPositionRoute, [a, s, c])"
    "find_route mux DELETE (positions_url a s @ CHR ''/'' # c) 404 dataRoutes = Inr (DeletePositionRoute, [a, s, c])"
    "find_route mux GET (positions_url a s) 404 dataRoutes = Inr (ListConsumersRoute, [a, s])"
proof -
  note route = serve_route[OF assms(1), where names = "[''v1'', ''domains'', a, ''streams'', s, ''positions'', c]"]
  show "find_route mux GET (positions_url a s @ CHR ''/'' # c) 404 dataRoutes = Inr (GetPositionRoute, [a, s, c])"
    "find_route mux POST (positions_url a s @ CHR ''/'' # c) 404 dataRoutes = Inr (SetPositionRoute, [a, s, c])"
    "find_route mux DELETE (positions_url a s @ CHR ''/'' # c) 404 dataRoutes = Inr (DeletePositionRoute, [a, s, c])"
    by (rule route; simp add: assms path_of_def positions_url_def routes)+
  show "find_route mux GET (positions_url a s) 404 dataRoutes = Inr (ListConsumersRoute, [a, s])"
    by (rule serve_route[OF assms(1), where names = "[''v1'', ''domains'', a, ''streams'', s, ''positions'']"];
        simp add: assms path_of_def positions_url_def routes)
qed

lemma position_answer:
  "bindo (member ''currentEventID'' 0 dec_int j) (\<lambda>current.
     bindo (member ''previousEventID'' None (dec_option dec_int) j) (\<lambda>previous. Ok \<lparr>sp_previous = previous, sp_current = current\<rparr>)) = Ok r"
  if "j = JObj ([(''ok'', JBool True), (''currentEventID'', JNum (sp_current r))] @ omitempty ''previousEventID'' (map_option JNum (sp_previous r)))"
  using that by (cases "sp_previous r") simp_all

lemma http_positions_served:
  assumes "mux_documented mux" "plain a" "plain s" "plain c"
  shows "http_SetPosition (net_to mux tx env base) base a s c i sv = (case cs_SetPosition (he_fault env) a s c i (vs_db sv) of
        (d1, r) \<Rightarrow> (sv\<lparr>vs_db := d1\<rparr>, over_http (base @ positions_url a s @ ''/'' @ c) r))"
    and "http_GetPosition (net_to mux tx env base) base a s c sv =
        (sv, over_http (base @ positions_url a s @ ''/'' @ c) (cs_GetPosition (he_fault env) a s c (vs_db sv)))"
    and "http_ListConsumers (net_to mux tx env base) base a s sv =
        (sv, over_http (base @ positions_url a s) (cs_ListConsumers (he_fault env) a s (vs_db sv)))"
    and "http_DeletePosition (net_to mux tx env base) base a s c sv = (case cs_DeletePosition (he_fault env) a s c (vs_db sv) of
        (d1, r) \<Rightarrow> (sv\<lparr>vs_db := d1\<rparr>, over_http (base @ positions_url a s @ ''/'' @ c) r))"
proof -
  note r = positions_routes[OF assms]
  show "http_SetPosition (net_to mux tx env base) base a s c i sv = (case cs_SetPosition (he_fault env) a s c i (vs_db sv) of
        (d1, r) \<Rightarrow> (sv\<lparr>vs_db := d1\<rparr>, over_http (base @ positions_url a s @ ''/'' @ c) r))"
  proof -
    obtain d1 res where "cs_SetPosition (he_fault env) a s c i (vs_db sv) = (d1, res)" by fastforce
    moreover have "serve_data mux tx env POST (positions_url a s @ ''/'' @ c) (Some (JObj [(''eventID'', JNum i)])) sv =
        (sv\<lparr>vs_db := d1\<rparr>, respond_result (\<lambda>result. JObj ([(''ok'', JBool True), (''currentEventID'', JNum (sp_current result))]
                        @ omitempty ''previousEventID'' (map_option JNum (sp_previous result)))) res)"
      using calculation r by (simp add: serve_data_def Let_def setPosition_def)
    ultimately show ?thesis
      unfolding http_SetPosition_def http_post_def outcome.case exchange_served
      using expect_respond_same[OF position_answer[OF refl]] by simp
  qed
  show "http_GetPosition (net_to mux tx env base) base a s c sv =
        (sv, over_http (base @ positions_url a s @ ''/'' @ c) (cs_GetPosition (he_fault env) a s c (vs_db sv)))"
    unfolding http_GetPosition_def http_get_def
    by (auto simp: exchange_served serve_data_def Let_def r getPosition_def intro!: expect_respond_same)
  show "http_ListConsumers (net_to mux tx env base) base a s sv =
        (sv, over_http (base @ positions_url a s) (cs_ListConsumers (he_fault env) a s (vs_db sv)))"
    unfolding http_ListConsumers_def http_get_def exchange_served
    by (simp add: serve_data_def Let_def r listConsumers_def expect_respond_same)
  show "http_DeletePosition (net_to mux tx env base) base a s c sv = (case cs_DeletePosition (he_fault env) a s c (vs_db sv) of
        (d1, r) \<Rightarrow> (sv\<lparr>vs_db := d1\<rparr>, over_http (base @ positions_url a s @ ''/'' @ c) r))"
    unfolding http_DeletePosition_def Let_def exchange_served
    by (simp add: serve_data_def Let_def r deletePosition_def expect_respond_unit split: prod.split)
qed

subsection \<open>Properties\<close>

definition answered :: "event_server \<Rightarrow> string \<Rightarrow> db \<times> 'a outcome \<Rightarrow> event_server \<times> 'a outcome" where
  "answered sv url dr = (case dr of (d1, r) \<Rightarrow> (sv\<lparr>vs_db := d1\<rparr>, over_http url r))"


subsection \<open>Witness\<close>

text \<open>A matcher that splits the path, and a way of writing times.\<close>

function split_path :: "string \<Rightarrow> string list" where
  "split_path [] = []"
| "split_path (c # cs) =
     (if c = CHR ''/'' then takeWhile (\<lambda>x. x \<noteq> CHR ''/'') cs # split_path (dropWhile (\<lambda>x. x \<noteq> CHR ''/'') cs) else [])"
  by pat_completeness auto
termination
  by (relation "measure length") (auto simp: le_imp_less_Suc length_dropWhile_le)

definition demo_mux :: mux where
  "demo_mux pre template p = seg_match pre template (split_path p)"

lemma split_path_of: "list_all plain names \<Longrightarrow> split_path (path_of names) = names"
proof (induction names)
  case (Cons n names)
  have no: "\<forall>x \<in> set n. x \<noteq> CHR ''/''"
    using Cons.prems by (auto simp: plain_def list_all_iff plain_char_def Let_def)
  have "takeWhile (\<lambda>x. x \<noteq> CHR ''/'') (n @ path_of names) = n" "dropWhile (\<lambda>x. x \<noteq> CHR ''/'') (n @ path_of names) = path_of names"
    using no by (cases names; simp add: path_of_def takeWhile_append2 dropWhile_append2)+
  with Cons show ?case by (simp add: path_of_def)
qed (simp add: path_of_def)

lemma demo_mux_documented: "mux_documented demo_mux"
  unfolding mux_documented_def demo_mux_def by (auto simp: split_path_of)

definition demo_tx :: "when_text \<Rightarrow> string" where
  "demo_tx w = (case w of Timestamp t \<Rightarrow> CHR ''T'' # FormatInt t | OtherText s \<Rightarrow> CHR ''X'' # s)"

definition demo_xt :: "string \<Rightarrow> when_text" where
  "demo_xt s =
     (case s of
        [] \<Rightarrow> OtherText []
      | c # r \<Rightarrow>
          (if c = CHR ''T''
           then Timestamp (if hd r = CHR ''-'' then - int (the (read_digits 0 (tl r))) else int (the (read_digits 0 r)))
           else OtherText r))"

lemma demo_times: "demo_xt (demo_tx w) = w"
proof (cases w)
  case (Timestamp t)
  have "hd (digits (nat t)) \<noteq> CHR ''-''"
    using digits_are_digits[of "hd (digits (nat t))" "nat t"] hd_in_set[OF digits_not_Nil]
    by (auto simp: is_digit_def digit_value_def Let_def)
  with Timestamp show ?thesis by (simp add: demo_tx_def demo_xt_def FormatInt_def read_digits_digits)
qed (simp add: demo_tx_def demo_xt_def)


end
