(* ===== verification/Pump.thy ===== *)
theory Pump
  imports LockService MemoryLocks
begin

text \<open>
  The pump that drives an indexer: \<open>src/pkg/indexer/pump.go\<close> with its states (\<open>state.go\<close>) and the
  errors of handlers (\<open>handler_error.go\<close>).

  \<^item> \<open>wire\<close> is what the pump calls, as functions on a world \<open>'w\<close> that the calls may change: the
    \<open>WaitForLock\<close> of \<open>Wire\<close>, the \<open>Heartbeat\<close> and \<open>Release\<close> of the lock it returns, the \<open>Watch\<close> of the
    indexer's query and its \<open>TickWithID\<close>, which runs the handler, the context, and the sleep of the
    back-off. \<open>wi_yield\<close> is what happens elsewhere before a state change (the context may end there), and
    \<open>wi_monitor\<close> says when the goroutine that waits for the end of the context gets to run.
  \<^item> \<open>pump\<close> is the pump's state with the state changes it has emitted and a log of the calls it made with
    their answers. The log is what the theorems speak about; the code does not read it.
  \<^item> The loops have fuel: \<open>None\<close> means that the fuel is used up and the pump is still running. The
    theorems on termination give enough of it.

  Metrics and spans are left out; the generic lock type is the pair of functions for its methods.
\<close>

datatype PumpState = WaitingForLock | Acquiring | Watching | LockLost | Failed | Closed

record PumpStateEvent =
  pe_state :: PumpState
  pe_previous :: PumpState
  pe_error :: "goerror option"

datatype pump_call =
    Waited "(int64 \<times> duration) outcome"
      \<comment> \<open>\<open>WaitForLock\<close>: position and heartbeat interval\<close>
  | Watched "int64 option" "unit outcome"
      \<comment> \<open>\<open>Watch\<close> of the query, after the given event\<close>
  | Ticked duration "int64 outcome"
      \<comment> \<open>\<open>TickWithID\<close> under a timeout\<close>
  | Beat int64 "unit outcome"
      \<comment> \<open>\<open>Heartbeat\<close>\<close>
  | Released "goerror option"
      \<comment> \<open>\<open>Release\<close>\<close>

record 'w wire =
  wi_waitForLock :: "duration \<Rightarrow> 'w \<Rightarrow> 'w \<times> (int64 \<times> duration) outcome"
  wi_watch :: "int64 option \<Rightarrow> 'w \<Rightarrow> 'w \<times> unit outcome"
  wi_tick :: "duration \<Rightarrow> 'w \<Rightarrow> 'w \<times> int64 outcome"
  wi_heartbeat :: "int64 \<Rightarrow> 'w \<Rightarrow> 'w \<times> unit outcome"
  wi_release :: "'w \<Rightarrow> 'w \<times> goerror option"
  wi_ctxErr :: "'w \<Rightarrow> goerror option"
  wi_sleep :: "'w \<Rightarrow> 'w"
  wi_yield :: "'w \<Rightarrow> 'w"
  wi_monitor :: "'w \<Rightarrow> bool"

record 'w pump =
  pu_world :: 'w
  pu_ttl :: duration
  pu_state :: PumpState
  pu_closed :: bool
  pu_events :: "PumpStateEvent list"
  pu_log :: "pump_call list"

definition NewPump :: "'w \<Rightarrow> duration option \<Rightarrow> 'w pump" where
  "NewPump w ttl = \<lparr>pu_world = w, pu_ttl = (case ttl of Some t \<Rightarrow> t | None \<Rightarrow> DefaultLockTTL), pu_state = WaitingForLock,
     pu_closed = False, pu_events = [], pu_log = []\<rparr>"

subsection \<open>States\<close>

definition emit_state :: "PumpState \<Rightarrow> goerror option \<Rightarrow> 'w pump \<Rightarrow> 'w pump" where
  "emit_state s err p = p\<lparr>pu_state := s,
     pu_events := pu_events p @ [\<lparr>pe_state = s, pe_previous = pu_state p, pe_error = err\<rparr>]\<rparr>"

text \<open>
  The goroutine started by \<open>RunWithDomainStream\<close>: once the context is done it sets the state to \<open>Closed\<close>.
  It may run before any state change of the main loop, or after the last.
\<close>

definition monitor :: "'w wire \<Rightarrow> 'w pump \<Rightarrow> 'w pump" where
  "monitor wi p =
     (case wi_ctxErr wi (pu_world p) of
        None \<Rightarrow> p
      | Some e \<Rightarrow> (if pu_closed p \<or> \<not> wi_monitor wi (pu_world p) then p
                  else (emit_state Closed (Some e) p)\<lparr>pu_closed := True\<rparr>))"

definition setState :: "'w wire \<Rightarrow> PumpState \<Rightarrow> goerror option \<Rightarrow> 'w pump \<Rightarrow> 'w pump" where
  "setState wi newState err p = emit_state newState err (monitor wi (p\<lparr>pu_world := wi_yield wi (pu_world p)\<rparr>))"

subsection \<open>Errors\<close>

text \<open>
  \<open>handler e\<close> is what the method \<open>Recoverable\<close> of \<open>e\<close> says, for errors that handlers define themselves
  and that have one. \<open>errors.As\<close> stops at the first error of the chain that has the method.
\<close>

definition IsRecoverable :: "(goerror \<Rightarrow> bool option) \<Rightarrow> goerror \<Rightarrow> bool" where
  "IsRecoverable handler err =
     (case List.map_filter (\<lambda>e. case e of RecoverableError _ \<Rightarrow> Some True | _ \<Rightarrow> handler e) (error_chain err) of
        [] \<Rightarrow> False
      | b # _ \<Rightarrow> b)"

definition conflict_version :: "goerror \<Rightarrow> int64 option" where
  "conflict_version err =
     (case List.map_filter (\<lambda>e. case e of HeartbeatConflictError target current \<Rightarrow> Some current | _ \<Rightarrow> None) (error_chain err) of
        [] \<Rightarrow> None
      | c # _ \<Rightarrow> Some c)"

subsection \<open>The watch loop\<close>

definition log_call :: "pump_call \<Rightarrow> 'w \<Rightarrow> 'w pump \<Rightarrow> 'w pump" where
  "log_call c w p = p\<lparr>pu_world := w, pu_log := pu_log p @ [c]\<rparr>"

definition applyHeartbeat :: "'w wire \<Rightarrow> int64 \<Rightarrow> 'w pump \<Rightarrow> 'w pump \<times> int64 outcome" where
  "applyHeartbeat wi position p =
     (case wi_heartbeat wi position (pu_world p) of
        (w, r) \<Rightarrow>
          (log_call (Beat position r) w p,
           case r of
             Ok _ \<Rightarrow> Ok position
           | Panic q \<Rightarrow> Panic q
           | Err e \<Rightarrow> (case conflict_version e of Some current \<Rightarrow> Ok current | None \<Rightarrow> Err (RecoverableError e))))"

fun runWatchLoop :: "nat \<Rightarrow> 'w wire \<Rightarrow> int64 \<Rightarrow> duration \<Rightarrow> 'w pump \<Rightarrow> 'w pump \<times> unit outcome option" where
  "runWatchLoop 0 wi position heartbeatInterval p = (p, None)"
| "runWatchLoop (Suc n) wi position heartbeatInterval p =
     (let watchTimeout = scale09 heartbeatInterval;
          (w, r) = wi_tick wi watchTimeout (pu_world p);
          p1 = log_call (Ticked watchTimeout r) w p
      in case r of
           Panic q \<Rightarrow> (p1, Some (Panic q))
         | Err e \<Rightarrow>
             (if e = ContextError True
              then (case applyHeartbeat wi position p1 of
                      (p2, Ok position') \<Rightarrow> runWatchLoop n wi position' heartbeatInterval p2
                    | (p2, Err e') \<Rightarrow> (p2, Some (Err e'))
                    | (p2, Panic q) \<Rightarrow> (p2, Some (Panic q)))
              else (p1, Some (Err e)))
         | Ok eventID \<Rightarrow>
             (if eventID \<le> position then runWatchLoop n wi position heartbeatInterval p1
              else (case applyHeartbeat wi eventID p1 of
                      (p2, Ok position') \<Rightarrow> runWatchLoop n wi position' heartbeatInterval p2
                    | (p2, Err e') \<Rightarrow> (p2, Some (Err e'))
                    | (p2, Panic q) \<Rightarrow> (p2, Some (Panic q)))))"

subsection \<open>A cycle and the run\<close>

text \<open>
  The deferred \<open>Release\<close> runs on every way out after the lock was acquired, a panic included; its
  error is joined to the error of the cycle.
\<close>

definition release_deferred :: "'w wire \<Rightarrow> 'w pump \<Rightarrow> unit outcome \<Rightarrow> 'w pump \<times> unit outcome" where
  "release_deferred wi p result =
     (case wi_release wi (pu_world p) of
        (w, rel) \<Rightarrow>
          (log_call (Released rel) w p,
           case result of
             Panic q \<Rightarrow> Panic q
           | Err e \<Rightarrow> Err (the (join_err (Some e) rel))
           | Ok _ \<Rightarrow> (case join_err None rel of None \<Rightarrow> Ok () | Some e \<Rightarrow> Err e)))"

definition runPumpTick ::
  "nat \<Rightarrow> 'w wire \<Rightarrow> (goerror \<Rightarrow> bool option) \<Rightarrow> 'w pump \<Rightarrow> 'w pump \<times> (bool \<times> unit outcome) option" where
  "runPumpTick fuel wi handler p0 =
     (let p = setState wi Acquiring None p0;
          (w, r) = wi_waitForLock wi (pu_ttl p) (pu_world p);
          p1 = log_call (Waited r) w p
      in case r of
           Panic q \<Rightarrow> (p1, Some (False, Panic q))
         | Err e \<Rightarrow> (p1, Some (True, Err e))
         | Ok (lockPosition, interval) \<Rightarrow>
             (let heartbeatInterval = (if interval > pu_ttl p then pu_ttl p else interval);
                  after = (if lockPosition > 0 then Some lockPosition else None);
                  (w2, r2) = wi_watch wi after (pu_world p1);
                  p2 = log_call (Watched after r2) w2 p1
              in case r2 of
                   Panic q \<Rightarrow> (case release_deferred wi p2 (Panic q) of (p3, res) \<Rightarrow> (p3, Some (False, res)))
                 | Err e \<Rightarrow> (case release_deferred wi p2 (Err e) of (p3, res) \<Rightarrow> (p3, Some (True, res)))
                 | Ok _ \<Rightarrow>
                     (case runWatchLoop fuel wi lockPosition heartbeatInterval (setState wi Watching None p2) of
                        (p3, None) \<Rightarrow> (p3, None)
                      | (p3, Some (Ok _)) \<Rightarrow> (case release_deferred wi p3 (Ok ()) of (p4, res) \<Rightarrow> (p4, Some (False, res)))
                      | (p3, Some (Err e)) \<Rightarrow>
                          (case release_deferred wi p3 (Err e) of (p4, res) \<Rightarrow> (p4, Some (IsRecoverable handler e, res)))
                      | (p3, Some (Panic q)) \<Rightarrow>
                          (case release_deferred wi p3 (Panic q) of (p4, res) \<Rightarrow> (p4, Some (False, res))))))"

text \<open>The loop of \<open>RunWithDomainStream\<close>; \<open>inner\<close> is the fuel of the watch loops.\<close>

fun run_loop ::
  "nat \<Rightarrow> nat \<Rightarrow> 'w wire \<Rightarrow> (goerror \<Rightarrow> bool option) \<Rightarrow> 'w pump \<Rightarrow> 'w pump \<times> unit outcome option" where
  "run_loop 0 inner wi handler p = (p, None)"
| "run_loop (Suc n) inner wi handler p =
     (case wi_ctxErr wi (pu_world p) of
        Some e \<Rightarrow> (p, Some (Err e))
      | None \<Rightarrow>
          (case runPumpTick inner wi handler p of
             (p1, None) \<Rightarrow> (p1, None)
           | (p1, Some (retry, Ok _)) \<Rightarrow> run_loop n inner wi handler p1
           | (p1, Some (retry, Panic q)) \<Rightarrow> (p1, Some (Panic q))
           | (p1, Some (retry, Err err)) \<Rightarrow>
               (case wi_ctxErr wi (pu_world p1) of
                  Some e \<Rightarrow> (p1, Some (Err e))
                | None \<Rightarrow>
                    (if retry
                     then (let p2 = setState wi LockLost (Some err) p1
                           in run_loop n inner wi handler (p2\<lparr>pu_world := wi_sleep wi (pu_world p2)\<rparr>))
                     else (setState wi Failed (Some err) p1, Some (Err err))))))"

definition RunWithDomainStream ::
  "nat \<Rightarrow> nat \<Rightarrow> 'w wire \<Rightarrow> (goerror \<Rightarrow> bool option) \<Rightarrow> 'w pump \<Rightarrow> 'w pump \<times> unit outcome option" where
  "RunWithDomainStream n inner wi handler p =
     (case run_loop n inner wi handler (setState wi WaitingForLock None p) of (p', r) \<Rightarrow> (monitor wi p', r))"

subsection \<open>Checking a log\<close>

text \<open>A log is accepted by a checker that steps from call to call; \<open>None\<close> is a violation.\<close>

fun check :: "('c \<Rightarrow> pump_call \<Rightarrow> 'c option) \<Rightarrow> 'c \<Rightarrow> pump_call list \<Rightarrow> 'c option" where
  "check step c [] = Some c"
| "check step c (x # xs) = (case step c x of None \<Rightarrow> None | Some c' \<Rightarrow> check step c' xs)"

lemma check_snoc: "check step c (xs @ [x]) = (case check step c xs of None \<Rightarrow> None | Some c' \<Rightarrow> step c' x)"
  by (induction xs arbitrary: c) (auto split: option.split)

text \<open>
  The lock is waited for only when it is not held, and watched, ticked, renewed and released only while
  it is.
\<close>

fun hold_step :: "bool \<Rightarrow> pump_call \<Rightarrow> bool option" where
  "hold_step held (Waited r) = (if held then None else Some (is_ok r))"
| "hold_step held (Released r) = (if held then Some False else None)"
| "hold_step held _ = (if held then Some True else None)"

text \<open>
  A heartbeat reports the position that came with the lock, an event whose tick has succeeded, that is
  whose handler has returned without an error, or the position that a conflict has announced. The state is
  the set of positions that may be reported.
\<close>

fun report_step :: "int64 set \<Rightarrow> pump_call \<Rightarrow> int64 set option" where
  "report_step J (Waited (Ok (position, interval))) = Some {position}"
| "report_step J (Ticked t (Ok i)) = Some (insert i J)"
| "report_step J (Beat position r) =
     (if position \<in> J
      then Some (case r of Err e \<Rightarrow> (case conflict_version e of Some c \<Rightarrow> insert c J | None \<Rightarrow> J) | _ \<Rightarrow> J)
      else None)"
| "report_step J c = Some J"

definition log_state :: "('c \<Rightarrow> pump_call \<Rightarrow> 'c option) \<Rightarrow> 'c \<Rightarrow> 'w pump \<Rightarrow> 'c option" where
  "log_state step c p = check step c (pu_log p)"

lemma log_state_call [simp]:
  "log_state step c (log_call x w p) = (case log_state step c p of None \<Rightarrow> None | Some c' \<Rightarrow> step c' x)"
  by (simp add: log_state_def log_call_def check_snoc)

lemma monitor_frame [simp]:
  "pu_log (monitor wi p) = pu_log p" "pu_world (monitor wi p) = pu_world p" "pu_ttl (monitor wi p) = pu_ttl p"
  by (simp_all add: monitor_def emit_state_def split: option.split)

lemma setState_frame [simp]:
  "pu_log (setState wi s err p) = pu_log p" "pu_world (setState wi s err p) = wi_yield wi (pu_world p)"
  "pu_ttl (setState wi s err p) = pu_ttl p"
  by (simp_all add: setState_def emit_state_def)

lemma log_call_frame [simp]:
  "pu_world (log_call x w p) = w" "pu_ttl (log_call x w p) = pu_ttl p" "pu_events (log_call x w p) = pu_events p"
  "pu_state (log_call x w p) = pu_state p" "pu_closed (log_call x w p) = pu_closed p"
  by (simp_all add: log_call_def)

lemma log_state_setState [simp]:
  "log_state step c (setState wi s err p) = log_state step c p" "log_state step c (monitor wi p) = log_state step c p"
  "log_state step c (p\<lparr>pu_world := w\<rparr>) = log_state step c p"
  by (simp_all add: log_state_def)

subsection \<open>Rules for the loops\<close>

text \<open>
  What holds of the state of a watch loop: \<open>I\<close> at the head of the loop with the current position, \<open>H\<close>
  before a heartbeat with the position it reports, \<open>E\<close> wherever the loop may end.
\<close>

lemma runWatchLoop_rule:
  assumes tick: "\<And>pos p w r. I pos p \<Longrightarrow> wi_tick wi (scale09 interval) (pu_world p) = (w, r) \<Longrightarrow>
      E (log_call (Ticked (scale09 interval) r) w p) \<and>
      (case r of Ok i \<Rightarrow> (if i \<le> pos then I pos (log_call (Ticked (scale09 interval) r) w p)
                         else H i (log_call (Ticked (scale09 interval) r) w p))
       | Err e \<Rightarrow> (e = ContextError True \<longrightarrow> H pos (log_call (Ticked (scale09 interval) r) w p)) | Panic _ \<Rightarrow> True)"
    and beat: "\<And>pos p w r. H pos p \<Longrightarrow> wi_heartbeat wi pos (pu_world p) = (w, r) \<Longrightarrow>
      E (log_call (Beat pos r) w p) \<and>
      (case r of Ok _ \<Rightarrow> I pos (log_call (Beat pos r) w p)
       | Err e \<Rightarrow> (case conflict_version e of Some c \<Rightarrow> I c (log_call (Beat pos r) w p) | None \<Rightarrow> True) | Panic _ \<Rightarrow> True)"
    and start: "\<And>pos p. I pos p \<Longrightarrow> E p"
  shows "I pos p \<Longrightarrow> E (fst (runWatchLoop n wi pos interval p))"
proof (induction n arbitrary: pos p)
  case 0
  then show ?case using start by simp
next
  case (Suc n)
  have cont: "E (fst (case applyHeartbeat wi x p1 of
        (p2, Ok position') \<Rightarrow> runWatchLoop n wi position' interval p2
      | (p2, Err e') \<Rightarrow> (p2, Some (Err e')) | (p2, Panic q) \<Rightarrow> (p2, Some (Panic q))))" if "H x p1" for x p1
  proof -
    obtain w r where b: "wi_heartbeat wi x (pu_world p1) = (w, r)" by fastforce
    from beat[OF that b] Suc.IH show ?thesis
      by (auto simp: applyHeartbeat_def b split: outcome.split option.split)
  qed
  obtain w r where t: "wi_tick wi (scale09 interval) (pu_world p) = (w, r)" by fastforce
  note T = tick[OF Suc.prems t]
  show ?case
  proof (cases r)
    case (Ok i)
    with T t cont Suc.IH show ?thesis by (cases "i \<le> pos") (simp_all add: Let_def)
  next
    case (Err e)
    with T t cont show ?thesis by (cases "e = ContextError True") (simp_all add: Let_def)
  qed (use T t in \<open>simp add: Let_def\<close>)
qed

text \<open>The ways through a cycle.\<close>

lemma runPumpTick_cases:
  assumes "runPumpTick n wi handler p0 = (p', r)"
  obtains
    (wait) w a where "wi_waitForLock wi (pu_ttl p0) (pu_world (setState wi Acquiring None p0)) = (w, a)" "\<not> is_ok a"
      "p' = log_call (Waited a) w (setState wi Acquiring None p0)"
      "r = Some (case a of Err e \<Rightarrow> (True, Err e) | Panic q \<Rightarrow> (False, Panic q))"
  | (watch) w pos interval w2 b p2 where
      "wi_waitForLock wi (pu_ttl p0) (pu_world (setState wi Acquiring None p0)) = (w, Ok (pos, interval))"
      "wi_watch wi (if pos > 0 then Some pos else None) w = (w2, b)" "\<not> is_ok b"
      "p2 = log_call (Watched (if pos > 0 then Some pos else None) b) w2
              (log_call (Waited (Ok (pos, interval))) w (setState wi Acquiring None p0))"
      "p' = fst (release_deferred wi p2 b)" "r = Some (\<not> (\<exists>q. b = Panic q), snd (release_deferred wi p2 b))"
  | (loop) w pos interval w2 p2 p3 result where
      "wi_waitForLock wi (pu_ttl p0) (pu_world (setState wi Acquiring None p0)) = (w, Ok (pos, interval))"
      "wi_watch wi (if pos > 0 then Some pos else None) w = (w2, Ok ())"
      "p2 = log_call (Watched (if pos > 0 then Some pos else None) (Ok ())) w2
              (log_call (Waited (Ok (pos, interval))) w (setState wi Acquiring None p0))"
      "runWatchLoop n wi pos (min interval (pu_ttl p0)) (setState wi Watching None p2) = (p3, result)"
      "p' = (case result of None \<Rightarrow> p3 | Some res \<Rightarrow> fst (release_deferred wi p3 res))"
      "r = map_option (\<lambda>res. (case res of Err e \<Rightarrow> IsRecoverable handler e | _ \<Rightarrow> False, snd (release_deferred wi p3 res))) result"
proof -
  let ?p = "setState wi Acquiring None p0"
  obtain w a where a: "wi_waitForLock wi (pu_ttl p0) (pu_world ?p) = (w, a)" by fastforce
  show ?thesis
  proof (cases a)
    case (Ok x)
    obtain pos interval where x: "x = (pos, interval)" by (cases x)
    let ?after = "if pos > 0 then Some pos else None"
    obtain w2 b where b: "wi_watch wi ?after w = (w2, b)" by fastforce
    let ?p2 = "log_call (Watched ?after b) w2 (log_call (Waited (Ok (pos, interval))) w ?p)"
    have unfolded: "runPumpTick n wi handler p0 = (case b of
           Panic q \<Rightarrow> (case release_deferred wi ?p2 (Panic q) of (p3, res) \<Rightarrow> (p3, Some (False, res)))
         | Err e \<Rightarrow> (case release_deferred wi ?p2 (Err e) of (p3, res) \<Rightarrow> (p3, Some (True, res)))
         | Ok _ \<Rightarrow>
             (case runWatchLoop n wi pos (if interval > pu_ttl p0 then pu_ttl p0 else interval) (setState wi Watching None ?p2) of
                (p3, None) \<Rightarrow> (p3, None)
              | (p3, Some (Ok _)) \<Rightarrow> (case release_deferred wi p3 (Ok ()) of (p4, res) \<Rightarrow> (p4, Some (False, res)))
              | (p3, Some (Err e)) \<Rightarrow>
                  (case release_deferred wi p3 (Err e) of (p4, res) \<Rightarrow> (p4, Some (IsRecoverable handler e, res)))
              | (p3, Some (Panic q)) \<Rightarrow>
                  (case release_deferred wi p3 (Panic q) of (p4, res) \<Rightarrow> (p4, Some (False, res)))))"
      using a b by (cases b) (simp_all add: runPumpTick_def Let_def Ok x cong: if_cong split del: if_split)
    show ?thesis
    proof (cases b)
      case (Ok u)
      have m: "(if interval > pu_ttl p0 then pu_ttl p0 else interval) = min interval (pu_ttl p0)" by (simp add: min_def)
      obtain p3 result where l: "runWatchLoop n wi pos (min interval (pu_ttl p0)) (setState wi Watching None ?p2) = (p3, result)"
        by fastforce
      show ?thesis
        by (rule loop[of w pos interval w2 ?p2 p3 result])
           (use a b \<open>a = Ok x\<close> x Ok l assms[unfolded unfolded m] in \<open>auto split: option.splits outcome.splits prod.splits\<close>)
    next
      case (Err e)
      show ?thesis
        by (rule watch[of w pos interval w2 b ?p2])
           (use a b \<open>a = Ok x\<close> x Err assms[unfolded unfolded] in \<open>auto split: prod.splits\<close>)
    next
      case (Panic q)
      show ?thesis
        by (rule watch[of w pos interval w2 b ?p2])
           (use a b \<open>a = Ok x\<close> x Panic assms[unfolded unfolded] in \<open>auto split: prod.splits\<close>)
    qed
  next
    case (Err e)
    show ?thesis by (rule wait[OF a]) (use assms a Err in \<open>simp_all add: runPumpTick_def Let_def\<close>)
  next
    case (Panic q)
    show ?thesis by (rule wait[OF a]) (use assms a Panic in \<open>simp_all add: runPumpTick_def Let_def\<close>)
  qed
qed

lemma fst_release_deferred [simp]:
  "fst (release_deferred wi p result) =
     log_call (Released (snd (wi_release wi (pu_world p)))) (fst (wi_release wi (pu_world p))) p"
  by (simp add: release_deferred_def split: prod.split)

text \<open>
  Rules for the run: \<open>Q\<close> holds before each cycle, \<open>R\<close> after a cycle with its result, \<open>E\<close> where a cycle is
  cut short, \<open>D\<close> with the result of the run where it returns.
\<close>

lemma run_loop_rule_result:
  assumes cycle: "\<And>p p' r. Q p \<Longrightarrow> runPumpTick inner wi handler p = (p', r) \<Longrightarrow>
      (case r of None \<Rightarrow> E p' | Some (retry, res) \<Rightarrow> R retry res p')"
    and again: "\<And>p retry u. R retry (Ok u) p \<Longrightarrow> Q p"
    and lost: "\<And>p e. R True (Err e) p \<Longrightarrow> wi_ctxErr wi (pu_world p) = None \<Longrightarrow>
      Q ((setState wi LockLost (Some e) p)\<lparr>pu_world := wi_sleep wi (pu_world (setState wi LockLost (Some e) p))\<rparr>)"
    and failed: "\<And>p e. R False (Err e) p \<Longrightarrow> D (Err e) (setState wi Failed (Some e) p)"
    and cancelled: "\<And>p e. Q p \<or> (\<exists>retry e'. R retry (Err e') p) \<Longrightarrow> wi_ctxErr wi (pu_world p) = Some e \<Longrightarrow> D (Err e) p"
    and panicked: "\<And>p retry q. R retry (Panic q) p \<Longrightarrow> D (Panic q) p"
  shows "Q p \<Longrightarrow> run_loop n inner wi handler p = (p', r) \<Longrightarrow> (case r of None \<Rightarrow> E p' \<or> Q p' | Some res \<Rightarrow> D res p')"
proof (induction n arbitrary: p)
  case (Suc n)
  show ?case
  proof (cases "wi_ctxErr wi (pu_world p)")
    case None
    obtain p1 t where t: "runPumpTick inner wi handler p = (p1, t)" by fastforce
    note c = cycle[OF Suc.prems(1) t]
    show ?thesis
    proof (cases t)
      case None
      with c t Suc.prems(2) \<open>wi_ctxErr wi (pu_world p) = None\<close> show ?thesis by auto
    next
      case (Some x)
      then obtain retry res where x: "t = Some (retry, res)" by (cases x) auto
      with c have R: "R retry res p1" by simp
      note run = Suc.prems(2) t x \<open>wi_ctxErr wi (pu_world p) = None\<close>
      show ?thesis
      proof (cases res)
        case (Ok u)
        with run have "run_loop n inner wi handler p1 = (p', r)" by simp
        then show ?thesis by (rule Suc.IH[OF again[OF R[unfolded Ok]]])
      next
        case (Err e)
        show ?thesis
        proof (cases "wi_ctxErr wi (pu_world p1) = None \<and> retry")
          case True
          with run Err have "run_loop n inner wi handler ((setState wi LockLost (Some e) p1)
              \<lparr>pu_world := wi_sleep wi (pu_world (setState wi LockLost (Some e) p1))\<rparr>) = (p', r)" by (simp add: Let_def)
          then show ?thesis using True R Err by (intro Suc.IH[OF lost]) simp_all
        next
          case False
          have "D (Err x) p1" if "wi_ctxErr wi (pu_world p1) = Some x" for x
            using cancelled[of p1, OF _ that] R Err by blast
          with False run Err R failed[of e p1] show ?thesis by (auto split: option.splits if_splits)
        qed
      next
        case (Panic q)
        with run panicked[of retry q p1] R show ?thesis by auto
      qed
    qed
  next
    case (Some e)
    with Suc.prems cancelled[of p e] show ?thesis by auto
  qed
qed simp

lemma run_loop_rule:
  assumes cycle: "\<And>p p' r. Q p \<Longrightarrow> runPumpTick inner wi handler p = (p', r) \<Longrightarrow> (case r of None \<Rightarrow> E p' | Some _ \<Rightarrow> Q p')"
    and lost: "\<And>p e. Q p \<Longrightarrow> Q ((setState wi LockLost e p)\<lparr>pu_world := wi_sleep wi (pu_world (setState wi LockLost e p))\<rparr>)"
    and failed: "\<And>p e. Q p \<Longrightarrow> Q (setState wi Failed e p)"
    and "Q p" "run_loop n inner wi handler p = (p', r)"
  shows "case r of None \<Rightarrow> E p' \<or> Q p' | Some _ \<Rightarrow> Q p'"
proof -
  have "case r of None \<Rightarrow> E p' | Some (retry, res) \<Rightarrow> Q p'" if "Q p" "runPumpTick inner wi handler p = (p', r)" for p p' r
    using cycle[OF that] by (auto split: option.splits)
  then show ?thesis
    by (rule run_loop_rule_result[where Q = Q and E = E and R = "\<lambda>_ _. Q" and D = "\<lambda>_. Q", OF _ _ _ _ _ _ assms(4,5)])
       (use lost failed in auto)
qed

subsection \<open>The lock is held and released as it should be\<close>

lemma runWatchLoop_holds:
  "log_state hold_step False p = Some True \<Longrightarrow> log_state hold_step False (fst (runWatchLoop n wi pos interval p)) = Some True"
  by (rule runWatchLoop_rule[where I = "\<lambda>_ p. log_state hold_step False p = Some True"
        and H = "\<lambda>_ p. log_state hold_step False p = Some True"])
     (auto split: outcome.split option.split)

lemma runPumpTick_holds:
  assumes "log_state hold_step False p = Some False" "runPumpTick n wi handler p = (p', r)"
  shows "log_state hold_step False p' = Some (r = None)"
  using assms(2)
proof (cases rule: runPumpTick_cases)
  case (wait w a)
  with assms(1) show ?thesis by simp
next
  case (watch w pos interval w2 b p2)
  with assms(1) show ?thesis by simp
next
  case (loop w pos interval w2 p2 p3 result)
  with assms(1) have "log_state hold_step False (setState wi Watching None p2) = Some True" by simp
  from runWatchLoop_holds[OF this] loop(4) have "log_state hold_step False p3 = Some True" by (metis fst_conv)
  with loop(5,6) show ?thesis by (cases result) simp_all
qed


subsection \<open>What the pump reports\<close>

lemma runWatchLoop_reports:
  assumes "log_state report_step {} p = Some J" "pos \<in> J"
  shows "log_state report_step {} (fst (runWatchLoop n wi pos interval p)) \<noteq> None"
proof (rule runWatchLoop_rule[where I = "\<lambda>pos p. \<exists>J. log_state report_step {} p = Some J \<and> pos \<in> J"
      and H = "\<lambda>pos p. \<exists>J. log_state report_step {} p = Some J \<and> pos \<in> J"])
  show "\<exists>J. log_state report_step {} p = Some J \<and> pos \<in> J" using assms by blast
qed (auto split: outcome.split option.split)

lemma runPumpTick_reports:
  assumes "log_state report_step {} p \<noteq> None" "runPumpTick n wi handler p = (p', r)"
  shows "log_state report_step {} p' \<noteq> None"
  using assms(2)
proof (cases rule: runPumpTick_cases)
  case (wait w a)
  with assms(1) show ?thesis by (cases a) auto
next
  case (watch w pos interval w2 b p2)
  with assms(1) show ?thesis by auto
next
  case (loop w pos interval w2 p2 p3 result)
  with assms(1) have "log_state report_step {} (setState wi Watching None p2) = Some {pos}" by auto
  from runWatchLoop_reports[OF this, of pos n wi "min interval (pu_ttl p)"] loop(4)
  have "log_state report_step {} p3 \<noteq> None" by simp
  with loop(5) show ?thesis by (cases result) auto
qed

text \<open>
  C35. The pump reports no event it has not handled, whatever the lock service, the watch and the
  handlers answer: every position it sends with a heartbeat is the position that came with the lock it
  holds, or an event that a tick under this lock has delivered and whose handler has succeeded, or
  the position that an earlier heartbeat under this lock was told by a conflict. A consumer that resumes
  from a reported position therefore misses no event.
\<close>

theorem pump_reports_handled_events:
  "check report_step {} (pu_log (fst (RunWithDomainStream n inner wi handler (NewPump w ttl)))) \<noteq> None"
proof -
  let ?p = "setState wi WaitingForLock None (NewPump w ttl)"
  obtain p r where run: "run_loop n inner wi handler ?p = (p, r)" by fastforce
  have "case r of None \<Rightarrow> log_state report_step {} p \<noteq> None \<or> log_state report_step {} p \<noteq> None
      | Some _ \<Rightarrow> log_state report_step {} p \<noteq> None"
  proof (rule run_loop_rule[OF _ _ _ _ run])
    show "case r of None \<Rightarrow> log_state report_step {} p' \<noteq> None | Some _ \<Rightarrow> log_state report_step {} p' \<noteq> None"
      if "log_state report_step {} p \<noteq> None" "runPumpTick inner wi handler p = (p', r)" for p p' r
      using runPumpTick_reports[OF that] by (simp split: option.split)
  qed (simp_all add: log_state_def NewPump_def)
  then show ?thesis
    by (cases r) (auto simp: RunWithDomainStream_def run log_state_def)
qed

subsection \<open>Positions go forward\<close>

text \<open>Within one holding of the lock, no heartbeat reports a smaller position than the one before.\<close>

fun forward_step :: "int64 \<Rightarrow> pump_call \<Rightarrow> int64 option" where
  "forward_step reported (Waited (Ok (position, interval))) = Some position"
| "forward_step reported (Beat position r) = (if reported \<le> position then Some position else None)"
| "forward_step reported c = Some reported"

text \<open>
  The contract of \<open>Lock.Heartbeat\<close> that the pump relies on: a conflict names a position that is not behind
  the reported one.
\<close>

locale position_lease =
  fixes heartbeat :: "int64 \<Rightarrow> 'w \<Rightarrow> 'w \<times> unit outcome"
  assumes conflict_ahead: "heartbeat position w = (w', Err e) \<Longrightarrow> conflict_version e = Some current \<Longrightarrow> position \<le> current"
begin

lemma watch_loop_forward:
  assumes "wi_heartbeat wi = heartbeat" "log_state forward_step c p = Some pos"
  shows "log_state forward_step c (fst (runWatchLoop n wi pos interval p)) \<noteq> None"
proof (rule runWatchLoop_rule[where I = "\<lambda>pos p. \<exists>l. log_state forward_step c p = Some l \<and> l \<le> pos"
      and H = "\<lambda>pos p. \<exists>l. log_state forward_step c p = Some l \<and> l \<le> pos"])
  show "log_state forward_step c (log_call (Beat pos r) w p) \<noteq> None \<and>
      (case r of Ok _ \<Rightarrow> \<exists>l. log_state forward_step c (log_call (Beat pos r) w p) = Some l \<and> l \<le> pos
       | Err e \<Rightarrow> (case conflict_version e of None \<Rightarrow> True
           | Some x \<Rightarrow> \<exists>l. log_state forward_step c (log_call (Beat pos r) w p) = Some l \<and> l \<le> x) | Panic _ \<Rightarrow> True)"
    if "\<exists>l. log_state forward_step c p = Some l \<and> l \<le> pos" "wi_heartbeat wi pos (pu_world p) = (w, r)" for pos p w r
    using that conflict_ahead[of pos "pu_world p" w] assms(1) by (auto split: outcome.split option.split)
  show "\<exists>l. log_state forward_step c p = Some l \<and> l \<le> pos" using assms(2) by simp
qed (auto split: outcome.split option.split)

lemma cycle_forward:
  assumes wi: "wi_heartbeat wi = heartbeat" and "log_state forward_step c p \<noteq> None" "runPumpTick n wi handler p = (p', r)"
  shows "log_state forward_step c p' \<noteq> None"
  using assms(3)
proof (cases rule: runPumpTick_cases)
  case (wait w a)
  with assms(2) show ?thesis by (cases a) auto
next
  case (watch w pos interval w2 b p2)
  with assms(2) show ?thesis by auto
next
  case (loop w pos interval w2 p2 p3 result)
  with assms(2) have "log_state forward_step c (setState wi Watching None p2) = Some pos" by auto
  from watch_loop_forward[OF wi this, of n "min interval (pu_ttl p)"] loop(4)
  have "log_state forward_step c p3 \<noteq> None" by simp
  with loop(5) show ?thesis by (cases result) auto
qed

lemma run_forward:
  assumes "wi_heartbeat wi = heartbeat"
  shows "check forward_step c (pu_log (fst (RunWithDomainStream n inner wi handler (NewPump w ttl)))) \<noteq> None"
proof -
  let ?p = "setState wi WaitingForLock None (NewPump w ttl)"
  obtain p r where run: "run_loop n inner wi handler ?p = (p, r)" by fastforce
  have "case r of None \<Rightarrow> log_state forward_step c p \<noteq> None \<or> log_state forward_step c p \<noteq> None
      | Some _ \<Rightarrow> log_state forward_step c p \<noteq> None"
  proof (rule run_loop_rule[OF _ _ _ _ run])
    show "case r of None \<Rightarrow> log_state forward_step c p' \<noteq> None | Some _ \<Rightarrow> log_state forward_step c p' \<noteq> None"
      if "log_state forward_step c p \<noteq> None" "runPumpTick inner wi handler p = (p', r)" for p p' r
      using cycle_forward[OF assms that] by (simp split: option.split)
  qed (simp_all add: log_state_def NewPump_def)
  then show ?thesis
    by (cases r) (auto simp: RunWithDomainStream_def run log_state_def)
qed

end

text \<open>
  The heartbeats of the two lock implementations on a world that holds the transport or the database
  and the clocks.
\<close>

definition memory_beat ::
  "('w \<Rightarrow> memory) \<Rightarrow> (memory \<Rightarrow> 'w \<Rightarrow> 'w) \<Rightarrow> ('w \<Rightarrow> time) \<Rightarrow> MemoryLock \<Rightarrow> int64 \<Rightarrow> 'w \<Rightarrow> 'w \<times> unit outcome" where
  "memory_beat get put clock l position w =
     (case MemoryLock_Heartbeat None (clock w) l position (get w) of (m, r) \<Rightarrow> (put m w, r))"

definition postgres_beat ::
  "('w \<Rightarrow> db) \<Rightarrow> (db \<Rightarrow> 'w \<Rightarrow> 'w) \<Rightarrow> ('w \<Rightarrow> time) \<Rightarrow> store_key \<Rightarrow> string \<Rightarrow> int64 \<Rightarrow> 'w \<Rightarrow> 'w \<times> unit outcome" where
  "postgres_beat get put clock k holder position w =
     (case k of (domain, stream, consumer) \<Rightarrow>
        (case cs_HeartbeatWithPosition no_faults scale09 (clock w) (clock w) domain stream consumer holder position (get w) of
           (d, r) \<Rightarrow> (put d w, r)))"

lemma conflict_version_simps [simp]:
  "conflict_version (HeartbeatConflictError t c) = Some c" "conflict_version (LockExpiredError x y z) = None"
  "conflict_version (LockNotHeldError x y z u) = None" "conflict_version (LockNotFoundError x y z u) = None"
  "conflict_version (TextError m) = None" "conflict_version (JoinError [e]) = conflict_version e"
  "conflict_version (OperationError m e) = conflict_version e" "conflict_version (StreamNotFoundError x y) = None"
  "conflict_version (DriverError m) = None"
  by (simp_all add: conflict_version_def List.map_filter_simps)

interpretation memory_lease: position_lease "memory_beat get put clock l"
proof
  fix position :: int64 and w w' e current
  assume "memory_beat get put clock l position w = (w', Err e)" "conflict_version e = Some current"
  then show "position \<le> current"
    by (auto simp: memory_beat_def MemoryLock_Heartbeat_def mem_HeartbeatWithPosition_def simulateNetwork_def
        heartbeatLockAndPosition_def checkPositionConflict_def Let_def split: prod.splits option.splits if_splits)
qed

lemma upsert_refused_ahead:
  assumes "upsert_position sid consumer cid position t = (t', False)" "stream_id domain stream c = Some sid"
    and "db_positions c = db_positions t"
  shows "t' = t \<and> position < getConflictVersion no_faults domain stream consumer c"
proof -
  obtain r where r: "List.find (\<lambda>r. cp_stream_id r = sid \<and> cp_consumer r = consumer) (db_positions t) = Some r"
    "\<not> cp_event_id r \<le> position" "t' = t"
    using assms(1) by (auto simp: upsert_position_def Let_def split: option.splits if_splits)
  have "List.find (\<lambda>r. stream_id domain stream c = Some (cp_stream_id r) \<and> cp_consumer r = consumer) xs =
      List.find (\<lambda>r. cp_stream_id r = sid \<and> cp_consumer r = consumer) xs" for xs
    using assms(2) by (induction xs) auto
  from this[of "db_positions c"] r assms(3) show ?thesis by (simp add: getConflictVersion_def)
qed

lemma heartbeat_conflict_ahead:
  assumes "heartbeatWithinTx no_faults imul now gonow domain stream consumer holder cid position c t = (t', Err e)"
    and "conflict_version e = Some current" "db_positions c = db_positions t" "db_streams c = db_streams t"
  shows "position \<le> current"
proof -
  let ?n = "length (filter (beat_matches now domain stream cid holder t) (db_locks t))"
  have sid: "stream_id domain stream c = stream_id domain stream t" using assms(4) by (simp add: stream_id_def)
  have resolve: "conflict_version (resolveLockError gonow st domain stream consumer holder) = None" for st
    by (simp add: resolveLockError_def split: option.split)
  have "stream_id domain stream t \<noteq> None" if "0 < ?n"
  proof -
    from that obtain r where "beat_matches now domain stream cid holder t r" by (auto simp: filter_empty_conv)
    then show ?thesis by (auto simp: beat_matches_def split: option.splits)
  qed
  with assms(1,2) resolve sid show ?thesis
    by (auto simp: heartbeatWithinTx_def checkLockState_def updateLockHeartbeat_def updatePosition_def assms(3)
        dest!: upsert_refused_ahead[where c = c] split: if_splits prod.splits option.splits bool.splits)
qed

interpretation postgres_lease: position_lease "postgres_beat get put clock k holder"
proof
  fix position :: int64 and w w' e current
  assume a: "postgres_beat get put clock k holder position w = (w', Err e)" "conflict_version e = Some current"
  obtain domain stream consumer where k: "k = (domain, stream, consumer)" by (cases k)
  let ?c = "insert_name consumer (get w)"
  from a(1) obtain t e' where
    "heartbeatWithinTx no_faults scale09 (clock w) (clock w) domain stream consumer holder
       (the (name_id consumer ?c)) position ?c ?c = (t, Err e')" "e = JoinError [e']"
    by (auto simp: postgres_beat_def k cs_HeartbeatWithPosition_def resolve_no_faults split: prod.splits outcome.splits)
  with heartbeat_conflict_ahead[OF this(1)] a(2) show "position \<le> current" by simp
qed


subsection \<open>The life of a pump\<close>

text \<open>The state changes of the main loop.\<close>

inductive lifecycle :: "PumpState \<Rightarrow> PumpState \<Rightarrow> bool" where
  started: "lifecycle WaitingForLock WaitingForLock"
| acquiring: "lifecycle WaitingForLock Acquiring"
| watching: "lifecycle Acquiring Watching"
| refused: "lifecycle Acquiring LockLost"
| lost: "lifecycle Watching LockLost"
| failed: "lifecycle Watching Failed"
| again: "lifecycle LockLost Acquiring"

code_pred lifecycle .

inductive_cases from_Failed [elim!]: "lifecycle Failed s"

text \<open>The states the main loop has set, and the errors with which it has failed.\<close>

definition main_states :: "'w pump \<Rightarrow> PumpState list" where
  "main_states p = filter (\<lambda>s. s \<noteq> Closed) (map pe_state (pu_events p))"

definition failures :: "'w pump \<Rightarrow> goerror option list" where
  "failures p = map pe_error (filter (\<lambda>e. pe_state e = Failed) (pu_events p))"

definition closings :: "'w pump \<Rightarrow> nat" where
  "closings p = length (filter (\<lambda>e. pe_state e = Closed) (pu_events p))"

definition lived :: "PumpState set \<Rightarrow> goerror option list \<Rightarrow> 'w pump \<Rightarrow> bool" where
  "lived S fs p \<longleftrightarrow> successively lifecycle (WaitingForLock # main_states p) \<and> last (WaitingForLock # main_states p) \<in> S
     \<and> failures p = fs \<and> closings p = (if pu_closed p then 1 else 0)"

lemma lived_mono: "lived S fs p \<Longrightarrow> S \<subseteq> T \<Longrightarrow> lived T fs p"
  by (auto simp: lived_def)

lemma lived_log_call [simp]: "lived S fs (log_call c w p) = lived S fs p" "lived S fs (p\<lparr>pu_world := w\<rparr>) = lived S fs p"
  by (simp_all add: lived_def main_states_def failures_def closings_def log_call_def)

lemma lived_monitor: "lived S fs p \<Longrightarrow> lived S fs (monitor wi p)"
  by (auto simp: lived_def main_states_def failures_def closings_def monitor_def emit_state_def split: option.split)

lemma lived_emit:
  assumes "lived S fs p" "s \<noteq> Closed" "\<And>s'. s' \<in> S \<Longrightarrow> lifecycle s' s"
  shows "lived {s} (if s = Failed then fs @ [err] else fs) (emit_state s err p)"
proof -
  have m: "main_states (emit_state s err p) = main_states p @ [s]"
    using assms(2) by (simp add: main_states_def emit_state_def)
  have "successively lifecycle ((WaitingForLock # main_states p) @ [s])"
    unfolding successively_append_iff using assms(1,3) by (simp add: lived_def)
  with assms(1,2) m show ?thesis
    by (auto simp: lived_def failures_def closings_def emit_state_def)
qed

lemma lived_setState:
  assumes "lived S fs p" "s \<noteq> Closed" "\<And>s'. s' \<in> S \<Longrightarrow> lifecycle s' s"
  shows "lived {s} (if s = Failed then fs @ [err] else fs) (setState wi s err p)"
  unfolding setState_def using assms by (intro lived_emit lived_monitor) simp_all

lemma runWatchLoop_lived: "lived S fs p \<Longrightarrow> lived S fs (fst (runWatchLoop n wi pos interval p))"
  by (rule runWatchLoop_rule[where I = "\<lambda>_. lived S fs" and H = "\<lambda>_. lived S fs"]) (auto split: outcome.split option.split)

lemma runWatchLoop_not_Ok: "snd (runWatchLoop n wi pos interval p) \<noteq> Some (Ok u)"
proof (induction n arbitrary: pos p)
  case (Suc n)
  have "snd (case applyHeartbeat wi x p1 of
        (p2, Ok position') \<Rightarrow> runWatchLoop n wi position' interval p2
      | (p2, Err e') \<Rightarrow> (p2, Some (Err e')) | (p2, Panic q) \<Rightarrow> (p2, Some (Panic q))) \<noteq> Some (Ok u)" for x p1
    using Suc.IH by (auto split: prod.split outcome.split)
  with Suc.IH show ?case by (auto simp: Let_def split: prod.split outcome.split)
qed simp

definition cycle_end :: "bool \<Rightarrow> unit outcome \<Rightarrow> 'w pump \<Rightarrow> bool" where
  "cycle_end retry res p \<longleftrightarrow> \<not> is_ok res
     \<and> lived (if retry \<or> (\<exists>q. res = Panic q) then {Acquiring, Watching} else {Watching}) [] p"

lemma release_not_ok: "\<not> is_ok res \<Longrightarrow> \<not> is_ok (snd (release_deferred wi p res))"
  by (cases res) (simp_all add: release_deferred_def split: prod.split)

lemma release_panic: "(\<exists>q. snd (release_deferred wi p res) = Panic q) \<longleftrightarrow> (\<exists>q. res = Panic q)"
  by (cases res) (auto simp: release_deferred_def split: prod.split option.split)

lemma runPumpTick_lived:
  assumes "lived {WaitingForLock, LockLost} [] p" "runPumpTick n wi handler p = (p', r)"
  shows "case r of None \<Rightarrow> lived {Watching} [] p' | Some (retry, res) \<Rightarrow> cycle_end retry res p'"
proof -
  have acq: "lived {Acquiring} [] (setState wi Acquiring None p)"
    using lived_setState[OF assms(1), of Acquiring None wi] by (auto intro: lifecycle.intros)
  from assms(2) show ?thesis
  proof (cases rule: runPumpTick_cases)
    case (wait w a)
    with acq show ?thesis by (cases a) (auto simp: cycle_end_def intro: lived_mono)
  next
    case (watch w pos interval w2 b p2)
    with acq have "lived {Acquiring, Watching} [] p'" by (auto intro: lived_mono)
    with watch release_not_ok[OF watch(3), of wi p2] show ?thesis by (auto simp: cycle_end_def release_panic)
  next
    case (loop w pos interval w2 p2 p3 result)
    with acq have "lived {Acquiring} [] p2" by simp
    from lived_setState[OF this, of Watching None wi] have "lived {Watching} [] (setState wi Watching None p2)"
      by (auto intro: lifecycle.intros)
    from runWatchLoop_lived[OF this, of n wi pos "min interval (pu_ttl p)"] loop(4) have p3: "lived {Watching} [] p3" by simp
    show ?thesis
    proof (cases result)
      case (Some res)
      with runWatchLoop_not_Ok[of n wi pos "min interval (pu_ttl p)" "setState wi Watching None p2"] loop(4)
      have "\<not> is_ok res" by (cases res) auto
      with Some p3 loop(5,6) release_not_ok[of res wi p3] show ?thesis
        by (auto simp: cycle_end_def intro: lived_mono)
    qed (use p3 loop(5,6) in simp)
  qed
qed

lemma run_lifecycle:
  "case RunWithDomainStream n inner wi handler (NewPump w ttl) of (p, r) \<Rightarrow>
     successively lifecycle (WaitingForLock # main_states p) \<and> closings p \<le> 1
     \<and> (case r of
          None \<Rightarrow> failures p = []
        | Some (Ok _) \<Rightarrow> False
        | Some (Err e) \<Rightarrow> failures p = [Some e] \<or> failures p = [] \<and> wi_ctxErr wi (pu_world p) = Some e
        | Some (Panic _) \<Rightarrow> failures p = [])"
proof -
  let ?p = "setState wi WaitingForLock None (NewPump w ttl)"
  let ?D = "\<lambda>res p. case res of Ok _ \<Rightarrow> False
      | Err e \<Rightarrow> lived UNIV [Some e] p \<or> lived UNIV [] p \<and> wi_ctxErr wi (pu_world p) = Some e
      | Panic _ \<Rightarrow> lived UNIV [] p"
  obtain p r where run: "run_loop n inner wi handler ?p = (p, r)" by fastforce
  have "lived {WaitingForLock} [] (NewPump w ttl)"
    by (simp add: lived_def main_states_def failures_def closings_def NewPump_def)
  from lived_setState[OF this, of WaitingForLock None wi] have "lived {WaitingForLock} [] ?p" by (auto intro: lifecycle.intros)
  then have Q: "lived {WaitingForLock, LockLost} [] ?p" by (auto intro: lived_mono)
  have res: "case r of None \<Rightarrow> lived {Watching} [] p \<or> lived {WaitingForLock, LockLost} [] p | Some res \<Rightarrow> ?D res p"
  proof (rule run_loop_rule_result[where Q = "lived {WaitingForLock, LockLost} []" and R = cycle_end and D = ?D
        and E = "lived {Watching} []", OF _ _ _ _ _ _ Q run])
    fix p :: "'a pump" and e
    assume "cycle_end True (Err e) p"
    then have "lived {Acquiring, Watching} [] p" by (simp add: cycle_end_def)
    from lived_setState[OF this, of LockLost "Some e" wi] have "lived {LockLost} [] (setState wi LockLost (Some e) p)"
      by (auto intro: lifecycle.intros)
    then show "lived {WaitingForLock, LockLost} []
        ((setState wi LockLost (Some e) p)\<lparr>pu_world := wi_sleep wi (pu_world (setState wi LockLost (Some e) p))\<rparr>)"
      by (auto intro: lived_mono)
  next
    fix p :: "'a pump" and e
    assume "cycle_end False (Err e) p"
    then have "lived {Watching} [] p" by (simp add: cycle_end_def)
    from lived_setState[OF this, of Failed "Some e" wi] show "?D (Err e) (setState wi Failed (Some e) p)"
      by (auto intro: lifecycle.intros lived_mono)
  qed (auto intro: runPumpTick_lived lived_mono simp: cycle_end_def split: if_splits)
  then have "lived UNIV (failures p) p" by (auto simp: lived_def split: option.splits outcome.splits)
  from lived_monitor[OF this, of wi] have m: "successively lifecycle (WaitingForLock # main_states (monitor wi p))"
    "closings (monitor wi p) \<le> 1" "failures (monitor wi p) = failures p"
    by (auto simp: lived_def)
  have f: "failures p = fs" if "lived S fs p" for S fs using that by (simp add: lived_def)
  from res have "case r of None \<Rightarrow> failures p = [] | Some (Ok _) \<Rightarrow> False
      | Some (Err e) \<Rightarrow> failures p = [Some e] \<or> failures p = [] \<and> wi_ctxErr wi (pu_world p) = Some e
      | Some (Panic _) \<Rightarrow> failures p = []"
    by (auto dest: f split: option.splits outcome.splits)
  with m show ?thesis by (simp add: RunWithDomainStream_def run split: option.splits outcome.splits)
qed


subsection \<open>A pump whose context ends returns\<close>

text \<open>
  A context that ends: the calls take the world towards its end, measured by \<open>left\<close>; once it has ended
  it stays ended, and waiting for the lock, watching, ticking and renewing then give an error, which is
  what these calls do with a context that is done.
\<close>

definition ended :: "'w wire \<Rightarrow> 'w \<Rightarrow> bool" where
  "ended wi w \<longleftrightarrow> wi_ctxErr wi w \<noteq> None"

definition nearer :: "'w wire \<Rightarrow> ('w \<Rightarrow> nat) \<Rightarrow> 'w \<Rightarrow> 'w \<Rightarrow> bool" where
  "nearer wi left w w' \<longleftrightarrow> (ended wi w \<longrightarrow> ended wi w') \<and> (ended wi w' \<or> left w' < left w)"

definition context_ends :: "'w wire \<Rightarrow> ('w \<Rightarrow> nat) \<Rightarrow> bool" where
  "context_ends wi left \<longleftrightarrow>
     (\<forall>w ttl. nearer wi left w (fst (wi_waitForLock wi ttl w)))
     \<and> (\<forall>w after. nearer wi left w (fst (wi_watch wi after w)) \<and> (ended wi w \<longrightarrow> \<not> is_ok (snd (wi_watch wi after w))))
     \<and> (\<forall>w t. nearer wi left w (fst (wi_tick wi t w)) \<and> (ended wi w \<longrightarrow> \<not> is_ok (snd (wi_tick wi t w))))
     \<and> (\<forall>w pos. nearer wi left w (fst (wi_heartbeat wi pos w))
          \<and> (ended wi w \<longrightarrow> (case snd (wi_heartbeat wi pos w) of Err e \<Rightarrow> conflict_version e = None | _ \<Rightarrow> False)))
     \<and> (\<forall>w. nearer wi left w (fst (wi_release wi w)))
     \<and> (\<forall>w. (ended wi w \<longrightarrow> ended wi (wi_yield wi w)) \<and> (ended wi (wi_yield wi w) \<or> left (wi_yield wi w) \<le> left w))
     \<and> (\<forall>w. nearer wi left w (wi_sleep wi w))"

lemma context_endsD:
  assumes "context_ends wi left"
  shows "wi_waitForLock wi ttl w = (w', a) \<Longrightarrow> nearer wi left w w'"
    and "wi_watch wi after w = (w', b) \<Longrightarrow> nearer wi left w w' \<and> (ended wi w \<longrightarrow> \<not> is_ok b)"
    and "wi_tick wi t w = (w', r) \<Longrightarrow> nearer wi left w w' \<and> (ended wi w \<longrightarrow> \<not> is_ok r)"
    and "wi_heartbeat wi pos w = (w', u) \<Longrightarrow>
      nearer wi left w w' \<and> (ended wi w \<longrightarrow> (\<exists>e. u = Err e \<and> conflict_version e = None))"
    and "nearer wi left w (fst (wi_release wi w))" "nearer wi left w (wi_sleep wi w)"
    and "(ended wi w \<longrightarrow> ended wi (wi_yield wi w)) \<and> (ended wi (wi_yield wi w) \<or> left (wi_yield wi w) \<le> left w)"
proof -
  have beat: "nearer wi left w (fst (wi_heartbeat wi pos w))
      \<and> (ended wi w \<longrightarrow> (case snd (wi_heartbeat wi pos w) of Err e \<Rightarrow> conflict_version e = None | _ \<Rightarrow> False))"
    using assms unfolding context_ends_def by blast
  show "wi_heartbeat wi pos w = (w', u) \<Longrightarrow>
      nearer wi left w w' \<and> (ended wi w \<longrightarrow> (\<exists>e. u = Err e \<and> conflict_version e = None))"
    using beat by (cases u) auto
  show "wi_waitForLock wi ttl w = (w', a) \<Longrightarrow> nearer wi left w w'"
    using assms unfolding context_ends_def by (metis fst_conv)
  show "wi_watch wi after w = (w', b) \<Longrightarrow> nearer wi left w w' \<and> (ended wi w \<longrightarrow> \<not> is_ok b)"
    using assms unfolding context_ends_def by (metis fst_conv snd_conv)
  show "wi_tick wi t w = (w', r) \<Longrightarrow> nearer wi left w w' \<and> (ended wi w \<longrightarrow> \<not> is_ok r)"
    using assms unfolding context_ends_def by (metis fst_conv snd_conv)
  show "nearer wi left w (fst (wi_release wi w))" "nearer wi left w (wi_sleep wi w)"
    "(ended wi w \<longrightarrow> ended wi (wi_yield wi w)) \<and> (ended wi (wi_yield wi w) \<or> left (wi_yield wi w) \<le> left w)"
    using assms unfolding context_ends_def by blast+
qed

text \<open>The context ends within \<open>n\<close> calls.\<close>

definition within :: "'w wire \<Rightarrow> ('w \<Rightarrow> nat) \<Rightarrow> nat \<Rightarrow> 'w \<Rightarrow> bool" where
  "within wi left n w \<longleftrightarrow> ended wi w \<or> left w < n"

lemma nearer_within: "nearer wi left w w' \<Longrightarrow> within wi left (Suc n) w \<Longrightarrow> within wi left n w'"
  "nearer wi left w w' \<Longrightarrow> within wi left n w \<Longrightarrow> within wi left n w'"
  by (auto simp: nearer_def within_def)

lemma yield_within: "context_ends wi left \<Longrightarrow> within wi left n w \<Longrightarrow> within wi left n (wi_yield wi w)"
  using context_endsD(7)[of wi left w] by (auto simp: within_def)

lemma applyHeartbeat_within:
  assumes "context_ends wi left" "within wi left n (pu_world p)" "applyHeartbeat wi pos p = (p2, r)"
  shows "within wi left n (pu_world p2)" "ended wi (pu_world p) \<Longrightarrow> \<not> is_ok r"
proof -
  obtain w u where b: "wi_heartbeat wi pos (pu_world p) = (w, u)" by fastforce
  note B = context_endsD(4)[OF assms(1) b]
  from assms(3) b have "pu_world p2 = w" by (auto simp: applyHeartbeat_def)
  with B assms(2) show "within wi left n (pu_world p2)" using nearer_within(2) by metis
  show "\<not> is_ok r" if "ended wi (pu_world p)"
    using B that assms(3) b by (auto simp: applyHeartbeat_def)
qed

lemma runWatchLoop_returns:
  assumes c: "context_ends wi left"
  shows "within wi left n (pu_world p) \<Longrightarrow> snd (runWatchLoop (Suc n) wi pos interval p) \<noteq> None"
proof (induction n arbitrary: pos p)
  case 0
  obtain w r where t: "wi_tick wi (scale09 interval) (pu_world p) = (w, r)" by fastforce
  from 0 context_endsD(3)[OF c t] have e: "\<not> is_ok r" "ended wi w" by (auto simp: within_def nearer_def)
  obtain p2 r2 where b: "applyHeartbeat wi pos (log_call (Ticked (scale09 interval) r) w p) = (p2, r2)" by fastforce
  with applyHeartbeat_within(2)[OF c _ b, of 0] e have "\<not> is_ok r2" by (simp add: within_def)
  with e(1) b show ?case by (cases r; cases r2) (auto simp: t Let_def)
next
  case (Suc n)
  obtain w r where t: "wi_tick wi (scale09 interval) (pu_world p) = (w, r)" by fastforce
  let ?p1 = "log_call (Ticked (scale09 interval) r) w p"
  from context_endsD(3)[OF c t] Suc.prems nearer_within(1) have w: "within wi left n (pu_world ?p1)" by fastforce
  have "snd (case applyHeartbeat wi x ?p1 of
        (p2, Ok position') \<Rightarrow> runWatchLoop (Suc n) wi position' interval p2
      | (p2, Err e') \<Rightarrow> (p2, Some (Err e')) | (p2, Panic q) \<Rightarrow> (p2, Some (Panic q))) \<noteq> None" for x
    using Suc.IH applyHeartbeat_within(1)[OF c w] by (auto split: prod.split outcome.split)
  with Suc.IH[OF w] t show ?case
    by (subst runWatchLoop.simps) (auto simp del: runWatchLoop.simps simp: Let_def split: outcome.split)
qed

lemma runWatchLoop_within:
  assumes c: "context_ends wi left"
  shows "within wi left n (pu_world p) \<Longrightarrow> within wi left n (pu_world (fst (runWatchLoop k wi pos interval p)))"
proof (rule runWatchLoop_rule[where I = "\<lambda>_ p. within wi left n (pu_world p)" and H = "\<lambda>_ p. within wi left n (pu_world p)"
      and E = "\<lambda>p. within wi left n (pu_world p)"])
  fix p :: "'a pump" and w r
  assume a: "within wi left n (pu_world p)" and t: "wi_tick wi (scale09 interval) (pu_world p) = (w, r)"
  from context_endsD(3)[OF c t] a have "within wi left n w" using nearer_within(2) by metis
  then show "within wi left n (pu_world (log_call (Ticked (scale09 interval) r) w p)) \<and>
      (case r of Ok i \<Rightarrow> (if i \<le> pos then within wi left n (pu_world (log_call (Ticked (scale09 interval) r) w p))
                         else within wi left n (pu_world (log_call (Ticked (scale09 interval) r) w p)))
       | Err e \<Rightarrow> (e = ContextError True \<longrightarrow> within wi left n (pu_world (log_call (Ticked (scale09 interval) r) w p)))
       | Panic _ \<Rightarrow> True)" for pos
    by (simp split: outcome.split)
next
  fix pos and p :: "'a pump" and w r
  assume a: "within wi left n (pu_world p)" and b: "wi_heartbeat wi pos (pu_world p) = (w, r)"
  from context_endsD(4)[OF c b] a have "within wi left n w" using nearer_within(2) by metis
  then show "within wi left n (pu_world (log_call (Beat pos r) w p)) \<and>
      (case r of Ok _ \<Rightarrow> within wi left n (pu_world (log_call (Beat pos r) w p))
       | Err e \<Rightarrow> (case conflict_version e of None \<Rightarrow> True | Some c \<Rightarrow> within wi left n (pu_world (log_call (Beat pos r) w p)))
       | Panic _ \<Rightarrow> True)"
    by (simp split: outcome.split option.split)
qed simp_all

lemma runPumpTick_returns:
  assumes c: "context_ends wi left" and w: "within wi left (Suc n) (pu_world p)" and r: "runPumpTick inner wi handler p = (p', r)"
    and inner: "n < inner"
  shows "r \<noteq> None \<and> within wi left n (pu_world p')"
proof -
  have y: "within wi left (Suc n) (pu_world (setState wi Acquiring None p))" using yield_within[OF c w] by simp
  have after_wait: "within wi left n w'" if "wi_waitForLock wi (pu_ttl p) (pu_world (setState wi Acquiring None p)) = (w', a)" for w' a
    using context_endsD(1)[OF c that] y nearer_within(1) by metis
  have after_watch: "within wi left n w2" if "wi_watch wi after w' = (w2, b)" "within wi left n w'" for after w' w2 b
    using context_endsD(2)[OF c that(1)] that(2) nearer_within(2) by metis
  have rel: "within wi left n (fst (wi_release wi w'))" if "within wi left n w'" for w'
    using context_endsD(5)[OF c] that nearer_within(2) by metis
  from r show ?thesis
  proof (cases rule: runPumpTick_cases)
    case (wait w' a)
    with after_wait[OF wait(1)] show ?thesis by (cases a) simp_all
  next
    case (watch w' pos interval w2 b p2)
    with rel after_watch[OF watch(2) after_wait[OF watch(1)]] show ?thesis by simp
  next
    case (loop w' pos interval w2 p2 p3 result)
    let ?p = "setState wi Watching None p2"
    have "within wi left n (pu_world ?p)"
      using after_watch[OF loop(2) after_wait[OF loop(1)]] loop(3) yield_within[OF c] by simp
    moreover from this inner have "within wi left (inner - 1) (pu_world ?p)" by (auto simp: within_def)
    ultimately have "within wi left n (pu_world p3)" "result \<noteq> None"
      using runWatchLoop_within[OF c, of n ?p inner pos "min interval (pu_ttl p)"]
        runWatchLoop_returns[OF c, of "inner - 1" ?p pos "min interval (pu_ttl p)"] inner loop(4) by simp_all
    with rel loop(5,6) show ?thesis by auto
  qed
qed

lemma run_loop_returns:
  assumes c: "context_ends wi left"
  shows "within wi left n (pu_world p) \<Longrightarrow> n < inner \<Longrightarrow> snd (run_loop (Suc n) inner wi handler p) \<noteq> None"
proof (induction n arbitrary: p)
  case 0
  then show ?case by (auto simp: within_def ended_def)
next
  case (Suc n)
  obtain p1 t where t: "runPumpTick inner wi handler p = (p1, t)" by fastforce
  from runPumpTick_returns[OF c Suc.prems(1) t] Suc.prems(2) obtain retry res where
    x: "t = Some (retry, res)" and w: "within wi left n (pu_world p1)" by auto
  have "within wi left n (wi_sleep wi (wi_yield wi (pu_world p1)))"
    using yield_within[OF c w] context_endsD(6)[OF c] nearer_within(2) by metis
  with Suc.IH[of p1] Suc.IH[of "(setState wi LockLost e p1)\<lparr>pu_world := wi_sleep wi (wi_yield wi (pu_world p1))\<rparr>" for e]
    Suc.prems(2) w show ?case
    by (subst run_loop.simps) (auto simp del: run_loop.simps simp: t x Let_def split: option.split outcome.split)
qed


subsection \<open>Witnesses\<close>

text \<open>A world with a number of calls left: every tick delivers an event until the context ends.\<close>

definition demo_wire :: "nat wire" where
  "demo_wire = \<lparr>wi_waitForLock = (\<lambda>ttl w. (w - 1, if w = 0 then Err (ContextError False) else Ok (0, ttl))),
     wi_watch = (\<lambda>_ w. (w - 1, if w = 0 then Err (ContextError False) else Ok ())),
     wi_tick = (\<lambda>_ w. (w - 1, if w = 0 then Err (ContextError False) else Ok (100 - int w))),
     wi_heartbeat = (\<lambda>_ w. (w - 1, if w = 0 then Err (ContextError False) else Ok ())),
     wi_release = (\<lambda>w. (w - 1, None)), wi_ctxErr = (\<lambda>w. if w = 0 then Some (ContextError False) else None),
     wi_sleep = (\<lambda>w. w - 1), wi_yield = (\<lambda>w. w), wi_monitor = (\<lambda>_. True)\<rparr>"


definition demo_memory_wire :: "memory wire" where
  "demo_memory_wire = \<lparr>wi_waitForLock = (\<lambda>ttl m. (m, Ok (5, ttl))), wi_watch = (\<lambda>_ m. (m, Ok ())),
     wi_tick = (\<lambda>_ m. (m, Ok 7)),
     wi_heartbeat = memory_beat (\<lambda>m. m) (\<lambda>m _. m) (\<lambda>_. 0)
       \<lparr>ml_domain = ''d'', ml_stream = ''s'', ml_consumer = ''c'', ml_holder = ''a''\<rparr>,
     wi_release = (\<lambda>m. (m, None)), wi_ctxErr = (\<lambda>_. None), wi_sleep = (\<lambda>m. m), wi_yield = (\<lambda>m. m),
     wi_monitor = (\<lambda>_. False)\<rparr>"


end
