(* ===== verification/MemoryWatch.thy ===== *)
theory MemoryWatch
  imports MemoryQuery
begin

text \<open>
  Watching a stream of the in-memory transport: \<open>Watch\<close> and \<open>memoryWatch\<close> of
  \<open>src/pkg/v1/memory.go\<close>.

  A watch owns a channel of 128 identifiers which a listener on the stream fills: \<open>channel\<close> has the
  buffered values and whether the channel has been closed. A listener that finds the channel full
  closes it; sending on a closed channel panics; receiving from a closed and empty channel gives
  the zero identifier at once.

  A blocked \<open>Tick\<close> is explicit: the schedule says how each \<open>select\<close> of \<open>waitForEvents\<close> ends, and the
  answer \<open>None\<close> means that the call is still waiting, in a state from which a later call goes on
  as the blocked one would.
\<close>

record channel =
  ch_buf :: "int64 list"
  ch_closed :: bool

record memoryWatch =
  mw_query :: QueryIn
  mw_pending :: "QueryOut list"
  mw_lastEvent :: int64
  mw_initDone :: bool

datatype wait_choice = Receive | Done goerror

text \<open>
  \<open>Watch\<close>: the channel that the stream's listener writes to from now on, if one was registered,
  and the watch. When the caller's context ends during the registration the channel is closed but
  the listener stays registered.
\<close>

definition mem_Watch ::
  "goerror option \<Rightarrow> QueryIn \<Rightarrow> memory \<Rightarrow> channel option \<times> memoryWatch outcome" where
  "mem_Watch net query m =
     (case ValidateQuery query of
        Some e \<Rightarrow> (None, Err e)
      | None \<Rightarrow>
          (case find_stream (qi_domain query) (qi_stream query) m of
             None \<Rightarrow> (None, Panic ''nil pointer dereference'')
           | Some _ \<Rightarrow>
               (case net of
                  Some e \<Rightarrow> (Some \<lparr>ch_buf = [], ch_closed = True\<rparr>, Err e)
                | None \<Rightarrow>
                    (Some \<lparr>ch_buf = [], ch_closed = False\<rparr>,
                     Ok \<lparr>mw_query = query, mw_pending = [], mw_lastEvent = - 1, mw_initDone = False\<rparr>))))"

definition on_add_packet :: "int64 \<Rightarrow> channel \<Rightarrow> channel \<times> unit outcome" where
  "on_add_packet i ch =
     (if ch_closed ch then (ch, Panic ''send on closed channel'')
      else if length (ch_buf ch) < 128 then (ch\<lparr>ch_buf := ch_buf ch @ [i]\<rparr>, Ok ())
      else (ch\<lparr>ch_closed := True\<rparr>, Ok ()))"

fun chan_recv :: "channel \<Rightarrow> (int64 \<times> channel) option" where
  "chan_recv ch =
     (case ch_buf ch of
        x # xs \<Rightarrow> Some (x, ch\<lparr>ch_buf := xs\<rparr>)
      | [] \<Rightarrow> (if ch_closed ch then Some (0, ch) else None))"

definition enqueue :: "memoryWatch sender" where
  "enqueue op envelope message w =
     (if env_id envelope \<le> mw_lastEvent w then (w, Ok ())
      else let w1 = w\<lparr>mw_lastEvent := env_id envelope\<rparr>
           in case InternalizeWhen envelope of
                Err e \<Rightarrow> (w1, Panic ''InternalizeWhen'')
              | Panic p \<Rightarrow> (w1, Panic p)
              | Ok whenTime \<Rightarrow>
                  (w1\<lparr>mw_pending := mw_pending w1 @
                      [\<lparr>qo_op = op, qo_id = env_id envelope, qo_when = whenTime,
                        qo_kind = env_kind envelope, qo_body = message\<rparr>]\<rparr>, Ok ()))"

definition pop :: "memoryWatch \<Rightarrow> QueryOut option \<times> memoryWatch" where
  "pop w = (case mw_pending w of [] \<Rightarrow> (None, w) | out # rest \<Rightarrow> (Some out, w\<lparr>mw_pending := rest\<rparr>))"

definition processInitEvents ::
  "json_compare \<Rightarrow> (int64 \<Rightarrow> goerror option) \<Rightarrow> goerror option \<Rightarrow> memory \<Rightarrow> memoryWatch
     \<Rightarrow> memoryWatch \<times> unit outcome" where
  "processInitEvents compare net netAll m w =
     (if mw_initDone w then (w, Ok ())
      else case snd (AllEnvelopes netAll (qi_domain (mw_query w)) (qi_stream (mw_query w)) m) of
             Err e \<Rightarrow> (w, Err e)
           | Panic p \<Rightarrow> (w, Panic p)
           | Ok all \<Rightarrow>
               (case for_each (queryInFilter_filter compare net (mw_query w) m enqueue) all w of
                  (w', Ok _) \<Rightarrow> (w'\<lparr>mw_initDone := True\<rparr>, Ok ())
                | r \<Rightarrow> r))"

definition processNewEvent ::
  "json_compare \<Rightarrow> (int64 \<Rightarrow> goerror option) \<Rightarrow> memory \<Rightarrow> int64 \<Rightarrow> memoryWatch
     \<Rightarrow> memoryWatch \<times> unit outcome" where
  "processNewEvent compare net m i w =
     (case snd (GetEnvelope (net i) (qi_domain (mw_query w)) (qi_stream (mw_query w)) i m) of
        Err e \<Rightarrow> (w, Err e)
      | Panic p \<Rightarrow> (w, Panic p)
      | Ok envelope \<Rightarrow>
          (if env_id envelope = 0 \<and> i \<noteq> 0 then (w, Ok ())
           else queryInFilter_filter compare net (mw_query w) m enqueue envelope w))"

fun waitForEvents ::
  "json_compare \<Rightarrow> (int64 \<Rightarrow> goerror option) \<Rightarrow> memory \<Rightarrow> wait_choice list \<Rightarrow> memoryWatch \<Rightarrow> channel
     \<Rightarrow> memoryWatch \<times> channel \<times> QueryOut outcome option" where
  "waitForEvents compare net m sched w ch =
     (case pop w of
        (Some e, w') \<Rightarrow> (w', ch, Some (Ok e))
      | (None, _) \<Rightarrow>
          (case sched of
             [] \<Rightarrow> (w, ch, None)
           | Done e # _ \<Rightarrow> (w, ch, Some (Err e))
           | Receive # rest \<Rightarrow>
               (case chan_recv ch of
                  None \<Rightarrow> (w, ch, None)
                | Some (i, ch') \<Rightarrow>
                    (case processNewEvent compare net m i w of
                       (w', Ok _) \<Rightarrow> waitForEvents compare net m rest w' ch'
                     | (w', Err e) \<Rightarrow> (w', ch', Some (Err e))
                     | (w', Panic p) \<Rightarrow> (w', ch', Some (Panic p))))))"

declare waitForEvents.simps [simp del]

definition mw_Tick ::
  "json_compare \<Rightarrow> (int64 \<Rightarrow> goerror option) \<Rightarrow> goerror option \<Rightarrow> memory \<Rightarrow> wait_choice list
     \<Rightarrow> memoryWatch \<Rightarrow> channel \<Rightarrow> memoryWatch \<times> channel \<times> QueryOut outcome option" where
  "mw_Tick compare net netAll m sched w ch =
     (case pop w of
        (Some e, w') \<Rightarrow> (w', ch, Some (Ok e))
      | (None, _) \<Rightarrow>
          (case processInitEvents compare net netAll m w of
             (w', Err e) \<Rightarrow> (w', ch, Some (Err e))
           | (w', Panic p) \<Rightarrow> (w', ch, Some (Panic p))
           | (w', Ok _) \<Rightarrow> waitForEvents compare net m sched w' ch))"

subsection \<open>A watched stream at work\<close>

text \<open>
  Submissions to the watched stream, to others, and ticks of the watch, in any order. The state is
  the transport, the watch's channel, the watch, and what its ticks have returned.
\<close>

datatype watch_action =
    DoSubmit string string time string json
  | DoTick "wait_choice list"

record watch_state =
  ws_mem :: memory
  ws_chan :: channel
  ws_watch :: memoryWatch
  ws_out :: "QueryOut list"

fun watch_step :: "json_compare \<Rightarrow> watch_action \<Rightarrow> watch_state \<Rightarrow> watch_state" where
  "watch_step compare (DoSubmit d s t kind body) st =
     (case Submit (\<lambda>i. None) None t d s kind (Ok body) [] (ws_mem st) of
        (m', Ok sub) \<Rightarrow>
          st\<lparr>ws_mem := m',
             ws_chan := (if d = qi_domain (mw_query (ws_watch st)) \<and> s = qi_stream (mw_query (ws_watch st))
                         then fst (on_add_packet (sub_id sub) (ws_chan st)) else ws_chan st)\<rparr>
      | (m', _) \<Rightarrow> st\<lparr>ws_mem := m'\<rparr>)"
| "watch_step compare (DoTick sched) st =
     (case mw_Tick compare (\<lambda>_. None) None (ws_mem st) sched (ws_watch st) (ws_chan st) of
        (w', ch', r) \<Rightarrow>
          st\<lparr>ws_watch := w', ws_chan := ch',
             ws_out := ws_out st @ (case r of Some (Ok out) \<Rightarrow> [out] | _ \<Rightarrow> [])\<rparr>)"

fun watch_run :: "json_compare \<Rightarrow> watch_action list \<Rightarrow> watch_state \<Rightarrow> watch_state" where
  "watch_run compare [] st = st"
| "watch_run compare (a # as) st = watch_run compare as (watch_step compare a st)"

subsection \<open>What a watch delivers\<close>

text \<open>The operations a query names for an event, and the delivery of an event: one, to the first of them.\<close>

definition watch_ops :: "json_compare \<Rightarrow> QueryIn \<Rightarrow> Envelope \<Rightarrow> json \<Rightarrow> int64 list" where
  "watch_ops compare q e body =
     (if after_ok (qi_afterID q) (env_id e)
      then concat (map (\<lambda>k. (case okc_allOp k of None \<Rightarrow> [] | Some op \<Rightarrow> [op])
                        @ map oks_op (filter (\<lambda>mt. JSONIsSubset compare (Some body) (oks_match mt))
                                        (okc_subsets k)))
                     (filter (\<lambda>k. okc_kind k = env_kind e) (qi_onKind q)))
      else [])"

definition delivery ::
  "json_compare \<Rightarrow> QueryIn \<Rightarrow> (time \<times> string \<times> json) list \<Rightarrow> nat \<Rightarrow> QueryOut list" where
  "delivery compare q log n =
     (case watch_ops compare q (log_envelope log n) (log_body log n) of
        [] \<Rightarrow> []
      | op # _ \<Rightarrow> [\<lparr>qo_op = op, qo_id = int n, qo_when = fst (log ! n), qo_kind = fst (snd (log ! n)),
                    qo_body = Some (log_body log n)\<rparr>])"

definition deliveries ::
  "json_compare \<Rightarrow> QueryIn \<Rightarrow> (time \<times> string \<times> json) list \<Rightarrow> nat \<Rightarrow> QueryOut list" where
  "deliveries compare q log p = concat (map (delivery compare q log) [0..<p])"

definition watched_log :: "watch_state \<Rightarrow> (time \<times> string \<times> json) list" where
  "watched_log st =
     stream_log (qi_domain (mw_query (ws_watch st))) (qi_stream (mw_query (ws_watch st))) (ws_mem st)"

definition start_watch :: "memory \<Rightarrow> channel \<Rightarrow> memoryWatch \<Rightarrow> watch_state" where
  "start_watch m ch w = \<lparr>ws_mem = m, ws_chan = ch, ws_watch = w, ws_out = []\<rparr>"

subsection \<open>Lemmas\<close>

lemma InternalizeWhen_log [simp]: "InternalizeWhen (log_envelope log n) = Ok (fst (log ! n))"
  by (simp add: InternalizeWhen_def log_envelope_def FormatEnvelopeWhen_def)

lemma filter_sends:
  assumes "find_stream (qi_domain q) (qi_stream q) m \<noteq> None"
    and log: "log = stream_log (qi_domain q) (qi_stream q) m" and n: "n < length log"
    and send: "\<And>op s. send op (log_envelope log n) (Some (log_body log n)) s = (g op s, Ok ())"
  shows "queryInFilter_filter compare (\<lambda>_. None) q m send (log_envelope log n) s =
           (fold g (watch_ops compare q (log_envelope log n) (log_body log n)) s, Ok ())"
proof -
  let ?e = "log_envelope log n"
  let ?ok = "\<lambda>mt. JSONIsSubset compare (Some (log_body log n)) (oks_match mt)"
  let ?ops = "\<lambda>k. (case okc_allOp k of None \<Rightarrow> [] | Some op \<Rightarrow> [op])
                 @ map oks_op (filter ?ok (okc_subsets k))"
  have one: "qif_send (\<lambda>_. None) q m ?e op test send s =
      (if test (Some (log_body log n)) then g op s else s, Ok ())" for op test s
    using assms(1) n send by (simp add: qif_send_def GetEvent_envelope[of _ _ _ n] log)
  have subs: "for_each (processMatch compare (\<lambda>_. None) q m send ?e) ms s =
      (fold g (map oks_op (filter ?ok ms)) s, Ok ())" for ms s
    by (induction ms arbitrary: s) (simp_all add: processMatch_def one)
  have kind: "processOnKind compare (\<lambda>_. None) q m send ?e k s = (fold g (?ops k) s, Ok ())" for k s
    by (simp add: processOnKind_def one subs split: option.splits)
  have kinds: "for_each (\<lambda>k s. if okc_kind k \<noteq> env_kind ?e then (s, Ok ())
                     else processOnKind compare (\<lambda>_. None) q m send ?e k s) ks s =
      (fold g (concat (map ?ops (filter (\<lambda>k. okc_kind k = env_kind ?e) ks))) s, Ok ())" for ks s
    by (induction ks arbitrary: s) (simp_all add: kind)
  show ?thesis by (simp add: queryInFilter_filter_def after_guard kinds watch_ops_def)
qed

definition enq :: "json_compare \<Rightarrow> QueryIn \<Rightarrow> (time \<times> string \<times> json) list \<Rightarrow> nat \<Rightarrow> memoryWatch \<Rightarrow> memoryWatch" where
  "enq compare q log n w =
     (if int n \<le> mw_lastEvent w \<or> delivery compare q log n = [] then w
      else w\<lparr>mw_lastEvent := int n, mw_pending := mw_pending w @ delivery compare q log n\<rparr>)"

lemma filter_enqueues:
  assumes "find_stream (qi_domain q) (qi_stream q) m \<noteq> None"
    and log: "log = stream_log (qi_domain q) (qi_stream q) m" and n: "n < length log"
  shows "queryInFilter_filter compare (\<lambda>_. None) q m enqueue (log_envelope log n) w =
           (enq compare q log n w, Ok ())"
proof -
  let ?out = "\<lambda>op. \<lparr>qo_op = op, qo_id = int n, qo_when = fst (log ! n), qo_kind = fst (snd (log ! n)),
                    qo_body = Some (log_body log n)\<rparr>"
  let ?g = "\<lambda>op w. if int n \<le> mw_lastEvent w then w
              else w\<lparr>mw_lastEvent := int n, mw_pending := mw_pending w @ [?out op]\<rparr>"
  have "enqueue op (log_envelope log n) (Some (log_body log n)) w = (?g op w, Ok ())" for op w
    by (simp add: enqueue_def Let_def) (simp add: log_envelope_def)
  from filter_sends[of q m log n enqueue ?g compare w, OF assms this]
  have "queryInFilter_filter compare (\<lambda>_. None) q m enqueue (log_envelope log n) w =
      (fold ?g (watch_ops compare q (log_envelope log n) (log_body log n)) w, Ok ())" .
  moreover have stop: "fold ?g ops w = w" if "int n \<le> mw_lastEvent w" for ops w
    using that by (induction ops) simp_all
  ultimately show ?thesis
    by (auto simp: enq_def delivery_def split: list.splits)
qed

text \<open>The deliveries made or pending so far are those of the first \<open>p\<close> events.\<close>

definition caught_up ::
  "json_compare \<Rightarrow> (time \<times> string \<times> json) list \<Rightarrow> nat \<Rightarrow> QueryOut list \<Rightarrow> memoryWatch \<Rightarrow> bool" where
  "caught_up compare log p out w \<longleftrightarrow>
     out @ mw_pending w = deliveries compare (mw_query w) log p \<and> mw_lastEvent w < int p
     \<and> (\<forall>n < p. delivery compare (mw_query w) log n \<noteq> [] \<longrightarrow> int n \<le> mw_lastEvent w)"

text \<open>In addition, \<open>r\<close> is the next event that the channel announces.\<close>

definition watch_inv :: "json_compare \<Rightarrow> nat \<Rightarrow> nat \<Rightarrow> watch_state \<Rightarrow> bool" where
  "watch_inv compare p r st \<longleftrightarrow>
     find_stream (qi_domain (mw_query (ws_watch st))) (qi_stream (mw_query (ws_watch st))) (ws_mem st) \<noteq> None
     \<and> caught_up compare (watched_log st) p (ws_out st) (ws_watch st)
     \<and> p \<le> length (watched_log st) \<and> r \<le> length (watched_log st)
     \<and> ch_buf (ws_chan st) = map int [r..<length (watched_log st)] \<and> \<not> ch_closed (ws_chan st)
     \<and> (if mw_initDone (ws_watch st) then r \<le> p else p = 0)"

lemma enq_frame [simp]:
  "mw_query (enq compare q log n w) = mw_query w" "mw_initDone (enq compare q log n w) = mw_initDone w"
  by (simp_all add: enq_def)

lemma fold_enq_frame [simp]:
  "mw_query (fold (enq compare q log) ns w) = mw_query w"
  "mw_initDone (fold (enq compare q log) ns w) = mw_initDone w"
  by (induction ns arbitrary: w) simp_all

lemma deliveries_Suc: "deliveries compare q log (Suc p) = deliveries compare q log p @ delivery compare q log p"
  by (simp add: deliveries_def)

lemma delivery_append [simp]:
  "n < length log \<Longrightarrow> delivery compare q (log @ xs) n = delivery compare q log n"
  by (simp add: delivery_def log_envelope_def log_body_def nth_append split: list.split)

lemma deliveries_append [simp]:
  "p \<le> length log \<Longrightarrow> deliveries compare q (log @ xs) p = deliveries compare q log p"
  unfolding deliveries_def by (intro arg_cong[of _ _ concat] map_cong) auto

lemma caught_up_append:
  "p \<le> length log \<Longrightarrow> caught_up compare (log @ xs) p out w = caught_up compare log p out w"
  by (auto simp: caught_up_def)

lemma caught_up_next:
  assumes "caught_up compare log p out w"
  shows "caught_up compare log (Suc p) out (enq compare (mw_query w) log p w)"
proof -
  have "delivery compare (mw_query w) log n = []"
    if "n < Suc p" "n \<noteq> p" "\<not> int n \<le> mw_lastEvent w" for n
  proof -
    from that have "n < p" by simp
    with that assms show ?thesis by (auto simp: caught_up_def)
  qed
  with assms show ?thesis
    by (auto simp: caught_up_def enq_def deliveries_Suc less_Suc_eq)
qed

lemma enq_old: "caught_up compare log p out w \<Longrightarrow> n < p \<Longrightarrow> enq compare (mw_query w) log n w = w"
  by (auto simp: caught_up_def enq_def)

lemma caught_up_fold:
  "caught_up compare log 0 out w \<Longrightarrow>
     caught_up compare log p out (fold (enq compare (mw_query w) log) [0..<p] w)"
proof (induction p)
  case 0
  then show ?case by simp
next
  case (Suc p)
  from caught_up_next[OF Suc.IH[OF Suc.prems]] show ?case by simp
qed

lemma caught_up_pop:
  "caught_up compare log p out w \<Longrightarrow> pop w = (Some e, w') \<Longrightarrow>
     caught_up compare log p (out @ [e]) w' \<and> mw_query w' = mw_query w \<and> mw_initDone w' = mw_initDone w"
  by (auto simp: caught_up_def pop_def split: list.splits)

lemma processInitEvents_eq:
  assumes "find_stream (qi_domain (mw_query w)) (qi_stream (mw_query w)) m \<noteq> None"
    and log: "log = stream_log (qi_domain (mw_query w)) (qi_stream (mw_query w)) m"
    and "\<not> mw_initDone w"
  shows "processInitEvents compare (\<lambda>_. None) None m w =
    ((fold (enq compare (mw_query w) log) [0..<length log] w)\<lparr>mw_initDone := True\<rparr>, Ok ())"
proof -
  let ?f = "queryInFilter_filter compare (\<lambda>_. None) (mw_query w) m enqueue"
  have "for_each ?f (map (log_envelope log) ns) v = (fold (enq compare (mw_query w) log) ns v, Ok ())"
    if "set ns \<subseteq> {0..<length log}" for ns v
    using that assms(1) log by (induction ns arbitrary: v) (simp_all add: filter_enqueues)
  from this[of "[0..<length log]" w] assms show ?thesis
    by (simp add: processInitEvents_def AllEnvelopes_map)
qed

lemma processNewEvent_eq:
  assumes "find_stream (qi_domain (mw_query w)) (qi_stream (mw_query w)) m \<noteq> None"
    and log: "log = stream_log (qi_domain (mw_query w)) (qi_stream (mw_query w)) m" and "n < length log"
  shows "processNewEvent compare (\<lambda>_. None) m (int n) w = (enq compare (mw_query w) log n w, Ok ())"
proof -
  have "snd (GetEnvelope None (qi_domain (mw_query w)) (qi_stream (mw_query w)) (int n) m)
      = Ok (log_envelope log n)"
    using assms by (simp add: GetEnvelope_log log_envelope_def)
  with assms show ?thesis by (cases "n = 0") (simp_all add: processNewEvent_def filter_enqueues)
qed

lemma wait_pending:
  "pop w = (Some e, w') \<Longrightarrow> waitForEvents compare net m sched w ch = (w', ch, Some (Ok e))"
  by (simp add: waitForEvents.simps)

lemma wait_empty:
  assumes "fst (pop w) = None"
  shows "waitForEvents compare net m [] w ch = (w, ch, None)"
    "waitForEvents compare net m (Done e # sched) w ch = (w, ch, Some (Err e))"
    "chan_recv ch = None \<Longrightarrow> waitForEvents compare net m (Receive # sched) w ch = (w, ch, None)"
    "chan_recv ch = Some (i, ch') \<Longrightarrow> processNewEvent compare net m i w = (w', Ok ()) \<Longrightarrow>
       waitForEvents compare net m (Receive # sched) w ch = waitForEvents compare net m sched w' ch'"
proof -
  from assms have pop: "pop w = (None, snd (pop w))" by (metis prod.collapse)
  show "waitForEvents compare net m [] w ch = (w, ch, None)"
    "waitForEvents compare net m (Done e # sched) w ch = (w, ch, Some (Err e))"
    "chan_recv ch = None \<Longrightarrow> waitForEvents compare net m (Receive # sched) w ch = (w, ch, None)"
    by (subst waitForEvents.simps, subst pop, simp)+
  show "waitForEvents compare net m (Receive # sched) w ch = waitForEvents compare net m sched w' ch'"
    if "chan_recv ch = Some (i, ch')" "processNewEvent compare net m i w = (w', Ok ())"
    by (subst waitForEvents.simps, subst pop) (use that in simp)
qed

lemma watch_inv_pop:
  assumes "watch_inv compare p r st" "pop (ws_watch st) = (Some e, w')"
  shows "watch_inv compare p r (st\<lparr>ws_watch := w', ws_chan := ws_chan st, ws_out := ws_out st @ [e]\<rparr>)
    \<and> mw_query w' = mw_query (ws_watch st) \<and> mw_initDone w' = mw_initDone (ws_watch st)"
proof -
  from caught_up_pop[OF _ assms(2), of compare "watched_log st" p "ws_out st"] assms(1)
  have "caught_up compare (watched_log st) p (ws_out st @ [e]) w'" "mw_query w' = mw_query (ws_watch st)"
    "mw_initDone w' = mw_initDone (ws_watch st)"
    by (auto simp: watch_inv_def)
  with assms(1) show ?thesis by (simp add: watch_inv_def watched_log_def)
qed

lemma watch_state_same: "st\<lparr>ws_watch := ws_watch st, ws_chan := ws_chan st, ws_out := ws_out st @ []\<rparr> = st"
  by simp

text \<open>Receiving the next announced event keeps the invariant.\<close>

definition received :: "json_compare \<Rightarrow> nat \<Rightarrow> watch_state \<Rightarrow> watch_state" where
  "received compare r st =
     st\<lparr>ws_watch := enq compare (mw_query (ws_watch st)) (watched_log st) r (ws_watch st),
        ws_chan := (ws_chan st)\<lparr>ch_buf := map int [Suc r..<length (watched_log st)]\<rparr>\<rparr>"

lemma received_frame [simp]:
  "ws_mem (received compare r st) = ws_mem st" "ws_out (received compare r st) = ws_out st"
  "watched_log (received compare r st) = watched_log st"
  "mw_query (ws_watch (received compare r st)) = mw_query (ws_watch st)"
  "mw_initDone (ws_watch (received compare r st)) = mw_initDone (ws_watch st)"
  by (simp_all add: received_def watched_log_def)

lemma wait_receive:
  assumes "watch_inv compare p r st" "r < length (watched_log st)" "fst (pop (ws_watch st)) = None"
  shows "waitForEvents compare (\<lambda>_. None) (ws_mem st) (Receive # sched) (ws_watch st) (ws_chan st) =
    waitForEvents compare (\<lambda>_. None) (ws_mem st) sched (ws_watch (received compare r st))
      (ws_chan (received compare r st))"
proof (rule wait_empty(4)[OF assms(3)])
  show "chan_recv (ws_chan st) = Some (int r, ws_chan (received compare r st))"
    using assms(1,2) by (simp add: watch_inv_def upt_conv_Cons received_def)
  show "processNewEvent compare (\<lambda>_. None) (ws_mem st) (int r) (ws_watch st) =
      (ws_watch (received compare r st), Ok ())"
    using assms(1,2) processNewEvent_eq[of "ws_watch st" "ws_mem st" "watched_log st" r compare]
    by (simp add: watch_inv_def watched_log_def received_def)
qed

lemma received_inv:
  assumes "watch_inv compare p r st" "r < length (watched_log st)" "mw_initDone (ws_watch st)"
  shows "\<exists>p'. watch_inv compare p' (Suc r) (received compare r st)"
proof (cases "r = p")
  case True
  with assms caught_up_next[of compare "watched_log st" p "ws_out st" "ws_watch st"]
  have "watch_inv compare (Suc p) (Suc r) (received compare r st)"
    by (simp add: watch_inv_def) (simp add: received_def)
  then show ?thesis by blast
next
  case False
  with assms(1,3) have "r < p" by (auto simp: watch_inv_def)
  with assms(1) have "ws_watch (received compare r st) = ws_watch st"
    by (auto simp: received_def watch_inv_def intro: enq_old)
  with assms \<open>r < p\<close> have "watch_inv compare p (Suc r) (received compare r st)"
    by (simp add: watch_inv_def) (simp add: received_def)
  then show ?thesis by blast
qed

text \<open>Waiting keeps the invariant; a wait that goes on blocking has seen every event.\<close>

lemma waitForEvents_inv:
  assumes "watch_inv compare p r st" "mw_initDone (ws_watch st)"
    and "waitForEvents compare (\<lambda>_. None) (ws_mem st) sched (ws_watch st) (ws_chan st) = (w', ch', res)"
  shows "\<exists>p' r'. watch_inv compare p' r'
            (st\<lparr>ws_watch := w', ws_chan := ch',
                ws_out := ws_out st @ (case res of Some (Ok out) \<Rightarrow> [out] | _ \<Rightarrow> [])\<rparr>)
      \<and> mw_initDone w' \<and> mw_query w' = mw_query (ws_watch st)"
  using assms
proof (induction sched arbitrary: p r st)
  case Nil
  show ?case
  proof (cases "fst (pop (ws_watch st))")
    case (Some e)
    then have pop: "pop (ws_watch st) = (Some e, snd (pop (ws_watch st)))" by (metis prod.collapse)
    from watch_inv_pop[OF Nil.prems(1) pop] Nil.prems(2,3) show ?thesis
      by (intro exI[of _ p] exI[of _ r]) (auto simp: wait_pending[OF pop])
  next
    case None
    with Nil.prems show ?thesis by (intro exI[of _ p] exI[of _ r]) (auto simp: wait_empty)
  qed
next
  case (Cons c sched)
  show ?case
  proof (cases "fst (pop (ws_watch st))")
    case (Some e)
    then have pop: "pop (ws_watch st) = (Some e, snd (pop (ws_watch st)))" by (metis prod.collapse)
    from watch_inv_pop[OF Cons.prems(1) pop] Cons.prems(2,3) show ?thesis
      by (intro exI[of _ p] exI[of _ r]) (auto simp: wait_pending[OF pop])
  next
    case None
    show ?thesis
    proof (cases c)
      case (Done e)
      with None Cons.prems show ?thesis by (intro exI[of _ p] exI[of _ r]) (auto simp: wait_empty)
    next
      case Receive
      show ?thesis
      proof (cases "r < length (watched_log st)")
        case False
        with Cons.prems(1) have "chan_recv (ws_chan st) = None" by (auto simp: watch_inv_def)
        with None Receive Cons.prems show ?thesis
          by (intro exI[of _ p] exI[of _ r]) (auto simp: wait_empty)
      next
        case True
        from received_inv[OF Cons.prems(1) True Cons.prems(2)] obtain p'
          where "watch_inv compare p' (Suc r) (received compare r st)" ..
        from Cons.IH[OF this] Cons.prems(2,3) wait_receive[OF Cons.prems(1) True None, of sched] Receive
        show ?thesis by (auto simp: received_def)
      qed
    qed
  qed
qed

lemma waitForEvents_blocked:
  "watch_inv compare p r st \<Longrightarrow> mw_initDone (ws_watch st) \<Longrightarrow> length (watched_log st) - r < n \<Longrightarrow>
     waitForEvents compare (\<lambda>_. None) (ws_mem st) (replicate n Receive) (ws_watch st) (ws_chan st)
       = (w', ch', None) \<Longrightarrow>
     ws_out st = deliveries compare (mw_query (ws_watch st)) (watched_log st) (length (watched_log st))"
proof (induction n arbitrary: p r st)
  case 0
  then show ?case by simp
next
  case (Suc n)
  have pop: "fst (pop (ws_watch st)) = None"
  proof (rule ccontr)
    assume "fst (pop (ws_watch st)) \<noteq> None"
    then obtain e where "pop (ws_watch st) = (Some e, snd (pop (ws_watch st)))"
      by (metis option.exhaust prod.collapse)
    with Suc.prems(4) show False by (simp add: wait_pending)
  qed
  show ?case
  proof (cases "r < length (watched_log st)")
    case True
    from received_inv[OF Suc.prems(1) True Suc.prems(2)] obtain p'
      where inv: "watch_inv compare p' (Suc r) (received compare r st)" ..
    have "length (watched_log (received compare r st)) - Suc r < n" using Suc.prems(3) True by simp
    from Suc.IH[OF inv _ this] Suc.prems(2,4) wait_receive[OF Suc.prems(1) True pop, of "replicate n Receive"]
    show ?thesis by simp
  next
    case False
    with Suc.prems(1,2) have "p = length (watched_log st)" by (auto simp: watch_inv_def)
    moreover have "mw_pending (ws_watch st) = []" using pop by (simp add: pop_def split: list.splits)
    ultimately show ?thesis using Suc.prems(1) by (auto simp: watch_inv_def caught_up_def)
  qed
qed

lemma mw_Tick_pending:
  "pop w = (Some e, w') \<Longrightarrow> mw_Tick compare net netAll m sched w ch = (w', ch, Some (Ok e))"
  by (simp add: mw_Tick_def)

lemma mw_Tick_wait:
  "fst (pop w) = None \<Longrightarrow> processInitEvents compare net netAll m w = (w', Ok ()) \<Longrightarrow>
     mw_Tick compare net netAll m sched w ch = waitForEvents compare net m sched w' ch"
  by (cases "pop w") (simp add: mw_Tick_def)

lemma pop_None: "fst (pop w) = None \<longleftrightarrow> mw_pending w = []"
  by (simp add: pop_def split: list.splits)

lemma processInit_inv:
  assumes "watch_inv compare p r st" "fst (pop (ws_watch st)) = None"
  obtains p' w' where "processInitEvents compare (\<lambda>_. None) None (ws_mem st) (ws_watch st) = (w', Ok ())"
    "watch_inv compare p' r (st\<lparr>ws_watch := w'\<rparr>)" "mw_initDone w'" "mw_query w' = mw_query (ws_watch st)"
proof (cases "mw_initDone (ws_watch st)")
  case True
  with assms(1) that[of "ws_watch st" p] show thesis by (simp add: processInitEvents_def)
next
  case False
  let ?q = "mw_query (ws_watch st)" and ?log = "watched_log st"
  let ?w = "(fold (enq compare ?q ?log) [0..<length ?log] (ws_watch st))\<lparr>mw_initDone := True\<rparr>"
  have start: "caught_up compare ?log 0 (ws_out st) (ws_watch st)"
    using assms(1) False by (auto simp: watch_inv_def)
  have init: "processInitEvents compare (\<lambda>_. None) None (ws_mem st) (ws_watch st) = (?w, Ok ())"
    using assms(1) False by (intro processInitEvents_eq) (auto simp: watch_inv_def watched_log_def)
  have "watch_inv compare (length ?log) r (st\<lparr>ws_watch := ?w\<rparr>)"
    using assms(1) caught_up_fold[OF start, of "length ?log"]
    by (simp add: watch_inv_def watched_log_def caught_up_def)
  with init that show thesis by simp
qed

lemma watch_tick_inv:
  assumes "watch_inv compare p r st"
  shows "\<exists>p' r'. watch_inv compare p' r' (watch_step compare (DoTick sched) st)
    \<and> mw_query (ws_watch (watch_step compare (DoTick sched) st)) = mw_query (ws_watch st)"
proof (cases "fst (pop (ws_watch st))")
  case (Some e)
  then have pop: "pop (ws_watch st) = (Some e, snd (pop (ws_watch st)))" by (metis prod.collapse)
  from watch_inv_pop[OF assms pop] show ?thesis
    by (intro exI[of _ p] exI[of _ r]) (simp add: mw_Tick_pending[OF pop])
next
  case None
  from processInit_inv[OF assms None] obtain p' w' where
    init: "processInitEvents compare (\<lambda>_. None) None (ws_mem st) (ws_watch st) = (w', Ok ())"
    and inv: "watch_inv compare p' r (st\<lparr>ws_watch := w'\<rparr>)" "mw_initDone w'"
      "mw_query w' = mw_query (ws_watch st)" .
  obtain w'' ch' res where wait:
    "waitForEvents compare (\<lambda>_. None) (ws_mem st) sched w' (ws_chan st) = (w'', ch', res)"
    by (metis prod_cases3)
  from waitForEvents_inv[OF inv(1), of sched w'' ch' res] inv wait show ?thesis
    by (simp add: mw_Tick_wait[OF None init])
qed

lemma watch_submit_inv:
  assumes "watch_inv compare p r st" "find_stream d s (ws_mem st) \<noteq> None"
    and st'_def: "st' = watch_step compare (DoSubmit d s t kind body) st"
  shows "(ch_closed (ws_chan st') \<or> watch_inv compare p r st')
    \<and> ws_watch st' = ws_watch st \<and> ws_out st' = ws_out st"
proof -
  define m' where "m' = fst (Submit (\<lambda>i. None) None t d s kind (Ok body) [] (ws_mem st))"
  let ?n = "int (length (stream_log d s (ws_mem st)))"
  from assms(2) obtain x where x: "find_stream d s (ws_mem st) = Some x" by blast
  have sub: "Submit (\<lambda>i. None) None t d s kind (Ok body) [] (ws_mem st) = (m', Ok \<lparr>sub_id = ?n\<rparr>)"
    using x by (simp add: m'_def Submit_def submit_command_def Let_def stream_log_def)
  let ?q = "mw_query (ws_watch st)"
  let ?here = "d = qi_domain ?q \<and> s = qi_stream ?q"
  have st': "st' = st\<lparr>ws_mem := m',
      ws_chan := (if ?here then fst (on_add_packet ?n (ws_chan st)) else ws_chan st)\<rparr>"
    by (simp add: st'_def sub)
  have log: "watched_log st' = (if ?here then watched_log st @ [(t, kind, body)] else watched_log st)"
    using x by (auto simp: st' m'_def watched_log_def Submit_log)
  have found: "find_stream (qi_domain ?q) (qi_stream ?q) (ws_mem st') \<noteq> None"
    using assms(1) by (simp add: st' m'_def Submit_keeps_streams watch_inv_def del: not_None_eq)
  show ?thesis
  proof (cases ?here)
    case True
    have n: "length (stream_log (qi_domain ?q) (qi_stream ?q) (ws_mem st)) = length (watched_log st)"
      by (simp add: watched_log_def)
    have "watch_inv compare p r st'" if "length (ch_buf (ws_chan st)) < 128"
      using assms(1) found log True that
      by (simp add: watch_inv_def caught_up_append st' on_add_packet_def n)
    moreover have "ch_closed (ws_chan st')" if "\<not> length (ch_buf (ws_chan st)) < 128"
      using assms(1) True that by (simp add: watch_inv_def st' on_add_packet_def)
    ultimately have "ch_closed (ws_chan st') \<or> watch_inv compare p r st'" by blast
    moreover have "ws_watch st' = ws_watch st \<and> ws_out st' = ws_out st" by (simp add: st')
    ultimately show ?thesis by blast
  next
    case False
    then have st'': "st' = st\<lparr>ws_mem := m'\<rparr>" unfolding st' by auto
    with False assms(1) found log have "watch_inv compare p r st'"
      by (auto simp: watch_inv_def)
    with st'' show ?thesis by simp
  qed
qed


lemma on_add_packet_closed: "ch_closed ch \<Longrightarrow> ch_closed (fst (on_add_packet i ch))"
  by (simp add: on_add_packet_def)

lemma chan_recv_closed: "chan_recv ch = Some (i, ch') \<Longrightarrow> ch_closed ch' = ch_closed ch"
  by (auto split: list.splits if_splits)

lemma waitForEvents_closed:
  "waitForEvents compare net m sched w ch = (w', ch', res) \<Longrightarrow> ch_closed ch' = ch_closed ch"
proof (induction sched arbitrary: w ch)
  case Nil
  then show ?case by (subst (asm) waitForEvents.simps) (auto split: prod.splits option.splits)
next
  case (Cons c sched)
  then show ?case
    by (subst (asm) (2) waitForEvents.simps)
       (auto simp del: chan_recv.simps dest: chan_recv_closed
             split: prod.splits option.splits wait_choice.splits outcome.splits)
qed

lemma watch_step_closed:
  assumes "ch_closed (ws_chan st)"
  shows "ch_closed (ws_chan (watch_step compare a st))"
proof (cases a)
  case (DoSubmit d s t kind body)
  with assms show ?thesis by (auto simp: on_add_packet_closed split: prod.splits outcome.splits)
next
  case (DoTick sched)
  with assms show ?thesis
    by (auto simp: mw_Tick_def waitForEvents_closed split: prod.splits option.splits outcome.splits)
qed

lemma watch_run_closed: "ch_closed (ws_chan st) \<Longrightarrow> ch_closed (ws_chan (watch_run compare as st))"
  by (induction as arbitrary: st) (simp_all add: watch_step_closed)

lemma watch_step_streams:
  "find_stream d s (ws_mem (watch_step compare a st)) = None \<longleftrightarrow> find_stream d s (ws_mem st) = None"
proof (cases a)
  case (DoSubmit d' s' t kind body)
  obtain m' r where sub: "Submit (\<lambda>i. None) None t d' s' kind (Ok body) [] (ws_mem st) = (m', r)"
    by fastforce
  with Submit_keeps_streams[of d s "\<lambda>i. None" None t d' s' kind body "[]" "ws_mem st"]
  show ?thesis by (cases r) (simp_all add: DoSubmit)
qed (simp add: case_prod_beta)

fun action_ok :: "memory \<Rightarrow> watch_action \<Rightarrow> bool" where
  "action_ok m (DoSubmit d s t kind body) \<longleftrightarrow> find_stream d s m \<noteq> None"
| "action_ok m (DoTick sched) \<longleftrightarrow> True"

lemma action_ok_step: "action_ok (ws_mem (watch_step compare a st)) b = action_ok (ws_mem st) b"
  by (cases b) (simp_all add: watch_step_streams del: watch_step.simps not_None_eq)

lemma watch_run_inv:
  "watch_inv compare p r st \<Longrightarrow> \<forall>a \<in> set as. action_ok (ws_mem st) a \<Longrightarrow>
     \<not> ch_closed (ws_chan (watch_run compare as st)) \<Longrightarrow>
     \<exists>p' r'. watch_inv compare p' r' (watch_run compare as st)
       \<and> mw_query (ws_watch (watch_run compare as st)) = mw_query (ws_watch st)"
proof (induction as arbitrary: p r st)
  case Nil
  then show ?case by auto
next
  case (Cons a as)
  let ?st = "watch_step compare a st"
  have open': "\<not> ch_closed (ws_chan ?st)" using Cons.prems(3) watch_run_closed[of ?st] by auto
  have "\<exists>p' r'. watch_inv compare p' r' ?st \<and> mw_query (ws_watch ?st) = mw_query (ws_watch st)"
  proof (cases a)
    case (DoSubmit d s t kind body)
    with watch_submit_inv[OF Cons.prems(1), of d s ?st t kind body] Cons.prems(2) open' show ?thesis
      by (intro exI[of _ p] exI[of _ r]) (simp del: watch_step.simps)
  next
    case (DoTick sched)
    with watch_tick_inv[OF Cons.prems(1)] show ?thesis by simp
  qed
  then obtain p' r' where step: "watch_inv compare p' r' ?st"
    "mw_query (ws_watch ?st) = mw_query (ws_watch st)" by blast
  from Cons.IH[OF step(1)] Cons.prems(2,3) step(2) show ?case
    by (simp add: action_ok_step)
qed


lemma started_watch_inv:
  assumes "mem_Watch None q m = (Some ch, Ok w)" "\<forall>a \<in> set as. action_ok m a"
    and "\<not> ch_closed (ws_chan (watch_run compare as (start_watch m ch w)))"
  shows "\<exists>p r. watch_inv compare p r (watch_run compare as (start_watch m ch w))
    \<and> mw_query (ws_watch (watch_run compare as (start_watch m ch w))) = q"
proof -
  from assms(1) have start: "ch = \<lparr>ch_buf = [], ch_closed = False\<rparr>"
    "find_stream (qi_domain q) (qi_stream q) m \<noteq> None"
    "w = \<lparr>mw_query = q, mw_pending = [], mw_lastEvent = - 1, mw_initDone = False\<rparr>"
    by (auto simp: mem_Watch_def split: option.splits)
  let ?r = "length (stream_log (qi_domain q) (qi_stream q) m)"
  have "watch_inv compare 0 ?r (start_watch m ch w)"
    using start by (simp add: watch_inv_def start_watch_def watched_log_def caught_up_def deliveries_def)
  from watch_run_inv[OF this, of as] assms(2,3) start(3) show ?thesis
    by (auto simp: start_watch_def)
qed

lemma submit_notifies:
  assumes "find_stream (qi_domain q) (qi_stream q) (ws_mem st) \<noteq> None" "mw_query (ws_watch st) = q"
  obtains m' j where "watch_step compare (DoSubmit (qi_domain q) (qi_stream q) t kind body) st =
      st\<lparr>ws_mem := m', ws_chan := fst (on_add_packet j (ws_chan st))\<rparr>"
    "find_stream (qi_domain q) (qi_stream q) m' \<noteq> None"
proof -
  from assms(1) obtain x where x: "find_stream (qi_domain q) (qi_stream q) (ws_mem st) = Some x" by blast
  obtain m' r where sub:
    "Submit (\<lambda>i. None) None t (qi_domain q) (qi_stream q) kind (Ok body) [] (ws_mem st) = (m', r)"
    by fastforce
  with x obtain j where r: "r = Ok j" by (auto simp: Submit_def submit_command_def Let_def)
  have "find_stream (qi_domain q) (qi_stream q) m' \<noteq> None"
    using Submit_keeps_streams[of "qi_domain q" "qi_stream q" "\<lambda>i. None" None t "qi_domain q"
        "qi_stream q" kind body "[]" "ws_mem st"] sub assms(1) by simp
  with sub r assms(2) that[of "sub_id j" m'] show thesis by simp
qed

lemma unread_submits:
  "find_stream (qi_domain q) (qi_stream q) (ws_mem st) \<noteq> None \<Longrightarrow> mw_query (ws_watch st) = q \<Longrightarrow>
     128 < length (ch_buf (ws_chan st)) + length events \<Longrightarrow> length (ch_buf (ws_chan st)) \<le> 128 \<Longrightarrow>
     ch_closed (ws_chan (watch_run compare
       (map (\<lambda>(t, kind, body). DoSubmit (qi_domain q) (qi_stream q) t kind body) events) st))"
proof (induction events arbitrary: st)
  case Nil
  then show ?case by simp
next
  case (Cons e events)
  obtain t kind body where e: "e = (t, kind, body)" by (cases e)
  from submit_notifies[OF Cons.prems(1,2), of compare t kind body] obtain m' j where
    step: "watch_step compare (DoSubmit (qi_domain q) (qi_stream q) t kind body) st =
      st\<lparr>ws_mem := m', ws_chan := fst (on_add_packet j (ws_chan st))\<rparr>" (is "_ = ?st")
    and found: "find_stream (qi_domain q) (qi_stream q) m' \<noteq> None" .
  show ?case
  proof (cases "ch_closed (ws_chan ?st)")
    case True
    with step e watch_run_closed[of ?st] show ?thesis by (simp del: watch_step.simps)
  next
    case False
    then have len: "length (ch_buf (ws_chan ?st)) = Suc (length (ch_buf (ws_chan st)))"
      "length (ch_buf (ws_chan st)) < 128"
      by (auto simp: on_add_packet_def split: if_splits)
    with Cons.IH[of ?st] Cons.prems found step e show ?thesis by (simp del: watch_step.simps)
  qed
qed

subsection \<open>Properties\<close>


text \<open>
  A watch does not starve: a tick that stays blocked although it was ready to receive once more than
  the channel had entries has returned every matching event of the stream (nothing is pending and
  everything the log asks for has been delivered).
\<close>

theorem watch_blocked_is_caught_up:
  assumes "mem_Watch None q m = (Some ch, Ok w)"
    and "\<forall>a \<in> set as. action_ok m a" and "st = watch_run compare as (start_watch m ch w)"
    and "\<not> ch_closed (ws_chan st)"
    and "mw_Tick compare (\<lambda>_. None) None (ws_mem st) (replicate n Receive) (ws_watch st) (ws_chan st)
           = (w', ch', None)"
    and "length (ch_buf (ws_chan st)) < n"
  shows "ws_out st = deliveries compare q (stream_log (qi_domain q) (qi_stream q) (ws_mem st))
           (length (stream_log (qi_domain q) (qi_stream q) (ws_mem st)))"
proof -
  from started_watch_inv[OF assms(1,2)] assms(3,4) obtain p r where
    inv: "watch_inv compare p r st" "mw_query (ws_watch st) = q" by blast
  have pop: "fst (pop (ws_watch st)) = None"
  proof (rule ccontr)
    assume "fst (pop (ws_watch st)) \<noteq> None"
    then obtain e where "pop (ws_watch st) = (Some e, snd (pop (ws_watch st)))"
      by (metis option.exhaust prod.collapse)
    with assms(5) show False by (simp add: mw_Tick_pending)
  qed
  from processInit_inv[OF inv(1) pop] obtain p' v where
    init: "processInitEvents compare (\<lambda>_. None) None (ws_mem st) (ws_watch st) = (v, Ok ())"
    and inv': "watch_inv compare p' r (st\<lparr>ws_watch := v\<rparr>)" "mw_initDone v"
      "mw_query v = mw_query (ws_watch st)" .
  have "length (watched_log (st\<lparr>ws_watch := v\<rparr>)) - r < n"
    using assms(6) inv' by (simp add: watch_inv_def)
  from waitForEvents_blocked[OF inv'(1) _ this, of w' ch'] inv'(2,3) assms(5) mw_Tick_wait[OF pop init] inv(2)
  show ?thesis by (simp add: watched_log_def)
qed


text \<open>
  An idle watch harms its stream: after 129 submissions to the watched stream with no tick in
  between, the channel is closed, and the notification of the next submission panics in the service
  goroutine (the listener sends on a closed channel).
\<close>

theorem watch_overflow_panics:
  assumes "mem_Watch None q m = (Some ch, Ok w)" "length events = 129"
    and "st = watch_run compare
           (map (\<lambda>(t, kind, body). DoSubmit (qi_domain q) (qi_stream q) t kind body) events)
           (start_watch m ch w)"
  shows "ch_closed (ws_chan st) \<and> snd (on_add_packet i (ws_chan st)) = Panic ''send on closed channel''"
proof -
  from assms(1) have start: "ch = \<lparr>ch_buf = [], ch_closed = False\<rparr>" "mw_query w = q"
    "find_stream (qi_domain q) (qi_stream q) m \<noteq> None"
    by (auto simp: mem_Watch_def split: option.splits)
  from unread_submits[of q "start_watch m ch w" events compare] start assms(2,3)
  have "ch_closed (ws_chan st)" by (auto simp: start_watch_def)
  then show ?thesis by (simp add: on_add_packet_def)
qed

subsection \<open>Witnesses\<close>

definition demo_query :: QueryIn where
  "demo_query = \<lparr>qi_domain = ''d'', qi_stream = ''s'',
     qi_onKind = [\<lparr>okc_kind = ''k'', okc_allOp = Some 5, okc_subsets = []\<rparr>], qi_onID = [],
     qi_onEach = None, qi_afterID = None\<rparr>"

definition demo_watch :: memoryWatch where
  "demo_watch = \<lparr>mw_query = demo_query, mw_pending = [], mw_lastEvent = - 1, mw_initDone = False\<rparr>"

lemma demo_Watch:
  "mem_Watch None demo_query (fst (EnsureStream None ''d'' ''s'' NewMemoryTransport)) =
     (Some \<lparr>ch_buf = [], ch_closed = False\<rparr>, Ok demo_watch)"
  by (simp add: mem_Watch_def ValidateQuery_def demo_query_def demo_watch_def find_EnsureStream)


theorem watch_blocked_is_caught_up_witness:
  "ws_out (start_watch (fst (EnsureStream None ''d'' ''s'' NewMemoryTransport))
                    \<lparr>ch_buf = [], ch_closed = False\<rparr> demo_watch)
     = deliveries (\<lambda>a b. FullMatch) demo_query
         (stream_log ''d'' ''s'' (fst (EnsureStream None ''d'' ''s'' NewMemoryTransport)))
         (length (stream_log ''d'' ''s'' (fst (EnsureStream None ''d'' ''s'' NewMemoryTransport))))"
proof -
  let ?m = "fst (EnsureStream None ''d'' ''s'' NewMemoryTransport)"
  let ?st = "start_watch ?m \<lparr>ch_buf = [], ch_closed = False\<rparr> demo_watch"
  have pop: "fst (pop demo_watch) = None" "fst (pop (demo_watch\<lparr>mw_initDone := True\<rparr>)) = None"
    by (simp_all add: demo_watch_def pop_def)
  have "processInitEvents (\<lambda>a b. FullMatch) (\<lambda>_. None) None ?m demo_watch
      = (demo_watch\<lparr>mw_initDone := True\<rparr>, Ok ())"
    using processInitEvents_eq[of demo_watch ?m "[]"]
    by (simp add: demo_watch_def demo_query_def find_EnsureStream stream_log_def)
  from mw_Tick_wait[OF pop(1) this] wait_empty(3)[OF pop(2)]
  have "mw_Tick (\<lambda>a b. FullMatch) (\<lambda>_. None) None (ws_mem ?st) (replicate 1 Receive) (ws_watch ?st) (ws_chan ?st)
      = (demo_watch\<lparr>mw_initDone := True\<rparr>, \<lparr>ch_buf = [], ch_closed = False\<rparr>, None)"
    by (simp add: start_watch_def)
  from watch_blocked_is_caught_up[OF demo_Watch, of "[]" ?st, OF _ _ _ this] show ?thesis
    by (simp add: start_watch_def demo_query_def)
qed

theorem watch_overflow_panics_witness:
  "ch_closed (ws_chan (watch_run (\<lambda>a b. FullMatch)
     (map (\<lambda>(t, kind, body). DoSubmit (qi_domain demo_query) (qi_stream demo_query) t kind body)
        (replicate 129 (1, ''k'', JNull)))
     (start_watch (fst (EnsureStream None ''d'' ''s'' NewMemoryTransport))
        \<lparr>ch_buf = [], ch_closed = False\<rparr> demo_watch)))"
  using watch_overflow_panics[OF demo_Watch _ refl, of "replicate 129 (1, ''k'', JNull)" "\<lambda>a b. FullMatch"]
  by (simp only: length_replicate)

end
