(* ===== verification/Query2.thy ===== *)
theory Query2
  imports MemoryWatch
begin

text \<open>
  The query builder \<open>src/pkg/v1/query2\<close>: clauses with handlers are turned into a wire request whose
  operation numbers index the registered handlers, and results are dispatched by those numbers.

  A handler \<open>OnStreamQueryResult\<close> may change the caller's state \<open>'s\<close>; a nil handler is \<open>None\<close>, and
  calling it panics. The document of a \<open>Subset\<close> clause is represented by what \<open>json.Marshal\<close> makes of
  it. \<open>Each\<close>, \<open>Subset\<close>, \<open>On\<close>, \<open>OnKind\<close>, \<open>OnID\<close> and \<open>After\<close> build the records below.
\<close>

type_synonym 's handler = "Envelope \<Rightarrow> raw_message \<Rightarrow> 's \<Rightarrow> 's \<times> unit outcome"

record 's MatchedKind =
  mk_processor :: "'s handler option"
  mk_subset :: "json outcome"

record 's KindClause =
  kq_kind :: string
  kq_each :: "'s handler option"
  kq_matched :: "'s MatchedKind list"

record 's IDClause =
  iq_id :: int64
  iq_on :: "'s handler option"

record 's Query =
  q2_kinds :: "'s KindClause list"
  q2_ids :: "'s IDClause list"
  q2_afterID :: "int64 option"

type_synonym 's handlers = "'s handler option list"

definition NewQuery :: "'s Query" where
  "NewQuery = \<lparr>q2_kinds = [], q2_ids = [], q2_afterID = None\<rparr>"

definition OnKind :: "string \<Rightarrow> 's Query \<Rightarrow> 's Query" where
  "OnKind kind q = q\<lparr>q2_kinds := q2_kinds q @ [\<lparr>kq_kind = kind, kq_each = None, kq_matched = []\<rparr>]\<rparr>"

definition OnID :: "int64 \<Rightarrow> 's Query \<Rightarrow> 's Query" where
  "OnID i q = q\<lparr>q2_ids := q2_ids q @ [\<lparr>iq_id = i, iq_on = None\<rparr>]\<rparr>"

definition After :: "int64 \<Rightarrow> 's Query \<Rightarrow> 's Query" where
  "After i q = q\<lparr>q2_afterID := Some i\<rparr>"

definition Each :: "'s handler \<Rightarrow> 's KindClause \<Rightarrow> 's KindClause" where
  "Each h k = k\<lparr>kq_each := Some h\<rparr>"

definition Subset :: "json outcome \<Rightarrow> 's KindClause \<Rightarrow> 's KindClause" where
  "Subset doc k = k\<lparr>kq_matched := kq_matched k @ [\<lparr>mk_processor = None, mk_subset = doc\<rparr>]\<rparr>"

definition MatchedKind_On :: "'s handler \<Rightarrow> 's MatchedKind \<Rightarrow> 's MatchedKind" where
  "MatchedKind_On h m = m\<lparr>mk_processor := Some h\<rparr>"

definition IDClause_On :: "'s handler \<Rightarrow> 's IDClause \<Rightarrow> 's IDClause" where
  "IDClause_On h i = i\<lparr>iq_on := Some h\<rparr>"

subsection \<open>Registering handlers\<close>

definition register :: "'s handler option \<Rightarrow> 's handlers \<Rightarrow> int \<times> 's handlers" where
  "register h hs = (int (length hs), hs @ [h])"

definition registerOptional :: "'s handler option \<Rightarrow> 's handlers \<Rightarrow> int option \<times> 's handlers" where
  "registerOptional h hs =
     (case h of
        None \<Rightarrow> (None, hs)
      | Some f \<Rightarrow> (case register (Some f) hs of (i, hs') \<Rightarrow> (Some i, hs')))"

subsection \<open>Batch requests\<close>

definition MatchedKind_prepareRequest ::
  "'s MatchedKind \<Rightarrow> WireBatchR2KindQuery \<times> 's handlers \<Rightarrow> (WireBatchR2KindQuery \<times> 's handlers) \<times> unit outcome" where
  "MatchedKind_prepareRequest m rh =
     (case rh of (r, hs) \<Rightarrow>
        (case mk_processor m of
           None \<Rightarrow> ((r, hs), Ok ())
         | Some f \<Rightarrow>
             (case mk_subset m of
                Err e \<Rightarrow> ((r, hs), Err e)
              | Panic p \<Rightarrow> ((r, hs), Panic p)
              | Ok doc \<Rightarrow>
                  (case register (Some f) hs of (op, hs') \<Rightarrow>
                     ((r\<lparr>wbk_match := wbk_match r @ [\<lparr>wbm_op = op, wbm_subset = Some doc\<rparr>]\<rparr>, hs'), Ok ())))))"

definition KindClause_prepareRequest ::
  "'s KindClause \<Rightarrow> WireBatchR2Request \<times> 's handlers \<Rightarrow> (WireBatchR2Request \<times> 's handlers) \<times> unit outcome" where
  "KindClause_prepareRequest k rh =
     (case rh of (r, hs) \<Rightarrow>
        (case registerOptional (kq_each k) hs of (all, hs1) \<Rightarrow>
           (case for_each MatchedKind_prepareRequest (kq_matched k)
                   (\<lparr>wbk_kind = kq_kind k, wbk_all = all, wbk_match = []\<rparr>, hs1) of
              ((w, hs2), Ok _) \<Rightarrow> ((r\<lparr>wbr_onKinds := wbr_onKinds r @ [w]\<rparr>, hs2), Ok ())
            | ((w, hs2), Err e) \<Rightarrow> ((r, hs2), Err e)
            | ((w, hs2), Panic p) \<Rightarrow> ((r, hs2), Panic p))))"

definition IDClause_prepareRequest ::
  "'s IDClause \<Rightarrow> WireBatchR2Request \<times> 's handlers \<Rightarrow> (WireBatchR2Request \<times> 's handlers) \<times> unit outcome" where
  "IDClause_prepareRequest i rh =
     (case rh of (r, hs) \<Rightarrow>
        (case register (iq_on i) hs of (op, hs') \<Rightarrow>
           ((r\<lparr>wbr_onID := wbr_onID r @ [\<lparr>wbi_op = op, wbi_id = iq_id i\<rparr>]\<rparr>, hs'), Ok ())))"

definition buildBatchRequest :: "'s Query \<Rightarrow> ('s handlers \<times> WireBatchR2Request) outcome" where
  "buildBatchRequest q =
     (case for_each KindClause_prepareRequest (q2_kinds q)
             (\<lparr>wbr_onKinds = [], wbr_onID = [], wbr_afterID = None\<rparr>, []) of
        (_, Err e) \<Rightarrow> Err e
      | (_, Panic p) \<Rightarrow> Panic p
      | (rh, Ok _) \<Rightarrow>
          (case for_each IDClause_prepareRequest (q2_ids q) rh of
             (_, Err e) \<Rightarrow> Err e
           | (_, Panic p) \<Rightarrow> Panic p
           | ((r, hs), Ok _) \<Rightarrow>
               Ok (hs, case q2_afterID q of None \<Rightarrow> r | Some a \<Rightarrow> r\<lparr>wbr_afterID := Some a\<rparr>)))"

definition call_handler ::
  "'s handlers \<Rightarrow> int \<Rightarrow> Envelope \<Rightarrow> raw_message \<Rightarrow> 's \<Rightarrow> 's \<times> unit outcome" where
  "call_handler hs op e body s =
     (if op < 0 \<or> int (length hs) \<le> op then (s, Err (TextError ''no handler registered for operation''))
      else case hs ! nat op of
             None \<Rightarrow> (s, Panic ''nil pointer dereference'')
           | Some h \<Rightarrow> h e body s)"

definition processBatchResults ::
  "'s handlers \<Rightarrow> WireBatchR2Dispatch list \<Rightarrow> 's \<Rightarrow> 's \<times> unit outcome" where
  "processBatchResults hs =
     for_each (\<lambda>d. call_handler hs (wbd_op d) (wbd_envelope d) (wbd_event d))"

text \<open>\<open>StreamBatch\<close> over a transport whose \<open>QueryBatchR2\<close> is \<open>query\<close>.\<close>

definition StreamBatch ::
  "(WireBatchR2Request \<Rightarrow> WireBatchR2Dispatch list outcome) \<Rightarrow> 's Query \<Rightarrow> 's \<Rightarrow> 's \<times> unit outcome" where
  "StreamBatch query q s =
     (case buildBatchRequest q of
        Err e \<Rightarrow> (s, Err e)
      | Panic p \<Rightarrow> (s, Panic p)
      | Ok (hs, request) \<Rightarrow>
          (if WireBatchR2Request_Empty request then (s, Ok ())
           else case query request of
                  Err e \<Rightarrow> (s, Err e)
                | Panic p \<Rightarrow> (s, Panic p)
                | Ok reply \<Rightarrow> processBatchResults hs reply s))"

subsection \<open>Watches\<close>

definition MatchedKind_prepareQuery ::
  "'s MatchedKind \<Rightarrow> OnKindClause \<times> 's handlers \<Rightarrow> (OnKindClause \<times> 's handlers) \<times> unit outcome" where
  "MatchedKind_prepareQuery m rh =
     (case rh of (r, hs) \<Rightarrow>
        (case mk_processor m of
           None \<Rightarrow> ((r, hs), Ok ())
         | Some f \<Rightarrow>
             (case mk_subset m of
                Err e \<Rightarrow> ((r, hs), Err e)
              | Panic p \<Rightarrow> ((r, hs), Panic p)
              | Ok doc \<Rightarrow>
                  (case register (Some f) hs of (op, hs') \<Rightarrow>
                     ((r\<lparr>okc_subsets := okc_subsets r @ [\<lparr>oks_op = op, oks_match = Some doc\<rparr>]\<rparr>, hs'), Ok ())))))"

definition KindClause_prepareQuery ::
  "'s KindClause \<Rightarrow> QueryIn \<times> 's handlers \<Rightarrow> (QueryIn \<times> 's handlers) \<times> unit outcome" where
  "KindClause_prepareQuery k rh =
     (case rh of (r, hs) \<Rightarrow>
        (case registerOptional (kq_each k) hs of (all, hs1) \<Rightarrow>
           (case for_each MatchedKind_prepareQuery (kq_matched k)
                   (\<lparr>okc_kind = kq_kind k, okc_allOp = all, okc_subsets = []\<rparr>, hs1) of
              ((w, hs2), Ok _) \<Rightarrow> ((r\<lparr>qi_onKind := qi_onKind r @ [w]\<rparr>, hs2), Ok ())
            | ((w, hs2), Err e) \<Rightarrow> ((r, hs2), Err e)
            | ((w, hs2), Panic p) \<Rightarrow> ((r, hs2), Panic p))))"

text \<open>The request of a watch on the given stream: identifier clauses are not part of it.\<close>

definition buildWatchRequest :: "string \<Rightarrow> string \<Rightarrow> 's Query \<Rightarrow> ('s handlers \<times> QueryIn) outcome" where
  "buildWatchRequest domain stream q =
     (case for_each KindClause_prepareQuery (q2_kinds q)
             (\<lparr>qi_domain = domain, qi_stream = stream, qi_onKind = [], qi_onID = [], qi_onEach = None,
               qi_afterID = None\<rparr>, []) of
        (_, Err e) \<Rightarrow> Err e
      | (_, Panic p) \<Rightarrow> Panic p
      | ((r, hs), Ok _) \<Rightarrow>
          Ok (hs, case q2_afterID q of None \<Rightarrow> r | Some a \<Rightarrow> r\<lparr>qi_afterID := Some a\<rparr>))"

text \<open>\<open>Format(time.RFC3339)\<close>: text with whole seconds.\<close>

definition format_seconds :: "time \<Rightarrow> when_text" where
  "format_seconds t = Timestamp (t div second * second)"

definition TickWithID ::
  "'s handlers \<Rightarrow> QueryOut option outcome \<Rightarrow> 's \<Rightarrow> 's \<times> int64 outcome" where
  "TickWithID hs tick s =
     (case tick of
        Err e \<Rightarrow> (s, Err e)
      | Panic p \<Rightarrow> (s, Panic p)
      | Ok None \<Rightarrow> (s, Err (TextError ''nil message on tick but not error''))
      | Ok (Some m) \<Rightarrow>
          (case call_handler hs (qo_op m)
                  \<lparr>env_id = qo_id m, env_when = format_seconds (qo_when m), env_kind = qo_kind m\<rparr> (qo_body m) s of
             (s', Ok _) \<Rightarrow> (s', Ok (qo_id m))
           | (s', Err e) \<Rightarrow> (s', Err e)
           | (s', Panic p) \<Rightarrow> (s', Panic p)))"

definition Watch_Tick :: "'s handlers \<Rightarrow> QueryOut option outcome \<Rightarrow> 's \<Rightarrow> 's \<times> unit outcome" where
  "Watch_Tick hs tick s =
     (case TickWithID hs tick s of
        (s', Ok _) \<Rightarrow> (s', Ok ())
      | (s', Err e) \<Rightarrow> (s', Err e)
      | (s', Panic p) \<Rightarrow> (s', Panic p))"

text \<open>\<open>Pump\<close> over the answers of the wire's successive ticks; it ends with the first error.\<close>

fun Watch_Pump :: "'s handlers \<Rightarrow> QueryOut option outcome list \<Rightarrow> 's \<Rightarrow> 's \<times> unit outcome option" where
  "Watch_Pump hs [] s = (s, None)"
| "Watch_Pump hs (t # ts) s =
     (case Watch_Tick hs t s of
        (s', Ok _) \<Rightarrow> Watch_Pump hs ts s'
      | (s', r) \<Rightarrow> (s', Some r))"

subsection \<open>What a query asks for\<close>

text \<open>The handlers that the clauses of a query name for an event, in the order of the clauses.\<close>

definition clause_calls :: "json_compare \<Rightarrow> 's KindClause \<Rightarrow> json \<Rightarrow> 's handler list" where
  "clause_calls compare k body =
     (case kq_each k of None \<Rightarrow> [] | Some h \<Rightarrow> [h])
     @ List.map_filter (\<lambda>m. case (mk_processor m, mk_subset m) of
           (Some h, Ok doc) \<Rightarrow> (if JSONIsSubset compare (Some body) (Some doc) then Some h else None)
         | _ \<Rightarrow> None) (kq_matched k)"

definition kind_calls :: "json_compare \<Rightarrow> 's KindClause list \<Rightarrow> string \<Rightarrow> json \<Rightarrow> 's handler list" where
  "kind_calls compare ks kind body =
     concat (map (\<lambda>k. clause_calls compare k body) (filter (\<lambda>k. kq_kind k = kind) ks))"

definition query_calls :: "json_compare \<Rightarrow> 's Query \<Rightarrow> Envelope \<Rightarrow> json \<Rightarrow> 's handler option list" where
  "query_calls compare q e body =
     (if after_ok (q2_afterID q) (env_id e)
      then map Some (kind_calls compare (q2_kinds q) (env_kind e) body)
           @ map iq_on (filter (\<lambda>i. iq_id i = env_id e) (q2_ids q))
      else [])"

text \<open>Calling handlers one after the other until one fails.\<close>

definition run_calls :: "Envelope \<Rightarrow> raw_message \<Rightarrow> 's handler option list \<Rightarrow> 's \<Rightarrow> 's \<times> unit outcome" where
  "run_calls e body =
     for_each (\<lambda>h s. case h of None \<Rightarrow> (s, Panic ''nil pointer dereference'') | Some f \<Rightarrow> f e body s)"

definition marshals :: "'s Query \<Rightarrow> bool" where
  "marshals q \<longleftrightarrow>
     list_all (\<lambda>k. list_all (\<lambda>m. mk_processor m = None \<or> is_ok (mk_subset m)) (kq_matched k)) (q2_kinds q)"

text \<open>\<open>Stream.QueryBatchR2\<close> of a stream on the in-memory transport.\<close>

definition Stream_QueryBatchR2 ::
  "json_compare \<Rightarrow> (int64 \<Rightarrow> goerror option) \<Rightarrow> goerror option \<Rightarrow> string \<Rightarrow> string \<Rightarrow> memory
     \<Rightarrow> WireBatchR2Request \<Rightarrow> WireBatchR2Dispatch list outcome" where
  "Stream_QueryBatchR2 compare net netAll domain stream m batch =
     (case mem_QueryBatchR2 compare net netAll domain stream batch [] m of
        (out, Ok _) \<Rightarrow> Ok out
      | (_, Err e) \<Rightarrow> Err e
      | (_, Panic p) \<Rightarrow> Panic p)"

subsection \<open>Lemmas\<close>

text \<open>The operation numbers \<open>ops\<close> are registered and stand for the handlers \<open>calls\<close>.\<close>

definition serves :: "'s handlers \<Rightarrow> int list \<Rightarrow> 's handler option list \<Rightarrow> bool" where
  "serves hs ops calls \<longleftrightarrow>
     (\<forall>op \<in> set ops. 0 \<le> op \<and> op < int (length hs)) \<and> map (\<lambda>op. hs ! nat op) ops = calls"

lemma serves_Nil [simp]: "serves hs [] []"
  by (simp add: serves_def)

lemma serves_ext: "serves hs ops calls \<Longrightarrow> serves (hs @ xs) ops calls"
  by (fastforce simp: serves_def nth_append nat_less_iff)

lemma serves_append: "serves hs a x \<Longrightarrow> serves hs b y \<Longrightarrow> serves hs (a @ b) (x @ y)"
  by (auto simp: serves_def)

lemma serves_register: "serves (hs @ [h]) [int (length hs)] [h]"
  by (simp add: serves_def)

lemma serves_calls:
  "serves hs ops calls \<Longrightarrow>
     for_each (\<lambda>op. call_handler hs op e body) ops s = run_calls e body calls s"
proof (induction ops arbitrary: calls s)
  case Nil
  then show ?case by (simp add: serves_def run_calls_def)
next
  case (Cons op ops)
  then obtain cs where cs: "calls = (hs ! nat op) # cs" "serves hs ops cs"
    and range: "\<not> (op < 0 \<or> int (length hs) \<le> op)"
    by (auto simp: serves_def)
  have "call_handler hs op e body s =
      (case hs ! nat op of None \<Rightarrow> (s, Panic ''nil pointer dereference'') | Some f \<Rightarrow> f e body s)"
    using range by (simp add: call_handler_def)
  with Cons.IH[OF cs(2)] show ?case
    by (simp add: cs(1) run_calls_def split: prod.splits outcome.splits)
qed

definition matched_calls :: "json_compare \<Rightarrow> 's MatchedKind list \<Rightarrow> json \<Rightarrow> 's handler list" where
  "matched_calls compare ms body =
     List.map_filter (\<lambda>m. case (mk_processor m, mk_subset m) of
         (Some h, Ok doc) \<Rightarrow> (if JSONIsSubset compare (Some body) (Some doc) then Some h else None)
       | _ \<Rightarrow> None) ms"

lemma matched_calls_simps [simp]:
  "matched_calls compare [] body = []"
  "matched_calls compare (m # ms) body =
     (case (mk_processor m, mk_subset m) of
        (Some h, Ok doc) \<Rightarrow> (if JSONIsSubset compare (Some body) (Some doc) then [h] else [])
      | _ \<Rightarrow> []) @ matched_calls compare ms body"
  by (auto simp: matched_calls_def List.map_filter_simps split: option.splits outcome.splits)

lemma clause_calls_eq:
  "clause_calls compare k body =
     (case kq_each k of None \<Rightarrow> [] | Some h \<Rightarrow> [h]) @ matched_calls compare (kq_matched k) body"
  by (simp add: clause_calls_def matched_calls_def)

lemma prepare_matched:
  assumes "list_all (\<lambda>m. mk_processor m = None \<or> is_ok (mk_subset m)) ms"
  shows "\<exists>W H. for_each MatchedKind_prepareRequest ms (r, hs) =
      ((r\<lparr>wbk_match := wbk_match r @ W\<rparr>, hs @ H), Ok ())
    \<and> (\<forall>body. serves (hs @ H)
         (map wbm_op (filter (\<lambda>mt. JSONIsSubset compare (Some body) (wbm_subset mt)) W))
         (map Some (matched_calls compare ms body)))"
  using assms
proof (induction ms arbitrary: r hs)
  case Nil
  show ?case by (rule exI[of _ "[]"], rule exI[of _ "[]"]) simp
next
  case (Cons m ms)
  show ?case
  proof (cases "mk_processor m")
    case None
    have "MatchedKind_prepareRequest m (r, hs) = ((r, hs), Ok ())"
      using None by (simp add: MatchedKind_prepareRequest_def)
    with Cons.IH[of r hs] Cons.prems None show ?thesis by simp
  next
    case (Some f)
    with Cons.prems obtain doc where doc: "mk_subset m = Ok doc" by (cases "mk_subset m") auto
    let ?mt = "\<lparr>wbm_op = int (length hs), wbm_subset = Some doc\<rparr>"
    let ?r = "r\<lparr>wbk_match := wbk_match r @ [?mt]\<rparr>"
    from Cons.IH[of ?r "hs @ [Some f]"] Cons.prems obtain W H where
      eq: "for_each MatchedKind_prepareRequest ms (?r, hs @ [Some f]) =
        ((?r\<lparr>wbk_match := wbk_match ?r @ W\<rparr>, (hs @ [Some f]) @ H), Ok ())"
      and ser: "\<And>body. serves ((hs @ [Some f]) @ H)
         (map wbm_op (filter (\<lambda>mt. JSONIsSubset compare (Some body) (wbm_subset mt)) W))
         (map Some (matched_calls compare ms body))" by auto
    have "serves (hs @ Some f # H)
         (map wbm_op (filter (\<lambda>mt. JSONIsSubset compare (Some body) (wbm_subset mt)) (?mt # W)))
         (map Some (matched_calls compare (m # ms) body))" for body
      using serves_append[OF serves_ext[OF serves_register[of hs "Some f"], of H] ser[of body]] ser[of body]
        Some doc by simp
    moreover have "MatchedKind_prepareRequest m (r, hs) = ((?r, hs @ [Some f]), Ok ())"
      using Some doc by (simp add: MatchedKind_prepareRequest_def register_def)
    ultimately show ?thesis
      using eq by (intro exI[of _ "?mt # W"] exI[of _ "Some f # H"]) simp
  qed
qed

definition wire_ops :: "json_compare \<Rightarrow> WireBatchR2KindQuery \<Rightarrow> json \<Rightarrow> int list" where
  "wire_ops compare w body =
     (case wbk_all w of None \<Rightarrow> [] | Some op \<Rightarrow> [op])
     @ map wbm_op (filter (\<lambda>mt. JSONIsSubset compare (Some body) (wbm_subset mt)) (wbk_match w))"

lemma prepare_clause:
  assumes "list_all (\<lambda>m. mk_processor m = None \<or> is_ok (mk_subset m)) (kq_matched k)"
  shows "\<exists>w H. KindClause_prepareRequest k (r, hs) = ((r\<lparr>wbr_onKinds := wbr_onKinds r @ [w]\<rparr>, hs @ H), Ok ())
    \<and> wbk_kind w = kq_kind k
    \<and> (\<forall>body. serves (hs @ H) (wire_ops compare w body) (map Some (clause_calls compare k body)))"
proof -
  obtain all H0 where reg: "registerOptional (kq_each k) hs = (all, hs @ H0)"
    "serves (hs @ H0) (case all of None \<Rightarrow> [] | Some op \<Rightarrow> [op])
       (map Some (case kq_each k of None \<Rightarrow> [] | Some h \<Rightarrow> [h]))"
    by (cases "kq_each k") (auto simp: registerOptional_def register_def intro: serves_register)
  let ?w = "\<lparr>wbk_kind = kq_kind k, wbk_all = all, wbk_match = []\<rparr>"
  from prepare_matched[OF assms, of ?w "hs @ H0"] obtain W H where
    eq: "for_each MatchedKind_prepareRequest (kq_matched k) (?w, hs @ H0) =
      ((?w\<lparr>wbk_match := wbk_match ?w @ W\<rparr>, (hs @ H0) @ H), Ok ())"
    and ser: "\<And>body. serves ((hs @ H0) @ H)
         (map wbm_op (filter (\<lambda>mt. JSONIsSubset compare (Some body) (wbm_subset mt)) W))
         (map Some (matched_calls compare (kq_matched k) body))" by blast
  have "serves (hs @ H0 @ H) (wire_ops compare (?w\<lparr>wbk_match := W\<rparr>) body)
      (map Some (clause_calls compare k body))" for body
    using serves_append[OF serves_ext[OF reg(2), of H] ser[of body]]
    by (simp add: wire_ops_def clause_calls_eq)
  with eq reg(1) show ?thesis
    by (intro exI[of _ "?w\<lparr>wbk_match := W\<rparr>"] exI[of _ "H0 @ H"])
       (simp add: KindClause_prepareRequest_def)
qed

lemma prepare_clauses:
  assumes "list_all (\<lambda>k. list_all (\<lambda>m. mk_processor m = None \<or> is_ok (mk_subset m)) (kq_matched k)) ks"
  shows "\<exists>Ws H. for_each KindClause_prepareRequest ks (r, hs) =
      ((r\<lparr>wbr_onKinds := wbr_onKinds r @ Ws\<rparr>, hs @ H), Ok ())
    \<and> length Ws = length ks
    \<and> (\<forall>kind body. serves (hs @ H)
         (concat (map (\<lambda>w. wire_ops compare w body) (filter (\<lambda>w. wbk_kind w = kind) Ws)))
         (map Some (kind_calls compare ks kind body)))"
  using assms
proof (induction ks arbitrary: r hs)
  case Nil
  show ?case by (rule exI[of _ "[]"], rule exI[of _ "[]"]) (simp add: kind_calls_def)
next
  case (Cons k ks)
  from prepare_clause[of k r hs compare] Cons.prems obtain w H where
    w: "KindClause_prepareRequest k (r, hs) = ((r\<lparr>wbr_onKinds := wbr_onKinds r @ [w]\<rparr>, hs @ H), Ok ())"
    "wbk_kind w = kq_kind k"
    "\<And>body. serves (hs @ H) (wire_ops compare w body) (map Some (clause_calls compare k body))" by auto
  let ?r = "r\<lparr>wbr_onKinds := wbr_onKinds r @ [w]\<rparr>"
  from Cons.IH[of ?r "hs @ H"] Cons.prems obtain Ws H' where
    Ws: "for_each KindClause_prepareRequest ks (?r, hs @ H) =
      ((?r\<lparr>wbr_onKinds := wbr_onKinds ?r @ Ws\<rparr>, (hs @ H) @ H'), Ok ())" "length Ws = length ks"
    "\<And>kind body. serves ((hs @ H) @ H')
         (concat (map (\<lambda>w. wire_ops compare w body) (filter (\<lambda>w. wbk_kind w = kind) Ws)))
         (map Some (kind_calls compare ks kind body))" by auto
  have "serves (hs @ H @ H')
      (concat (map (\<lambda>w. wire_ops compare w body) (filter (\<lambda>w. wbk_kind w = kind) (w # Ws))))
      (map Some (kind_calls compare (k # ks) kind body))" for kind body
    using serves_append[OF serves_ext[OF w(3)[of body], of H'] Ws(3)[of body kind]] Ws(3)[of body kind] w(2)
    by (auto simp: kind_calls_def)
  with w(1) Ws(1,2) show ?case
    by (intro exI[of _ "w # Ws"] exI[of _ "H @ H'"]) simp
qed

lemma prepare_ids:
  "\<exists>Is H. for_each IDClause_prepareRequest is (r, hs) = ((r\<lparr>wbr_onID := wbr_onID r @ Is\<rparr>, hs @ H), Ok ())
    \<and> length Is = length is
    \<and> (\<forall>i. serves (hs @ H) (map wbi_op (filter (\<lambda>x. wbi_id x = i) Is)) (map iq_on (filter (\<lambda>x. iq_id x = i) is)))"
proof (induction "is" arbitrary: r hs)
  case Nil
  show ?case by (rule exI[of _ "[]"], rule exI[of _ "[]"]) simp
next
  case (Cons x xs)
  let ?w = "\<lparr>wbi_op = int (length hs), wbi_id = iq_id x\<rparr>"
  let ?r = "r\<lparr>wbr_onID := wbr_onID r @ [?w]\<rparr>"
  from Cons.IH[of ?r "hs @ [iq_on x]"] obtain Is H where
    eq: "for_each IDClause_prepareRequest xs (?r, hs @ [iq_on x]) =
      ((?r\<lparr>wbr_onID := wbr_onID ?r @ Is\<rparr>, (hs @ [iq_on x]) @ H), Ok ())" "length Is = length xs"
    and ser: "\<And>i. serves ((hs @ [iq_on x]) @ H) (map wbi_op (filter (\<lambda>x. wbi_id x = i) Is))
      (map iq_on (filter (\<lambda>x. iq_id x = i) xs))" by blast
  have "serves (hs @ iq_on x # H) (map wbi_op (filter (\<lambda>x. wbi_id x = i) (?w # Is)))
      (map iq_on (filter (\<lambda>x. iq_id x = i) (x # xs)))" for i
    using serves_append[OF serves_ext[OF serves_register[of hs "iq_on x"], of H] ser[of i]] ser[of i] by auto
  moreover have "IDClause_prepareRequest x (r, hs) = ((?r, hs @ [iq_on x]), Ok ())"
    by (simp add: IDClause_prepareRequest_def register_def)
  ultimately show ?case
    using eq by (intro exI[of _ "?w # Is"] exI[of _ "iq_on x # H"]) simp
qed

lemma build_serves:
  assumes "marshals q"
  shows "\<exists>hs req. buildBatchRequest q = Ok (hs, req)
    \<and> (WireBatchR2Request_Empty req \<longleftrightarrow> q2_kinds q = [] \<and> q2_ids q = [])
    \<and> (\<forall>e body. serves hs (r2_dispatches compare req e body) (query_calls compare q e body))"
proof -
  let ?r = "\<lparr>wbr_onKinds = [], wbr_onID = [], wbr_afterID = None\<rparr>"
  from prepare_clauses[of "q2_kinds q" ?r "[]" compare] assms obtain Ws H where
    W: "for_each KindClause_prepareRequest (q2_kinds q) (?r, []) = ((?r\<lparr>wbr_onKinds := Ws\<rparr>, H), Ok ())"
    "length Ws = length (q2_kinds q)"
    "\<And>kind body. serves H
       (concat (map (\<lambda>w. wire_ops compare w body) (filter (\<lambda>w. wbk_kind w = kind) Ws)))
       (map Some (kind_calls compare (q2_kinds q) kind body))"
    by (auto simp: marshals_def)
  from prepare_ids[of "q2_ids q" "?r\<lparr>wbr_onKinds := Ws\<rparr>" H] obtain Is H' where
    I: "for_each IDClause_prepareRequest (q2_ids q) (?r\<lparr>wbr_onKinds := Ws\<rparr>, H) =
      ((?r\<lparr>wbr_onKinds := Ws, wbr_onID := Is\<rparr>, H @ H'), Ok ())" "length Is = length (q2_ids q)"
    "\<And>i. serves (H @ H') (map wbi_op (filter (\<lambda>x. wbi_id x = i) Is)) (map iq_on (filter (\<lambda>x. iq_id x = i) (q2_ids q)))"
    by auto
  let ?req = "\<lparr>wbr_onKinds = Ws, wbr_onID = Is, wbr_afterID = q2_afterID q\<rparr>"
  have "buildBatchRequest q = Ok (H @ H', ?req)"
    using W(1) I(1) by (simp add: buildBatchRequest_def split: option.splits)
  moreover have "serves (H @ H') (r2_dispatches compare ?req e body) (query_calls compare q e body)" for e body
    using serves_append[OF serves_ext[OF W(3)[where kind = "env_kind e" and body = body], of H'] I(3)[of "env_id e"]]
    by (simp add: r2_dispatches_def query_calls_def wire_ops_def)
  moreover have "WireBatchR2Request_Empty ?req \<longleftrightarrow> q2_kinds q = [] \<and> q2_ids q = []"
    using W(2) I(2) by (auto simp: WireBatchR2Request_Empty_def)
  ultimately show ?thesis by blast
qed

text \<open>The watch request is the batch request without identifiers, in the messages of the service.\<close>

definition conv_clause :: "WireBatchR2KindQuery \<Rightarrow> OnKindClause" where
  "conv_clause w = \<lparr>okc_kind = wbk_kind w, okc_allOp = wbk_all w,
     okc_subsets = map (\<lambda>mt. \<lparr>oks_op = wbm_op mt, oks_match = wbm_subset mt\<rparr>) (wbk_match w)\<rparr>"

definition conv_request :: "string \<Rightarrow> string \<Rightarrow> WireBatchR2Request \<Rightarrow> QueryIn" where
  "conv_request domain stream r = \<lparr>qi_domain = domain, qi_stream = stream,
     qi_onKind = map conv_clause (wbr_onKinds r), qi_onID = [], qi_onEach = None, qi_afterID = wbr_afterID r\<rparr>"

lemma prepareQuery_matched:
  "MatchedKind_prepareQuery m (map_prod conv_clause id rh) =
     (case MatchedKind_prepareRequest m rh of (rh', r) \<Rightarrow> (map_prod conv_clause id rh', r))"
  by (cases rh)
     (simp add: MatchedKind_prepareQuery_def MatchedKind_prepareRequest_def conv_clause_def register_def
        split: option.splits outcome.splits)

lemma prepareQuery_clause:
  "KindClause_prepareQuery k (map_prod (conv_request domain stream) id rh) =
     (case KindClause_prepareRequest k rh of (rh', r) \<Rightarrow> (map_prod (conv_request domain stream) id rh', r))"
proof (cases rh)
  case (Pair r hs)
  obtain all hs1 where reg: "registerOptional (kq_each k) hs = (all, hs1)" by fastforce
  let ?w = "\<lparr>wbk_kind = kq_kind k, wbk_all = all, wbk_match = []\<rparr>"
  have "(\<lparr>okc_kind = kq_kind k, okc_allOp = all, okc_subsets = []\<rparr>, hs1) = map_prod conv_clause id (?w, hs1)"
    by (simp add: conv_clause_def)
  from for_each_sim[where g = MatchedKind_prepareQuery and f = MatchedKind_prepareRequest
      and h = "map_prod conv_clause id", OF prepareQuery_matched, of "kq_matched k" "(?w, hs1)", folded this]
  show ?thesis
    using Pair reg
    by (simp add: KindClause_prepareQuery_def KindClause_prepareRequest_def conv_request_def
        split: prod.splits outcome.splits)
qed

lemma build_watch_serves:
  assumes "marshals q"
  shows "\<exists>hs req. buildWatchRequest domain stream q = Ok (hs, req)
    \<and> qi_domain req = domain \<and> qi_stream req = stream
    \<and> (\<forall>e body. serves hs (watch_ops compare req e body)
         (if after_ok (q2_afterID q) (env_id e)
          then map Some (kind_calls compare (q2_kinds q) (env_kind e) body) else []))"
proof -
  let ?r = "\<lparr>wbr_onKinds = [], wbr_onID = [], wbr_afterID = None\<rparr>"
  from prepare_clauses[of "q2_kinds q" ?r "[]" compare] assms obtain Ws H where
    W: "for_each KindClause_prepareRequest (q2_kinds q) (?r, []) = ((?r\<lparr>wbr_onKinds := Ws\<rparr>, H), Ok ())"
    "\<And>kind body. serves H
       (concat (map (\<lambda>w. wire_ops compare w body) (filter (\<lambda>w. wbk_kind w = kind) Ws)))
       (map Some (kind_calls compare (q2_kinds q) kind body))"
    by (auto simp: marshals_def)
  have "(\<lparr>qi_domain = domain, qi_stream = stream, qi_onKind = [], qi_onID = [], qi_onEach = None,
          qi_afterID = None\<rparr>, []) = map_prod (conv_request domain stream) id (?r, [])"
    by (simp add: conv_request_def)
  from for_each_sim[where g = KindClause_prepareQuery and f = KindClause_prepareRequest
      and h = "map_prod (conv_request domain stream) id", OF prepareQuery_clause, of "q2_kinds q" "(?r, [])",
      folded this] W(1)
  have "buildWatchRequest domain stream q =
      Ok (H, (conv_request domain stream (?r\<lparr>wbr_onKinds := Ws\<rparr>))\<lparr>qi_afterID := q2_afterID q\<rparr>)"
    by (simp add: buildWatchRequest_def conv_request_def split: option.splits)
  moreover have "watch_ops compare ((conv_request domain stream (?r\<lparr>wbr_onKinds := Ws\<rparr>))\<lparr>qi_afterID := a\<rparr>) e body =
      (if after_ok a (env_id e)
       then concat (map (\<lambda>w. wire_ops compare w body) (filter (\<lambda>w. wbk_kind w = env_kind e) Ws)) else [])"
    for a e body
    by (simp add: watch_ops_def conv_request_def wire_ops_def conv_clause_def filter_map comp_def)
  ultimately show ?thesis using W(2) by (auto simp: conv_request_def)
qed

text \<open>The handler calls of a watch for the \<open>n\<close>-th event of a log: the first handler the clauses name.\<close>

definition watch_calls ::
  "json_compare \<Rightarrow> 's Query \<Rightarrow> (time \<times> string \<times> json) list \<Rightarrow> nat \<Rightarrow> 's \<Rightarrow> 's \<times> unit outcome" where
  "watch_calls compare q log n =
     run_calls \<lparr>env_id = int n, env_when = format_seconds (fst (log ! n)), env_kind = fst (snd (log ! n))\<rparr>
       (Some (log_body log n))
       (if after_ok (q2_afterID q) (int n)
        then take 1 (map Some (kind_calls compare (q2_kinds q) (fst (snd (log ! n))) (log_body log n))) else [])"

lemma Watch_Pump_for_each:
  "Watch_Pump hs (map (\<lambda>m. Ok (Some m)) ms) s =
     (case for_each (\<lambda>m. Watch_Tick hs (Ok (Some m))) ms s of
        (s', Ok _) \<Rightarrow> (s', None) | (s', Err e) \<Rightarrow> (s', Some (Err e)) | (s', Panic p) \<Rightarrow> (s', Some (Panic p)))"
  by (induction ms arbitrary: s) (auto split: prod.splits outcome.splits)

lemma Watch_Tick_call:
  "Watch_Tick hs (Ok (Some m)) s =
     call_handler hs (qo_op m)
       \<lparr>env_id = qo_id m, env_when = format_seconds (qo_when m), env_kind = qo_kind m\<rparr> (qo_body m) s"
  by (auto simp: Watch_Tick_def TickWithID_def split: prod.splits outcome.splits)

lemma serves_take: "serves hs ops calls \<Longrightarrow> serves hs (take n ops) (take n calls)"
  by (auto simp: serves_def take_map dest: in_set_takeD)

lemma delivery_calls:
  assumes "serves hs (watch_ops compare req (log_envelope log n) (log_body log n)) calls"
  shows "for_each (\<lambda>m. Watch_Tick hs (Ok (Some m))) (delivery compare req log n) s =
    run_calls \<lparr>env_id = int n, env_when = format_seconds (fst (log ! n)), env_kind = fst (snd (log ! n))\<rparr>
       (Some (log_body log n)) (take 1 calls) s"
  using serves_calls[OF serves_take[OF assms, of 1],
      of "\<lparr>env_id = int n, env_when = format_seconds (fst (log ! n)), env_kind = fst (snd (log ! n))\<rparr>" "Some (log_body log n)" s]
  by (cases "watch_ops compare req (log_envelope log n) (log_body log n)")
     (simp_all add: delivery_def Watch_Tick_call)

lemma for_each_idle: "(\<And>x s. x \<in> set xs \<Longrightarrow> f x s = (s, Ok ())) \<Longrightarrow> for_each f xs s = (s, Ok ())"
  by (induction xs) simp_all

text \<open>What a watch of a query does with the messages it is sent.\<close>

lemma watch_pump_calls:
  assumes "marshals q"
  shows "\<exists>hs req. buildWatchRequest d s q = Ok (hs, req) \<and> qi_domain req = d \<and> qi_stream req = s
    \<and> (\<forall>log p st. Watch_Pump hs (map (\<lambda>m. Ok (Some m)) (deliveries compare req log p)) st =
         (case for_each (watch_calls compare q log) [0..<p] st of
            (st', Ok _) \<Rightarrow> (st', None)
          | (st', Err e) \<Rightarrow> (st', Some (Err e))
          | (st', Panic x) \<Rightarrow> (st', Some (Panic x))))"
proof -
  from build_watch_serves[OF assms, of d s compare] obtain hs req where
    b: "buildWatchRequest d s q = Ok (hs, req)" "qi_domain req = d" "qi_stream req = s"
    and ser: "\<And>e body. serves hs (watch_ops compare req e body)
         (if after_ok (q2_afterID q) (env_id e)
          then map Some (kind_calls compare (q2_kinds q) (env_kind e) body) else [])" by blast
  have "for_each (\<lambda>m. Watch_Tick hs (Ok (Some m))) (delivery compare req log n) st = watch_calls compare q log n st"
    for log n st
    using delivery_calls[OF ser, of log n st]
    by (simp add: watch_calls_def log_envelope_def split: if_splits)
  then have "for_each (\<lambda>m. Watch_Tick hs (Ok (Some m))) (deliveries compare req log p) st =
      for_each (watch_calls compare q log) [0..<p] st" for log p st
    unfolding deliveries_def for_each_concat for_each_map by (rule for_each_cong)
  with b show ?thesis by (simp add: Watch_Pump_for_each)
qed

subsection \<open>Properties\<close>


text \<open>
  C14. A watch built by \<open>Query.Watch\<close> dispatches correctly: pumping the messages the service delivers for
  the first \<open>p\<close> events of a stream calls for every event after \<open>After\<close> the first handler that the kind
  clauses name for it and no other, in stream order, until a handler fails; identifier clauses take no
  part. The envelope the handler sees has its time cut to whole seconds.
\<close>

theorem watch_dispatch_correct:
  assumes "marshals q"
  shows "\<exists>hs req. buildWatchRequest d s q = Ok (hs, req) \<and> qi_domain req = d \<and> qi_stream req = s
    \<and> (\<forall>log p st. Watch_Pump hs (map (\<lambda>m. Ok (Some m)) (deliveries compare req log p)) st =
         (case for_each (watch_calls compare q log) [0..<p] st of
            (st', Ok _) \<Rightarrow> (st', None)
          | (st', Err e) \<Rightarrow> (st', Some (Err e))
          | (st', Panic x) \<Rightarrow> (st', Some (Panic x))))"
  using assms by (rule watch_pump_calls)

subsection \<open>Witnesses\<close>

text \<open>A handler that records what it was called with, and a query with two clauses.\<close>

definition record_call :: "nat \<Rightarrow> (nat \<times> int64) list handler" where
  "record_call tag e body s = (s @ [(tag, env_id e)], Ok ())"

definition demo_q2 :: "(nat \<times> int64) list Query" where
  "demo_q2 = \<lparr>q2_kinds = [\<lparr>kq_kind = ''k'', kq_each = Some (record_call 1),
       kq_matched = [\<lparr>mk_processor = Some (record_call 2), mk_subset = Ok (JNum 7)\<rparr>]\<rparr>],
     q2_ids = [\<lparr>iq_id = 0, iq_on = Some (record_call 3)\<rparr>], q2_afterID = None\<rparr>"

lemma marshals_demo: "marshals demo_q2"
  by (simp add: marshals_def demo_q2_def)


theorem watch_dispatch_correct_witness:
  "\<exists>hs req. buildWatchRequest ''d'' ''s'' demo_q2 = Ok (hs, req)
    \<and> Watch_Pump hs (map (\<lambda>m. Ok (Some m)) (deliveries (\<lambda>a b. FullMatch) req [(1, ''k'', JNum 7)] 1)) []
        = ([(1, 0)], None)"
proof -
  from watch_dispatch_correct[OF marshals_demo, of "''d''" "''s''" "\<lambda>a b. FullMatch"] obtain hs req where
    "buildWatchRequest ''d'' ''s'' demo_q2 = Ok (hs, req)"
    "Watch_Pump hs (map (\<lambda>m. Ok (Some m)) (deliveries (\<lambda>a b. FullMatch) req [(1, ''k'', JNum 7)] 1)) []
      = (case for_each (watch_calls (\<lambda>a b. FullMatch) demo_q2 [(1, ''k'', JNum 7)]) [0..<1] [] of
            (st', Ok _) \<Rightarrow> (st', None) | (st', Err e) \<Rightarrow> (st', Some (Err e))
          | (st', Panic x) \<Rightarrow> (st', Some (Panic x)))" by blast
  then show ?thesis
    by (simp add: watch_calls_def kind_calls_def clause_calls_def demo_q2_def run_calls_def
        after_ok_def record_call_def)
qed

end
