(* ===== verification/Views.thy ===== *)
theory Views
  imports Query2
begin

text \<open>
  View projections, \<open>src/pkg/indexer/views\<close>: keys, entities and mutations (\<open>key.go\<close>, \<open>entity.go\<close>,
  \<open>handler.go\<close>, \<open>change.go\<close>), the in-memory store (\<open>memory.go\<close>), projections (\<open>projection.go\<close>) and the
  indexer that runs them (\<open>indexer.go\<close>).

  \<^item> The Go value of an upsert (\<open>any\<close>) is an \<open>any_value\<close>: a \<open>[]byte\<close>, a \<open>json.RawMessage\<close> or a value of
    another type \<open>'v\<close>, whose JSON encoding depends on the type and is the argument \<open>enc\<close>. A byte slice
    is the text of a document or is not one.
  \<^item> \<open>fmt.Errorf\<close> with \<open>%w\<close> is \<open>OperationError\<close> with the text before the wrapped error; numbers printed
    into error texts are left out.
  \<^item> The mutexes make every operation of a store one step.

  The contract of a store is the locale \<open>view_store\<close>: a successful \<open>Persist\<close> changes the view exactly as
  its mutations say. \<open>atomic_view_store\<close> adds that a failed one changes nothing. The lemma for clients is
  that an indexer on any such store computes the fold of the projection's handlers over the events.
\<close>

subsection \<open>Keys, entities, mutations\<close>

datatype Key = Key (Parts: "string list")

definition NewKey :: "string list \<Rightarrow> Key outcome" where
  "NewKey parts =
     (if length parts > 2 then Panic ''views.NewKey: expected 1 or 2 key parts'' else Ok (Key parts))"

definition IsComposite :: "Key \<Rightarrow> bool" where
  "IsComposite k \<longleftrightarrow> length (Parts k) = 2"

definition IsSingle :: "Key \<Rightarrow> bool" where
  "IsSingle k \<longleftrightarrow> length (Parts k) = 1"

definition validateKey :: "Key \<Rightarrow> goerror option" where
  "validateKey key =
     (let n = length (Parts key)
      in if n = 0 \<or> n > 2 then Some (TextError ''views: key must have 1 or 2 parts'') else None)"

datatype bytes = Document json | NoDocument string

datatype 'v any_value = Bytes bytes | RawMessage bytes | Value 'v

record Entity =
  en_kind :: string
  en_key :: Key
  en_value :: json
  en_version :: int64

record 'v Upsert =
  up_kind :: string
  up_key :: Key
  up_value :: "'v any_value"

record Delete =
  de_kind :: string
  de_key :: Key

record 'v ReduceResult =
  rr_upserts :: "'v Upsert list"
  rr_deletes :: "Delete list"

record 'v Change =
  ch_upserts :: "'v Upsert list"
  ch_deletes :: "Delete list"
  ch_version :: int64

text \<open>
  \<open>json.Marshal\<close>: a \<open>[]byte\<close> becomes a string of its base 64 text, a raw message stays what it is if it
  is a document, any other value is encoded by its type.
\<close>

fun Marshal :: "(bytes \<Rightarrow> string) \<Rightarrow> ('v \<Rightarrow> json outcome) \<Rightarrow> 'v any_value \<Rightarrow> json outcome" where
  "Marshal base64 enc (Bytes b) = Ok (JStr (base64 b))"
| "Marshal base64 enc (RawMessage (Document d)) = Ok d"
| "Marshal base64 enc (RawMessage (NoDocument b)) = Err (TextError ''json: invalid raw message'')"
| "Marshal base64 enc (Value v) = enc v"

definition no_result :: "'v ReduceResult" where
  "no_result = \<lparr>rr_upserts = [], rr_deletes = []\<rparr>"

subsection \<open>The in-memory store\<close>

record MemoryViewStore =
  ms_entities :: "(string, Entity) mapping"
  ms_version :: int64

definition NewMemoryStore :: MemoryViewStore where
  "NewMemoryStore = \<lparr>ms_entities = Mapping.empty, ms_version = 0\<rparr>"

definition entityKey :: "string \<Rightarrow> Key \<Rightarrow> string" where
  "entityKey kind key =
     (case Parts key of
        [a] \<Rightarrow> kind @ '':'' @ a
      | [a, b] \<Rightarrow> kind @ '':'' @ a @ '':'' @ b
      | _ \<Rightarrow> kind)"

definition ms_Get :: "string \<Rightarrow> Key \<Rightarrow> MemoryViewStore \<Rightarrow> Entity option outcome" where
  "ms_Get kind key m =
     (case validateKey key of
        Some e \<Rightarrow> Err e
      | None \<Rightarrow> Ok (Mapping.lookup (ms_entities m) (entityKey kind key)))"

definition validateReduceResult :: "'v ReduceResult option \<Rightarrow> goerror option" where
  "validateReduceResult result =
     (case result of
        None \<Rightarrow> None
      | Some r \<Rightarrow>
          (case List.map_filter (\<lambda>u. validateKey (up_key u)) (rr_upserts r)
                @ List.map_filter (\<lambda>d. validateKey (de_key d)) (rr_deletes r) of
             [] \<Rightarrow> None
           | e # _ \<Rightarrow> Some e))"

definition persist_upsert ::
  "('v any_value \<Rightarrow> json outcome) \<Rightarrow> int64 \<Rightarrow> 'v Upsert \<Rightarrow> MemoryViewStore \<times> 'v Change
     \<Rightarrow> (MemoryViewStore \<times> 'v Change) \<times> unit outcome" where
  "persist_upsert marshal eventID u mc =
     (case mc of (m, c) \<Rightarrow>
        (case marshal (up_value u) of
           Err e \<Rightarrow> ((m, c), Err (OperationError ''marshal upsert value'' e))
         | Panic p \<Rightarrow> ((m, c), Panic p)
         | Ok data \<Rightarrow>
             ((m\<lparr>ms_entities := Mapping.update (entityKey (up_kind u) (up_key u))
                   \<lparr>en_kind = up_kind u, en_key = up_key u, en_value = data, en_version = eventID\<rparr> (ms_entities m)\<rparr>,
               c\<lparr>ch_upserts := ch_upserts c @ [u]\<rparr>), Ok ())))"

definition persist_delete :: "Delete \<Rightarrow> MemoryViewStore \<times> 'v Change \<Rightarrow> MemoryViewStore \<times> 'v Change" where
  "persist_delete d mc =
     (case mc of (m, c) \<Rightarrow>
        (m\<lparr>ms_entities := Mapping.delete (entityKey (de_kind d) (de_key d)) (ms_entities m)\<rparr>,
         c\<lparr>ch_deletes := ch_deletes c @ [d]\<rparr>))"

definition ms_Persist ::
  "('v any_value \<Rightarrow> json outcome) \<Rightarrow> 'v ReduceResult option \<Rightarrow> int64 \<Rightarrow> MemoryViewStore
     \<Rightarrow> MemoryViewStore \<times> 'v Change outcome" where
  "ms_Persist marshal result eventID m =
     (case validateReduceResult result of
        Some e \<Rightarrow> (m, Err e)
      | None \<Rightarrow>
          (let r = (case result of None \<Rightarrow> no_result | Some r \<Rightarrow> r)
           in case for_each (persist_upsert marshal eventID) (rr_upserts r)
                     (m, \<lparr>ch_upserts = [], ch_deletes = [], ch_version = eventID\<rparr>) of
                ((m1, c1), Err e) \<Rightarrow> (m1, Err e)
              | ((m1, c1), Panic p) \<Rightarrow> (m1, Panic p)
              | ((m1, c1), Ok _) \<Rightarrow>
                  (case fold persist_delete (rr_deletes r) (m1, c1) of
                     (m2, c2) \<Rightarrow> (m2\<lparr>ms_version := eventID\<rparr>, Ok c2))))"

subsection \<open>Projections and the indexer\<close>

text \<open>
  A handler reads the current state through \<open>Get\<close> of its context, which is its first argument, and
  returns the mutations, nil for none. \<open>rawHandler\<close> is the typed handler of \<open>OnKind\<close> behind \<open>json.Unmarshal\<close>,
  which is \<open>decode\<close>.
\<close>

type_synonym view_get = "string \<Rightarrow> Key \<Rightarrow> Entity option outcome"

type_synonym 'v rawHandler = "view_get \<Rightarrow> Envelope \<Rightarrow> raw_message \<Rightarrow> 'v ReduceResult option outcome"

record 'v Projection =
  pj_domain :: string
  pj_stream :: string
  pj_projectionName :: string
  pj_consumerName :: string
  pj_handlers :: "(string, 'v rawHandler) mapping"

datatype 'v ProjectionOption =
    ProjectionName string
  | ConsumerName string
  | OnKindOption string "'v rawHandler"

definition typed_handler ::
  "(raw_message \<Rightarrow> 't outcome) \<Rightarrow> string \<Rightarrow> (view_get \<Rightarrow> Envelope \<Rightarrow> 't \<Rightarrow> 'v ReduceResult option outcome) \<Rightarrow> 'v rawHandler" where
  "typed_handler decode kind h get e rawJSON =
     (case decode rawJSON of
        Err err \<Rightarrow> Err (OperationError (''unmarshal event '' @ kind) err)
      | Panic p \<Rightarrow> Panic p
      | Ok evt \<Rightarrow> h get e evt)"

fun applyProjection :: "'v ProjectionOption \<Rightarrow> 'v Projection \<Rightarrow> 'v Projection" where
  "applyProjection (ProjectionName name) p = p\<lparr>pj_projectionName := name\<rparr>"
| "applyProjection (ConsumerName name) p = p\<lparr>pj_consumerName := name\<rparr>"
| "applyProjection (OnKindOption kind h) p = p\<lparr>pj_handlers := Mapping.update kind h (pj_handlers p)\<rparr>"

definition NewProjection :: "string \<Rightarrow> string \<Rightarrow> 'v ProjectionOption list \<Rightarrow> 'v Projection" where
  "NewProjection domain stream opts =
     fold applyProjection opts
       \<lparr>pj_domain = domain, pj_stream = stream, pj_projectionName = domain, pj_consumerName = domain,
        pj_handlers = Mapping.empty\<rparr>"

record ProjectionIdentity =
  pi_domain :: string
  pi_stream :: string
  pi_projection :: string
  pi_consumer :: string

definition NewProjectionIdentity :: "string \<Rightarrow> string \<Rightarrow> string \<Rightarrow> string \<Rightarrow> ProjectionIdentity" where
  "NewProjectionIdentity domain stream projection consumerName =
     \<lparr>pi_domain = domain, pi_stream = stream, pi_projection = projection,
      pi_consumer = (if consumerName = '''' then projection else consumerName)\<rparr>"

text \<open>
  The notifier of a projection (\<open>notifier.go\<close>): the highest version broadcast so far, with the changes that
  were broadcast, in order. \<open>callbacks\<close> gives the joined error of the registered callbacks for a change;
  the emitter calls every one and turns a panic of a callback into an error.
\<close>

record 'v Notifier =
  nt_lastVersion :: int64
  nt_sent :: "'v Change list"

definition NewNotifier :: "'v Notifier" where
  "NewNotifier = \<lparr>nt_lastVersion = - 1, nt_sent = []\<rparr>"

definition raise_version :: "int64 \<Rightarrow> int64 \<Rightarrow> int64" where
  "raise_version version lastVersion = (if version > lastVersion then version else lastVersion)"

definition Emit :: "('v Change \<Rightarrow> goerror option) \<Rightarrow> 'v Change \<Rightarrow> 'v Notifier \<Rightarrow> 'v Notifier \<times> goerror option" where
  "Emit callbacks c n =
     (n\<lparr>nt_lastVersion := raise_version (ch_version c) (nt_lastVersion n), nt_sent := nt_sent n @ [c]\<rparr>, callbacks c)"

text \<open>
  The handler that the indexer registers for a kind, over a store given by its \<open>Get\<close> and \<open>Persist\<close>. The
  state is the store and the notifier; \<open>None\<close> is the nil notifier.
\<close>

definition makeDispatchHandler ::
  "(string \<Rightarrow> Key \<Rightarrow> 's \<Rightarrow> Entity option outcome) \<Rightarrow> ('v ReduceResult option \<Rightarrow> int64 \<Rightarrow> 's \<Rightarrow> 's \<times> 'v Change outcome)
   \<Rightarrow> ('v Change \<Rightarrow> goerror option) \<Rightarrow> string \<Rightarrow> 'v rawHandler \<Rightarrow> ('s \<times> 'v Notifier option) handler" where
  "makeDispatchHandler get persist callbacks kind raw e rawJSON sn =
     (case sn of (s, n) \<Rightarrow>
        (case raw (\<lambda>kind key. get kind key s) e rawJSON of
           Err err \<Rightarrow> ((s, n), Err (OperationError (''handler for '' @ kind) err))
         | Panic p \<Rightarrow> ((s, n), Panic p)
         | Ok result \<Rightarrow>
             (case persist result (env_id e) s of
                (s1, Err err) \<Rightarrow> ((s1, n), Err (OperationError (''persist mutations for '' @ kind) err))
              | (s1, Panic p) \<Rightarrow> ((s1, n), Panic p)
              | (s1, Ok change) \<Rightarrow>
                  (case n of
                     None \<Rightarrow> ((s1, None), Ok ())
                   | Some nt \<Rightarrow>
                       (case Emit callbacks change nt of
                          (nt1, Some err) \<Rightarrow> ((s1, Some nt1), Err (OperationError (''notify observers for '' @ kind) err))
                        | (nt1, None) \<Rightarrow> ((s1, Some nt1), Ok ()))))))"

text \<open>\<open>Query\<close>, for the order \<open>ks\<close> in which \<open>range\<close> visits the map of the handlers.\<close>

definition add_kind_handler :: "string \<Rightarrow> 's handler \<Rightarrow> 's Query \<Rightarrow> 's Query" where
  "add_kind_handler kind h q =
     (let q' = OnKind kind q in q'\<lparr>q2_kinds := butlast (q2_kinds q') @ [Each h (last (q2_kinds q'))]\<rparr>)"

definition Indexer_Query ::
  "(string \<Rightarrow> Key \<Rightarrow> 's \<Rightarrow> Entity option outcome) \<Rightarrow> ('v ReduceResult option \<Rightarrow> int64 \<Rightarrow> 's \<Rightarrow> 's \<times> 'v Change outcome)
   \<Rightarrow> ('v Change \<Rightarrow> goerror option) \<Rightarrow> 'v Projection \<Rightarrow> string list \<Rightarrow> ('s \<times> 'v Notifier option) Query" where
  "Indexer_Query get persist callbacks proj ks =
     fold (\<lambda>kind q. case Mapping.lookup (pj_handlers proj) kind of
              None \<Rightarrow> q
            | Some raw \<Rightarrow> add_kind_handler kind (makeDispatchHandler get persist callbacks kind raw) q) ks NewQuery"

subsection \<open>What a view is\<close>

text \<open>
  A view gives the document and the version of a kind and key. The mutations of one event change it as
  follows: a deleted key is absent, whatever was upserted with it; otherwise the last upsert of a key
  decides, and the other keys stay.
\<close>

type_synonym view = "string \<Rightarrow> Key \<Rightarrow> (json \<times> int64) option"

abbreviation no_view :: view where
  "no_view \<equiv> \<lambda>kind key. None"

definition mutated :: "('v any_value \<Rightarrow> json outcome) \<Rightarrow> int64 \<Rightarrow> 'v ReduceResult option \<Rightarrow> view \<Rightarrow> view" where
  "mutated encode version result old kind key =
     (case result of
        None \<Rightarrow> old kind key
      | Some r \<Rightarrow>
          (if list_ex (\<lambda>d. de_kind d = kind \<and> de_key d = key) (rr_deletes r) then None
           else case List.find (\<lambda>u. up_kind u = kind \<and> up_key u = key) (rev (rr_upserts r)) of
                  None \<Rightarrow> old kind key
                | Some u \<Rightarrow> (case encode (up_value u) of Ok d \<Rightarrow> Some (d, version) | _ \<Rightarrow> old kind key)))"

definition as_entity :: "string \<Rightarrow> Key \<Rightarrow> (json \<times> int64) option \<Rightarrow> Entity option" where
  "as_entity kind key = map_option (\<lambda>(d, v). \<lparr>en_kind = kind, en_key = key, en_value = d, en_version = v\<rparr>)"

text \<open>A store shows a view: on the keys it can tell apart (\<open>named\<close>) it answers what the view says.\<close>

definition shows_view ::
  "(string \<Rightarrow> Key \<Rightarrow> 's \<Rightarrow> Entity option outcome) \<Rightarrow> (string \<Rightarrow> Key \<Rightarrow> bool) \<Rightarrow> 's \<Rightarrow> view \<Rightarrow> bool" where
  "shows_view get named s V \<longleftrightarrow> (\<forall>kind key. named kind key \<longrightarrow> get kind key s = Ok (as_entity kind key (V kind key)))"

definition named_result :: "(string \<Rightarrow> Key \<Rightarrow> bool) \<Rightarrow> 'v ReduceResult option \<Rightarrow> bool" where
  "named_result named result \<longleftrightarrow>
     (case result of
        None \<Rightarrow> True
      | Some r \<Rightarrow> list_all (\<lambda>u. named (up_kind u) (up_key u)) (rr_upserts r)
                \<and> list_all (\<lambda>d. named (de_kind d) (de_key d)) (rr_deletes r))"

text \<open>A handler that reads and writes only such keys.\<close>

definition proper_handler :: "(string \<Rightarrow> Key \<Rightarrow> bool) \<Rightarrow> 'v rawHandler \<Rightarrow> bool" where
  "proper_handler named raw \<longleftrightarrow>
     (\<forall>g g' e body. (\<forall>kind key. named kind key \<longrightarrow> g kind key = g' kind key) \<longrightarrow> raw g e body = raw g' e body)
     \<and> (\<forall>g e body result. raw g e body = Ok result \<longrightarrow> named_result named result)"

definition proper_projection :: "(string \<Rightarrow> Key \<Rightarrow> bool) \<Rightarrow> 'v Projection \<Rightarrow> bool" where
  "proper_projection named proj \<longleftrightarrow>
     (\<forall>kind raw. Mapping.lookup (pj_handlers proj) kind = Some raw \<longrightarrow> proper_handler named raw)"

text \<open>One event through the indexer, in the environment \<open>env\<close> of the store, and through the handlers alone.\<close>

definition dispatch ::
  "(string \<Rightarrow> Key \<Rightarrow> 's \<Rightarrow> Entity option outcome) \<Rightarrow> ('e \<Rightarrow> 'v ReduceResult option \<Rightarrow> int64 \<Rightarrow> 's \<Rightarrow> 's \<times> 'v Change outcome)
   \<Rightarrow> ('v Change \<Rightarrow> goerror option) \<Rightarrow> 'v Projection \<Rightarrow> 'e \<times> Envelope \<times> raw_message
   \<Rightarrow> 's \<times> 'v Notifier option \<Rightarrow> ('s \<times> 'v Notifier option) \<times> unit outcome" where
  "dispatch get persist callbacks proj ev sn =
     (case ev of (env, e, body) \<Rightarrow>
        (case Mapping.lookup (pj_handlers proj) (env_kind e) of
           None \<Rightarrow> (sn, Ok ())
         | Some raw \<Rightarrow> makeDispatchHandler get (persist env) callbacks (env_kind e) raw e body sn))"

definition reduced :: "'v Projection \<Rightarrow> 'e \<times> Envelope \<times> raw_message \<Rightarrow> view \<Rightarrow> 'v ReduceResult option outcome" where
  "reduced proj ev V =
     (case ev of (env, e, body) \<Rightarrow>
        (case Mapping.lookup (pj_handlers proj) (env_kind e) of
           None \<Rightarrow> Ok None
         | Some raw \<Rightarrow> raw (\<lambda>kind key. Ok (as_entity kind key (V kind key))) e body))"

definition reduce_event ::
  "('v any_value \<Rightarrow> json outcome) \<Rightarrow> 'v Projection \<Rightarrow> 'e \<times> Envelope \<times> raw_message \<Rightarrow> view \<Rightarrow> view" where
  "reduce_event encode proj ev V =
     (case reduced proj ev V of Ok result \<Rightarrow> mutated encode (env_id (fst (snd ev))) result V | _ \<Rightarrow> V)"

definition handled :: "'v Projection \<Rightarrow> 'e \<times> Envelope \<times> raw_message \<Rightarrow> bool" where
  "handled proj ev \<longleftrightarrow> Mapping.lookup (pj_handlers proj) (env_kind (fst (snd ev))) \<noteq> None"

definition sent_versions :: "'v Notifier option \<Rightarrow> int64 list" where
  "sent_versions n = (case n of None \<Rightarrow> [] | Some nt \<Rightarrow> map ch_version (nt_sent nt))"

lemma mutated_None [simp]: "mutated encode v None V = V"
  by (rule ext)+ (simp add: mutated_def)

text \<open>An event is persisted and broadcast, or it fails before that.\<close>

lemma dispatch_cases:
  assumes "dispatch get persist callbacks proj (env, e, body) (s, Some n) = (sn', r)"
    and "Mapping.lookup (pj_handlers proj) (env_kind e) = Some raw"
  obtains (persisted) result s' c where "raw (\<lambda>kind key. get kind key s) e body = Ok result"
      "persist env result (env_id e) s = (s', Ok c)" "sn' = (s', Some (fst (Emit callbacks c n)))"
  | (failed) s' where "\<not> is_ok r" "sn' = (s', Some n)"
      "s' = s \<or> (\<exists>result x. persist env result (env_id e) s = (s', x) \<and> \<not> is_ok x)"
proof (cases "raw (\<lambda>kind key. get kind key s) e body")
  case (Ok result)
  obtain s1 r1 where p: "persist env result (env_id e) s = (s1, r1)" by fastforce
  show ?thesis
  proof (cases r1)
    case c: (Ok c)
    with assms Ok p have "sn' = (s1, Some (fst (Emit callbacks c n)))"
      by (auto simp: dispatch_def makeDispatchHandler_def split: prod.splits option.splits)
    with persisted Ok p c show ?thesis by blast
  next
    case (Err x)
    with assms Ok p have "\<not> is_ok r" "sn' = (s1, Some n)" by (auto simp: dispatch_def makeDispatchHandler_def)
    with failed p Err show ?thesis by (metis is_ok_simps(2))
  next
    case (Panic x)
    with assms Ok p have "\<not> is_ok r" "sn' = (s1, Some n)" by (auto simp: dispatch_def makeDispatchHandler_def)
    with failed p Panic show ?thesis by (metis is_ok_simps(3))
  qed
qed (use assms in \<open>auto simp: dispatch_def makeDispatchHandler_def intro!: failed\<close>)

subsection \<open>The contract of a store\<close>

locale view_store =
  fixes get :: "string \<Rightarrow> Key \<Rightarrow> 's \<Rightarrow> Entity option outcome"
    and persist :: "'e \<Rightarrow> 'v ReduceResult option \<Rightarrow> int64 \<Rightarrow> 's \<Rightarrow> 's \<times> 'v Change outcome"
    and encode :: "'v any_value \<Rightarrow> json outcome"
    and inv :: "'s \<Rightarrow> bool"
    and named :: "string \<Rightarrow> Key \<Rightarrow> bool"
  assumes has_view: "inv s \<Longrightarrow> \<exists>V. shows_view get named s V"
    and persist_ok:
      "inv s \<Longrightarrow> shows_view get named s V \<Longrightarrow> named_result named result \<Longrightarrow> persist env result v s = (s', Ok c) \<Longrightarrow>
         shows_view get named s' (mutated encode v result V) \<and> ch_version c = v"
    and persist_inv: "inv s \<Longrightarrow> named_result named result \<Longrightarrow> inv (fst (persist env result v s))"
begin

text \<open>Read your writes: after a successful \<open>Persist\<close> the store answers with the new entity.\<close>

lemma persist_get:
  assumes "inv s" "named_result named result" "persist env result v s = (s', Ok c)" "named kind key"
    and "result = Some r" "List.find (\<lambda>u. up_kind u = kind \<and> up_key u = key) (rev (rr_upserts r)) = Some u"
    and "\<not> list_ex (\<lambda>d. de_kind d = kind \<and> de_key d = key) (rr_deletes r)" "encode (up_value u) = Ok d"
  shows "get kind key s' = Ok (Some \<lparr>en_kind = kind, en_key = key, en_value = d, en_version = v\<rparr>)"
proof -
  from has_view[OF assms(1)] obtain V where "shows_view get named s V" ..
  from persist_ok[OF assms(1) this assms(2,3)] assms(4-) show ?thesis
    by (simp add: shows_view_def mutated_def as_entity_def)
qed

end

locale atomic_view_store = view_store get persist encode inv named
  for get :: "string \<Rightarrow> Key \<Rightarrow> 's \<Rightarrow> Entity option outcome"
    and persist :: "'e \<Rightarrow> 'v ReduceResult option \<Rightarrow> int64 \<Rightarrow> 's \<Rightarrow> 's \<times> 'v Change outcome"
    and encode :: "'v any_value \<Rightarrow> json outcome"
    and inv :: "'s \<Rightarrow> bool"
    and named :: "string \<Rightarrow> Key \<Rightarrow> bool" +
  assumes persist_failed:
      "inv s \<Longrightarrow> named_result named result \<Longrightarrow> persist env result v s = (s', r) \<Longrightarrow> \<not> is_ok r \<Longrightarrow>
         shows_view get named s V \<Longrightarrow> shows_view get named s' V"
begin

lemma dispatch_step:
  assumes inv: "inv s" and V: "shows_view get named s V" and proj: "proper_projection named proj"
    and run: "dispatch get persist callbacks proj ev (s, Some n) = (sn', r)"
  shows "\<exists>s' n'. sn' = (s', Some n') \<and> inv s' \<and>
    (shows_view get named s' (reduce_event encode proj ev V)
       \<and> sent_versions (Some n') = sent_versions (Some n) @ (if handled proj ev then [env_id (fst (snd ev))] else [])
     \<or> \<not> is_ok r \<and> shows_view get named s' V \<and> n' = n)"
proof (cases "handled proj ev")
  case False
  with run inv V show ?thesis
    by (auto simp: dispatch_def handled_def reduce_event_def reduced_def split: prod.splits)
next
  case True
  obtain env e body where ev: "ev = (env, e, body)" by (cases ev)
  from True ev obtain raw where raw: "Mapping.lookup (pj_handlers proj) (env_kind e) = Some raw"
    by (auto simp: handled_def)
  with proj have proper: "proper_handler named raw" by (auto simp: proper_projection_def)
  let ?g = "\<lambda>kind key. get kind key s"
  from V have "\<forall>kind key. named kind key \<longrightarrow> ?g kind key = Ok (as_entity kind key (V kind key))"
    by (simp add: shows_view_def)
  with proper have same: "raw ?g e body = reduced proj ev V"
    by (auto simp: proper_handler_def reduced_def ev raw)
  show ?thesis
  proof (cases "raw ?g e body")
    case (Ok result)
    with proper have named: "named_result named result" by (auto simp: proper_handler_def)
    obtain s1 r1 where p: "persist env result (env_id e) s = (s1, r1)" by fastforce
    from persist_inv[OF inv named, of env "env_id e"] p have inv1: "inv s1" by simp
    show ?thesis
    proof (cases r1)
      case c: (Ok c)
      from persist_ok[OF inv V named] p c
      have v: "shows_view get named s1 (mutated encode (env_id e) result V)" "ch_version c = env_id e" by auto
      have "reduce_event encode proj ev V = mutated encode (env_id e) result V"
        using same Ok by (simp add: reduce_event_def flip: same) (simp add: ev)
      with run Ok p c v inv1 True show ?thesis
        by (auto simp: dispatch_def ev raw makeDispatchHandler_def Emit_def sent_versions_def handled_def
            split: option.splits)
    next
      case (Err x)
      with persist_failed[OF inv named p _ V] run Ok p inv1 show ?thesis
        by (auto simp: dispatch_def ev raw makeDispatchHandler_def)
    next
      case (Panic x)
      with persist_failed[OF inv named p _ V] run Ok p inv1 show ?thesis
        by (auto simp: dispatch_def ev raw makeDispatchHandler_def)
    qed
  qed (use run inv V in \<open>auto simp: dispatch_def ev raw makeDispatchHandler_def\<close>)
qed

text \<open>
  The indexer computes the fold of the handlers: what the store shows after a run is the fold over a
  prefix of the events, each of which was broadcast once; over all of them if no event failed.
\<close>

lemma dispatch_run:
  assumes "proper_projection named proj"
  shows "inv s \<Longrightarrow> shows_view get named s V \<Longrightarrow>
    for_each (dispatch get persist callbacks proj) es (s, Some n) = (sn', r) \<Longrightarrow>
    \<exists>k s' n'. sn' = (s', Some n') \<and> inv s' \<and> k \<le> length es \<and> (is_ok r \<longrightarrow> k = length es) \<and>
      shows_view get named s' (fold (reduce_event encode proj) (take k es) V) \<and>
      sent_versions (Some n') = sent_versions (Some n) @ map (\<lambda>ev. env_id (fst (snd ev))) (filter (handled proj) (take k es))"
proof (induction es arbitrary: s n V)
  case Nil
  then show ?case by auto
next
  case (Cons ev es)
  obtain sn1 r1 where d: "dispatch get persist callbacks proj ev (s, Some n) = (sn1, r1)" by fastforce
  from dispatch_step[OF Cons.prems(1,2) assms d] obtain s1 n1 where s1: "sn1 = (s1, Some n1)" "inv s1"
    and cases: "shows_view get named s1 (reduce_event encode proj ev V)
       \<and> sent_versions (Some n1) = sent_versions (Some n) @ (if handled proj ev then [env_id (fst (snd ev))] else [])
     \<or> \<not> is_ok r1 \<and> shows_view get named s1 V \<and> n1 = n" by blast
  show ?case
  proof (cases "is_ok r1")
    case False
    with d s1 Cons.prems(3) have fin: "sn' = (s1, Some n1)" "\<not> is_ok r" by (auto simp: is_ok_def split: outcome.splits)
    from cases show ?thesis
    proof
      assume "shows_view get named s1 (reduce_event encode proj ev V)
       \<and> sent_versions (Some n1) = sent_versions (Some n) @ (if handled proj ev then [env_id (fst (snd ev))] else [])"
      with fin s1 show ?thesis by (intro exI[of _ 1]) simp
    next
      assume "\<not> is_ok r1 \<and> shows_view get named s1 V \<and> n1 = n"
      with fin s1 show ?thesis by (intro exI[of _ 0]) simp
    qed
  next
    case True
    with cases have st: "shows_view get named s1 (reduce_event encode proj ev V)"
      "sent_versions (Some n1) = sent_versions (Some n) @ (if handled proj ev then [env_id (fst (snd ev))] else [])" by auto
    from True d s1 Cons.prems(3) have "for_each (dispatch get persist callbacks proj) es (s1, Some n1) = (sn', r)"
      by (cases r1) auto
    from Cons.IH[OF s1(2) st(1) this] obtain k s' n' where
      "sn' = (s', Some n') \<and> inv s' \<and> k \<le> length es \<and> (is_ok r \<longrightarrow> k = length es) \<and>
       shows_view get named s' (fold (reduce_event encode proj) (take k es) (reduce_event encode proj ev V)) \<and>
       sent_versions (Some n') = sent_versions (Some n1) @ map (\<lambda>ev. env_id (fst (snd ev))) (filter (handled proj) (take k es))"
      by blast
    then show ?thesis by (intro exI[of _ "Suc k"] exI[of _ s'] exI[of _ n']) (auto simp: st(2))
  qed
qed

end

subsection \<open>The in-memory store keeps the contract\<close>

text \<open>
  \<open>entityKey\<close> joins its parts with colons. Two entities get different map keys when neither their
  kinds nor the parts of their keys contain one.
\<close>

definition no_colon :: "string \<Rightarrow> bool" where
  "no_colon s \<longleftrightarrow> CHR '':'' \<notin> set s"

definition plain_name :: "string \<Rightarrow> Key \<Rightarrow> bool" where
  "plain_name kind key \<longleftrightarrow> validateKey key = None \<and> no_colon kind \<and> list_all no_colon (Parts key)"

text \<open>Every entity is stored under its own key, which has one or two parts.\<close>

definition ms_wf :: "MemoryViewStore \<Rightarrow> bool" where
  "ms_wf m \<longleftrightarrow> (\<forall>k e. Mapping.lookup (ms_entities m) k = Some e \<longrightarrow>
     k = entityKey (en_kind e) (en_key e) \<and> validateKey (en_key e) = None)"

definition ms_plain :: "MemoryViewStore \<Rightarrow> bool" where
  "ms_plain m \<longleftrightarrow> ms_wf m \<and>
     (\<forall>k e. Mapping.lookup (ms_entities m) k = Some e \<longrightarrow> plain_name (en_kind e) (en_key e))"

lemma split_at_first:
  "x \<notin> set xs \<Longrightarrow> x \<notin> set ys \<Longrightarrow> xs @ x # xs' = ys @ x # ys' \<longleftrightarrow> xs = ys \<and> xs' = ys'"
proof (induction xs arbitrary: ys)
  case Nil
  then show ?case by (cases ys) auto
next
  case (Cons a xs)
  then show ?case by (cases ys) auto
qed

lemma append_colon_absent: "x \<notin> set xs \<Longrightarrow> xs \<noteq> ys @ x # zs"
  by auto

lemma validateKey_cases:
  assumes "validateKey key = None"
  obtains (single) a where "key = Key [a]" | (composite) a b where "key = Key [a, b]"
proof (cases "Parts key" rule: remdups_adj.cases)
  case 1
  with assms show ?thesis by (simp add: validateKey_def)
next
  case (2 a)
  with single show ?thesis by (metis Key.collapse)
next
  case (3 a b xs)
  with assms have "xs = []" by (simp add: validateKey_def Let_def split: if_splits)
  with 3 composite show ?thesis by (metis Key.collapse)
qed

lemma entityKey_inj:
  assumes "plain_name kind key" "plain_name kind' key'" "entityKey kind key = entityKey kind' key'"
  shows "kind = kind' \<and> key = key'"
proof -
  have v: "validateKey key = None" "validateKey key' = None" using assms by (simp_all add: plain_name_def)
  show ?thesis using v(1)
  proof (cases rule: validateKey_cases)
    case 1: (single a)
    show ?thesis using v(2)
    proof (cases rule: validateKey_cases)
      case (single a')
      with 1 assms show ?thesis by (simp add: plain_name_def no_colon_def entityKey_def split_at_first)
    next
      case (composite a' b')
      with 1 assms show ?thesis by (auto simp: plain_name_def no_colon_def entityKey_def split_at_first)
    qed
  next
    case 2: (composite a b)
    show ?thesis using v(2)
    proof (cases rule: validateKey_cases)
      case (single a')
      with 2 assms show ?thesis by (auto simp: plain_name_def no_colon_def entityKey_def split_at_first)
    next
      case (composite a' b')
      with 2 assms show ?thesis by (auto simp: plain_name_def no_colon_def entityKey_def split_at_first)
    qed
  qed
qed

definition stored :: "('v any_value \<Rightarrow> json outcome) \<Rightarrow> int64 \<Rightarrow> 'v Upsert \<Rightarrow> Entity" where
  "stored marshal v u =
     \<lparr>en_kind = up_kind u, en_key = up_key u, en_value = (case marshal (up_value u) of Ok d \<Rightarrow> d), en_version = v\<rparr>"

text \<open>What the loop over the upserts does, whether it finishes or stops at a value that is not encodable.\<close>

lemma persist_upserts:
  "for_each (persist_upsert marshal v) us (m, c) = ((m', c'), r) \<Longrightarrow>
   \<exists>k \<le> length us. m' = m\<lparr>ms_entities := fold (\<lambda>u. Mapping.update (entityKey (up_kind u) (up_key u)) (stored marshal v u))
                        (take k us) (ms_entities m)\<rparr>
     \<and> list_all (\<lambda>u. is_ok (marshal (up_value u))) (take k us) \<and> c' = c\<lparr>ch_upserts := ch_upserts c @ take k us\<rparr>
     \<and> (if is_ok r then k = length us else k < length us \<and> \<not> is_ok (marshal (up_value (us ! k))))"
proof (induction us arbitrary: m c)
  case Nil
  then show ?case by auto
next
  case (Cons u us)
  show ?case
  proof (cases "marshal (up_value u)")
    case (Ok d)
    let ?m = "m\<lparr>ms_entities := Mapping.update (entityKey (up_kind u) (up_key u)) (stored marshal v u) (ms_entities m)\<rparr>"
    let ?c = "c\<lparr>ch_upserts := ch_upserts c @ [u]\<rparr>"
    from Ok have "persist_upsert marshal v u (m, c) = ((?m, ?c), Ok ())" by (simp add: persist_upsert_def stored_def)
    with Cons.prems have "for_each (persist_upsert marshal v) us (?m, ?c) = ((m', c'), r)" by simp
    from Cons.IH[OF this] obtain k where "k \<le> length us"
      "m' = ?m\<lparr>ms_entities := fold (\<lambda>u. Mapping.update (entityKey (up_kind u) (up_key u)) (stored marshal v u))
              (take k us) (ms_entities ?m)\<rparr>"
      "list_all (\<lambda>u. is_ok (marshal (up_value u))) (take k us)" "c' = ?c\<lparr>ch_upserts := ch_upserts ?c @ take k us\<rparr>"
      "if is_ok r then k = length us else k < length us \<and> \<not> is_ok (marshal (up_value (us ! k)))" by blast
    with Ok show ?thesis by (intro exI[of _ "Suc k"]) auto
  qed (use Cons.prems in \<open>auto simp: persist_upsert_def intro!: exI[of _ 0]\<close>)
qed

lemma lookup_fold_update:
  "Mapping.lookup (fold (\<lambda>u. Mapping.update (f u) (g u)) us m) k =
     (case List.find (\<lambda>u. f u = k) (rev us) of None \<Rightarrow> Mapping.lookup m k | Some u \<Rightarrow> Some (g u))"
  by (induction us arbitrary: m) (auto simp: find_append split: option.splits)

lemma persist_deletes:
  "fold persist_delete ds (m, c) =
     (m\<lparr>ms_entities := fold (\<lambda>d. Mapping.delete (entityKey (de_kind d) (de_key d))) ds (ms_entities m)\<rparr>,
      c\<lparr>ch_deletes := ch_deletes c @ ds\<rparr>)"
  by (induction ds arbitrary: m c) (simp_all add: persist_delete_def)

lemma lookup_fold_delete:
  "Mapping.lookup (fold (\<lambda>d. Mapping.delete (f d)) ds m) k =
     (if list_ex (\<lambda>d. f d = k) ds then None else Mapping.lookup m k)"
  by (induction ds arbitrary: m) auto

definition change_of :: "'v ReduceResult \<Rightarrow> int64 \<Rightarrow> 'v Change" where
  "change_of r v = \<lparr>ch_upserts = rr_upserts r, ch_deletes = rr_deletes r, ch_version = v\<rparr>"

definition result_of :: "'v ReduceResult option \<Rightarrow> 'v ReduceResult" where
  "result_of result = (case result of None \<Rightarrow> no_result | Some r \<Rightarrow> r)"

text \<open>The entities after the first \<open>k\<close> upserts, and after a whole result.\<close>

definition entities_after ::
  "('v any_value \<Rightarrow> json outcome) \<Rightarrow> int64 \<Rightarrow> 'v Upsert list \<Rightarrow> Delete list \<Rightarrow> (string, Entity) mapping \<Rightarrow> (string, Entity) mapping" where
  "entities_after marshal v us ds m =
     fold (\<lambda>d. Mapping.delete (entityKey (de_kind d) (de_key d))) ds
       (fold (\<lambda>u. Mapping.update (entityKey (up_kind u) (up_key u)) (stored marshal v u)) us m)"

lemma lookup_entities_after:
  "Mapping.lookup (entities_after marshal v us ds m) k =
     (if list_ex (\<lambda>d. entityKey (de_kind d) (de_key d) = k) ds then None
      else case List.find (\<lambda>u. entityKey (up_kind u) (up_key u) = k) (rev us) of
             None \<Rightarrow> Mapping.lookup m k | Some u \<Rightarrow> Some (stored marshal v u))"
  by (simp add: entities_after_def lookup_fold_delete lookup_fold_update)

lemma ms_Persist_cases:
  assumes "ms_Persist marshal result v m = (m', r)"
  obtains (invalid) e where "validateReduceResult result = Some e" "m' = m" "r = Err e"
  | (failed) k where "validateReduceResult result = None" "k < length (rr_upserts (result_of result))"
      "\<not> is_ok (marshal (up_value (rr_upserts (result_of result) ! k)))" "\<not> is_ok r"
      "m' = m\<lparr>ms_entities := entities_after marshal v (take k (rr_upserts (result_of result))) [] (ms_entities m)\<rparr>"
  | (finished) "validateReduceResult result = None" "r = Ok (change_of (result_of result) v)"
      "list_all (\<lambda>u. is_ok (marshal (up_value u))) (rr_upserts (result_of result))"
      "m' = m\<lparr>ms_entities := entities_after marshal v (rr_upserts (result_of result)) (rr_deletes (result_of result)) (ms_entities m),
              ms_version := v\<rparr>"
proof (cases "validateReduceResult result")
  case (Some e)
  with assms invalid show ?thesis by (simp add: ms_Persist_def)
next
  case None
  obtain m1 c1 r1 where u: "for_each (persist_upsert marshal v) (rr_upserts (result_of result))
      (m, \<lparr>ch_upserts = [], ch_deletes = [], ch_version = v\<rparr>) = ((m1, c1), r1)" by (metis surj_pair)
  from persist_upserts[OF u] obtain k where k: "k \<le> length (rr_upserts (result_of result))"
    "m1 = m\<lparr>ms_entities := entities_after marshal v (take k (rr_upserts (result_of result))) [] (ms_entities m)\<rparr>"
    "list_all (\<lambda>u. is_ok (marshal (up_value u))) (take k (rr_upserts (result_of result)))"
    "c1 = \<lparr>ch_upserts = take k (rr_upserts (result_of result)), ch_deletes = [], ch_version = v\<rparr>"
    "if is_ok r1 then k = length (rr_upserts (result_of result))
     else k < length (rr_upserts (result_of result)) \<and> \<not> is_ok (marshal (up_value (rr_upserts (result_of result) ! k)))"
    by (auto simp: entities_after_def)
  show ?thesis
  proof (cases r1)
    case (Ok x)
    with assms None u k show ?thesis
      by (intro finished) (auto simp: ms_Persist_def result_of_def[symmetric] persist_deletes Let_def
          entities_after_def change_of_def)
  qed (use assms None u k in \<open>auto simp: ms_Persist_def result_of_def[symmetric] Let_def intro!: failed[of k]\<close>)
qed

lemma validateReduceResult_None:
  "validateReduceResult result = None \<longleftrightarrow>
     (\<forall>u \<in> set (rr_upserts (result_of result)). validateKey (up_key u) = None)
     \<and> (\<forall>d \<in> set (rr_deletes (result_of result)). validateKey (de_key d) = None)"
proof -
  have *: "List.map_filter f xs = [] \<longleftrightarrow> (\<forall>x \<in> set xs. f x = None)" for f :: "'x \<Rightarrow> 'y option" and xs
    by (induction xs) (auto simp: List.map_filter_simps split: option.splits)
  have **: "(case xs of [] \<Rightarrow> None | e # _ \<Rightarrow> Some e) = None \<longleftrightarrow> xs = []" for xs :: "goerror list"
    by (cases xs) simp_all
  show ?thesis
    by (cases result) (simp_all add: validateReduceResult_def result_of_def no_result_def * **)
qed

lemma entities_after_wf:
  assumes "ms_wf m" "\<forall>u \<in> set us. validateKey (up_key u) = None"
  shows "ms_wf (m\<lparr>ms_entities := entities_after marshal v us ds (ms_entities m)\<rparr>)"
  using assms
  by (auto simp: ms_wf_def lookup_entities_after stored_def dest!: find_SomeD split: if_splits option.splits)

lemma ms_wf_version [simp]: "ms_wf (m\<lparr>ms_version := v\<rparr>) = ms_wf m"
  by (simp add: ms_wf_def)

lemma ms_Persist_wf:
  assumes "ms_wf m"
  shows "ms_wf (fst (ms_Persist marshal result v m))"
proof -
  obtain m' r where p: "ms_Persist marshal result v m = (m', r)" by fastforce
  from p show ?thesis
  proof (cases rule: ms_Persist_cases)
    case (failed k)
    then have "\<forall>u \<in> set (take k (rr_upserts (result_of result))). validateKey (up_key u) = None"
      by (auto simp: validateReduceResult_None dest: in_set_takeD)
    with entities_after_wf[OF assms] failed p show ?thesis by simp
  next
    case finished
    then have "\<forall>u \<in> set (rr_upserts (result_of result)). validateKey (up_key u) = None"
      by (simp add: validateReduceResult_None)
    with entities_after_wf[OF assms] finished p show ?thesis by simp
  qed (use assms p in simp)
qed

text \<open>The lookups of a plain store under plain mutations.\<close>

lemma find_entityKey:
  assumes "plain_name kind key" "\<forall>u \<in> set us. plain_name (up_kind u) (up_key u)"
  shows "List.find (\<lambda>u. entityKey (up_kind u) (up_key u) = entityKey kind key) us =
         List.find (\<lambda>u. up_kind u = kind \<and> up_key u = key) us"
proof (rule find_cong)
  show "(entityKey (up_kind u) (up_key u) = entityKey kind key) = (up_kind u = kind \<and> up_key u = key)"
    if "u \<in> set us" for u
    using that assms entityKey_inj[of "up_kind u" "up_key u" kind key] by auto
qed simp

lemma ex_entityKey:
  assumes "plain_name kind key" "\<forall>d \<in> set ds. plain_name (de_kind d) (de_key d)"
  shows "list_ex (\<lambda>d. entityKey (de_kind d) (de_key d) = entityKey kind key) ds =
         list_ex (\<lambda>d. de_kind d = kind \<and> de_key d = key) ds"
proof -
  have "(entityKey (de_kind d) (de_key d) = entityKey kind key) = (de_kind d = kind \<and> de_key d = key)"
    if "d \<in> set ds" for d
    using that assms entityKey_inj[of "de_kind d" "de_key d" kind key] by auto
  then show ?thesis by (auto simp: list_ex_iff)
qed

lemma named_result_of:
  "named_result named result \<longleftrightarrow>
     (\<forall>u \<in> set (rr_upserts (result_of result)). named (up_kind u) (up_key u))
     \<and> (\<forall>d \<in> set (rr_deletes (result_of result)). named (de_kind d) (de_key d))"
  by (cases result) (simp_all add: named_result_def result_of_def no_result_def list_all_iff)

lemma mutated_result_of:
  "mutated encode v result V kind key =
     (if list_ex (\<lambda>d. de_kind d = kind \<and> de_key d = key) (rr_deletes (result_of result)) then None
      else case List.find (\<lambda>u. up_kind u = kind \<and> up_key u = key) (rev (rr_upserts (result_of result))) of
             None \<Rightarrow> V kind key
           | Some u \<Rightarrow> (case encode (up_value u) of Ok d \<Rightarrow> Some (d, v) | _ \<Rightarrow> V kind key))"
  by (cases result) (simp_all add: mutated_def result_of_def no_result_def)

lemma ms_plain_get:
  assumes "ms_plain m" "plain_name kind key"
  shows "\<exists>x. ms_Get kind key m = Ok (as_entity kind key x)"
proof (cases "Mapping.lookup (ms_entities m) (entityKey kind key)")
  case None
  with assms show ?thesis by (auto simp: ms_Get_def plain_name_def as_entity_def intro!: exI[of _ None])
next
  case (Some e)
  with assms have "entityKey kind key = entityKey (en_kind e) (en_key e)" "plain_name (en_kind e) (en_key e)"
    by (auto simp: ms_plain_def ms_wf_def)
  with entityKey_inj[OF assms(2)] have "en_kind e = kind" "en_key e = key" by auto
  with Some assms(2) show ?thesis
    by (intro exI[of _ "Some (en_value e, en_version e)"]) (simp add: ms_Get_def plain_name_def as_entity_def)
qed

lemma ms_plain_Persist:
  assumes "ms_plain m" "named_result plain_name result"
  shows "ms_plain (fst (ms_Persist marshal result v m))"
proof -
  have *: "plain_name (en_kind e) (en_key e)"
    if "Mapping.lookup (entities_after marshal v us ds (ms_entities m)) k = Some e"
      "set us \<subseteq> set (rr_upserts (result_of result))" for us ds k e
    using that assms
    by (auto simp: lookup_entities_after ms_plain_def named_result_of stored_def dest!: find_SomeD
        split: if_splits option.splits)
  obtain m' r where p: "ms_Persist marshal result v m = (m', r)" by fastforce
  from p have "plain_name (en_kind e) (en_key e)" if "Mapping.lookup (ms_entities m') k = Some e" for k e
  proof (cases rule: ms_Persist_cases)
    case (failed i)
    with that *[of "take i (rr_upserts (result_of result))" "[]" k e] show ?thesis by (simp add: set_take_subset)
  next
    case finished
    with that * show ?thesis by simp
  qed (use assms(1) that in \<open>simp add: ms_plain_def\<close>)
  moreover have "ms_wf m'" using ms_Persist_wf[of m marshal result v] assms(1) p by (simp add: ms_plain_def)
  ultimately show ?thesis by (auto simp: ms_plain_def p)
qed

lemma ms_Persist_shows:
  assumes m: "ms_plain m" and V: "shows_view ms_Get plain_name m V" and named: "named_result plain_name result"
    and p: "ms_Persist marshal result v m = (m', Ok c)"
  shows "shows_view ms_Get plain_name m' (mutated marshal v result V) \<and> ch_version c = v"
  using p
proof (cases rule: ms_Persist_cases)
  case finished
  have "ms_Get kind key m' = Ok (as_entity kind key (mutated marshal v result V kind key))" if n: "plain_name kind key" for kind key
  proof -
    let ?us = "rr_upserts (result_of result)" and ?ds = "rr_deletes (result_of result)"
    have f: "List.find (\<lambda>u. entityKey (up_kind u) (up_key u) = entityKey kind key) (rev ?us) =
        List.find (\<lambda>u. up_kind u = kind \<and> up_key u = key) (rev ?us)"
      using named n by (intro find_entityKey) (simp_all add: named_result_of)
    have d: "list_ex (\<lambda>d. entityKey (de_kind d) (de_key d) = entityKey kind key) ?ds =
        list_ex (\<lambda>d. de_kind d = kind \<and> de_key d = key) ?ds"
      using named n by (intro ex_entityKey) (simp_all add: named_result_of)
    have old: "Ok (Mapping.lookup (ms_entities m) (entityKey kind key)) = Ok (as_entity kind key (V kind key))"
      using V n by (simp add: shows_view_def ms_Get_def plain_name_def)
    show ?thesis
    proof (cases "List.find (\<lambda>u. up_kind u = kind \<and> up_key u = key) (rev ?us)")
      case None
      with finished old n show ?thesis
        by (simp add: ms_Get_def plain_name_def lookup_entities_after f d mutated_result_of) (simp add: as_entity_def)
    next
      case (Some u)
      then have u: "u \<in> set ?us" "up_kind u = kind" "up_key u = key" by (auto dest!: find_SomeD)
      with finished(3) obtain doc where "marshal (up_value u) = Ok doc"
        by (auto simp: list_all_iff is_ok_iff)
      with finished Some u n show ?thesis
        by (simp add: ms_Get_def plain_name_def lookup_entities_after f d mutated_result_of as_entity_def stored_def)
    qed
  qed
  with finished show ?thesis by (simp add: shows_view_def change_of_def)
qed simp_all

interpretation memory_views: view_store ms_Get "\<lambda>_ :: unit. ms_Persist marshal" marshal ms_plain plain_name
proof
  show "\<exists>V. shows_view ms_Get plain_name m V" if "ms_plain m" for m
  proof -
    have "\<forall>kind key. \<exists>x. plain_name kind key \<longrightarrow> ms_Get kind key m = Ok (as_entity kind key x)"
      using ms_plain_get[OF that] by blast
    then obtain V where "\<forall>kind key. plain_name kind key \<longrightarrow> ms_Get kind key m = Ok (as_entity kind key (V kind key))" by metis
    then show ?thesis by (auto simp: shows_view_def)
  qed
qed (fact ms_Persist_shows, fact ms_plain_Persist)

text \<open>When every value can be encoded, the in-memory store is atomic as well.\<close>

interpretation memory_views_total: atomic_view_store ms_Get "\<lambda>_ :: unit. ms_Persist (\<lambda>x. Ok (enc x))" "\<lambda>x. Ok (enc x)" ms_plain plain_name
proof
  fix m result v m' r V
  assume m: "ms_plain m" and n: "named_result plain_name result" and p: "ms_Persist (\<lambda>x. Ok (enc x)) result v m = (m', r)"
    and r: "\<not> is_ok r" and V: "shows_view ms_Get plain_name m V"
  from n have "validateReduceResult result = None" by (auto simp: validateReduceResult_None named_result_of plain_name_def)
  with p r have False by (cases rule: ms_Persist_cases) auto
  then show "shows_view ms_Get plain_name m' V" ..
qed

lemma new_store_plain: "ms_plain NewMemoryStore" "shows_view ms_Get plain_name NewMemoryStore no_view"
  by (simp_all add: ms_plain_def ms_wf_def NewMemoryStore_def shows_view_def ms_Get_def as_entity_def plain_name_def)

subsection \<open>The query of the indexer\<close>

lemma q2_kinds_add [simp]:
  "q2_kinds (add_kind_handler kind h q) = q2_kinds q @ [\<lparr>kq_kind = kind, kq_each = Some h, kq_matched = []\<rparr>]"
  "q2_ids (add_kind_handler kind h q) = q2_ids q" "q2_afterID (add_kind_handler kind h q) = q2_afterID q"
  by (simp_all add: add_kind_handler_def OnKind_def Each_def Let_def)

definition kind_clause :: "string \<Rightarrow> 's handler \<Rightarrow> 's KindClause" where
  "kind_clause kind h = \<lparr>kq_kind = kind, kq_each = Some h, kq_matched = []\<rparr>"

lemma fold_add_kind_handlers:
  "fold (\<lambda>kind q. case f kind of None \<Rightarrow> q | Some h \<Rightarrow> add_kind_handler kind h q) ks q0 =
     q0\<lparr>q2_kinds := q2_kinds q0 @ concat (map (\<lambda>kind. case f kind of None \<Rightarrow> [] | Some h \<Rightarrow> [kind_clause kind h]) ks)\<rparr>"
  by (induction ks arbitrary: q0) (auto simp: kind_clause_def add_kind_handler_def OnKind_def Each_def Let_def split: option.split)

lemma Indexer_Query_eq:
  "Indexer_Query get persist callbacks proj ks =
     NewQuery\<lparr>q2_kinds := concat (map (\<lambda>kind. case Mapping.lookup (pj_handlers proj) kind of
        None \<Rightarrow> [] | Some raw \<Rightarrow> [kind_clause kind (makeDispatchHandler get persist callbacks kind raw)]) ks)\<rparr>"
proof -
  let ?f = "\<lambda>kind. map_option (makeDispatchHandler get persist callbacks kind) (Mapping.lookup (pj_handlers proj) kind)"
  have "Indexer_Query get persist callbacks proj ks =
      fold (\<lambda>kind q. case ?f kind of None \<Rightarrow> q | Some h \<Rightarrow> add_kind_handler kind h q) ks NewQuery"
    unfolding Indexer_Query_def
    by (intro fold_cong refl ext) (simp split: option.split)
  also have "\<dots> = NewQuery\<lparr>q2_kinds := concat (map (\<lambda>kind. case ?f kind of None \<Rightarrow> [] | Some h \<Rightarrow> [kind_clause kind h]) ks)\<rparr>"
    by (simp only: fold_add_kind_handlers) (simp add: NewQuery_def)
  also have "(\<lambda>kind. case ?f kind of None \<Rightarrow> [] | Some h \<Rightarrow> [kind_clause kind h]) =
      (\<lambda>kind. case Mapping.lookup (pj_handlers proj) kind of
        None \<Rightarrow> [] | Some raw \<Rightarrow> [kind_clause kind (makeDispatchHandler get persist callbacks kind raw)])"
    by (auto simp: fun_eq_iff split: option.split)
  finally show ?thesis .
qed

lemma Indexer_Query_marshals: "marshals (Indexer_Query get persist callbacks proj ks)"
  by (auto simp: marshals_def Indexer_Query_eq NewQuery_def kind_clause_def list_all_iff split: option.splits)

text \<open>Each kind has one clause, so an event is dispatched to the handler of its kind and to no other.\<close>

lemma Indexer_Query_calls:
  assumes "range_order (pj_handlers proj) ks"
  shows "kind_calls compare (q2_kinds (Indexer_Query get persist callbacks proj ks)) kind body =
    (case Mapping.lookup (pj_handlers proj) kind of
       None \<Rightarrow> [] | Some raw \<Rightarrow> [makeDispatchHandler get persist callbacks kind raw])"
proof -
  let ?c = "\<lambda>kind. case Mapping.lookup (pj_handlers proj) kind of
        None \<Rightarrow> [] | Some raw \<Rightarrow> [kind_clause kind (makeDispatchHandler get persist callbacks kind raw)]"
  have absent: "filter (\<lambda>k. kq_kind k = kind) (concat (map ?c ks)) = []" if "kind \<notin> set ks" for ks
    using that by (induction ks) (auto simp: kind_clause_def split: option.split)
  have one: "filter (\<lambda>k. kq_kind k = kind) (concat (map ?c ks)) = (if kind \<in> set ks then ?c kind else [])"
    if "distinct ks" for ks
    using that by (induction ks) (auto simp: kind_clause_def absent split: option.split)
  have q: "filter (\<lambda>k. kq_kind k = kind) (q2_kinds (Indexer_Query get persist callbacks proj ks)) =
      (if kind \<in> set ks then ?c kind else [])"
    unfolding Indexer_Query_eq using one[OF range_order_distinct[OF assms]] by simp
  show ?thesis
  proof (cases "Mapping.lookup (pj_handlers proj) kind")
    case None
    then have "filter (\<lambda>k. kq_kind k = kind) (q2_kinds (Indexer_Query get persist callbacks proj ks)) = []"
      using q by (metis option.simps(4))
    with None show ?thesis unfolding kind_calls_def by (simp only: list.map concat.simps option.simps)
  next
    case (Some raw)
    with range_order_mem[OF assms, of kind] have "kind \<in> set ks" by simp
    with q Some show ?thesis
      unfolding kind_calls_def by (simp add: clause_calls_def kind_clause_def List.map_filter_simps)
  qed
qed

text \<open>The events of a log that a watch after \<open>after\<close> delivers from its first \<open>p\<close> entries.\<close>

definition log_events :: "int64 option \<Rightarrow> (time \<times> string \<times> json) list \<Rightarrow> nat \<Rightarrow> (unit \<times> Envelope \<times> raw_message) list" where
  "log_events after log p =
     map (\<lambda>n. ((), \<lparr>env_id = int n, env_when = format_seconds (fst (log ! n)), env_kind = fst (snd (log ! n))\<rparr>,
               Some (log_body log n)))
       (filter (\<lambda>n. after_ok after (int n)) [0..<p])"

lemma watch_calls_dispatch:
  assumes "range_order (pj_handlers proj) ks"
  shows "for_each (watch_calls compare (Indexer_Query get persist callbacks proj ks\<lparr>q2_afterID := after\<rparr>) log) [0..<p] sn =
    for_each (dispatch get (\<lambda>_. persist) callbacks proj) (log_events after log p) sn"
proof -
  have "for_each (watch_calls compare (Indexer_Query get persist callbacks proj ks\<lparr>q2_afterID := after\<rparr>) log) ns sn =
      for_each (dispatch get (\<lambda>_. persist) callbacks proj)
        (map (\<lambda>n. ((), \<lparr>env_id = int n, env_when = format_seconds (fst (log ! n)), env_kind = fst (snd (log ! n))\<rparr>,
               Some (log_body log n))) (filter (\<lambda>n. after_ok after (int n)) ns)) sn" for ns
  proof (induction ns arbitrary: sn)
    case (Cons n ns)
    have "watch_calls compare (Indexer_Query get persist callbacks proj ks\<lparr>q2_afterID := after\<rparr>) log n sn =
        (if after_ok after (int n)
         then dispatch get (\<lambda>_. persist) callbacks proj
           ((), \<lparr>env_id = int n, env_when = format_seconds (fst (log ! n)), env_kind = fst (snd (log ! n))\<rparr>, Some (log_body log n)) sn
         else (sn, Ok ()))" for sn
      by (auto simp: watch_calls_def Indexer_Query_calls[OF assms] run_calls_def dispatch_def
          split: option.splits prod.splits outcome.splits)
    with Cons show ?case by (auto split: prod.splits outcome.splits)
  qed simp
  then show ?thesis by (simp add: log_events_def)
qed

text \<open>
  \<open>may_fail\<close> tells why a run of the indexer may stop: a handler that returns an error on some view, or an
  observer that does.
\<close>

definition may_fail :: "('v Change \<Rightarrow> goerror option) \<Rightarrow> 'v Projection \<Rightarrow> (unit \<times> Envelope \<times> raw_message) list \<Rightarrow> bool" where
  "may_fail callbacks proj es \<longleftrightarrow> (\<exists>c. callbacks c \<noteq> None) \<or> (\<exists>ev \<in> set es. \<exists>V. \<not> is_ok (reduced proj ev V))"

context atomic_view_store
begin

lemma dispatch_ok:
  assumes inv: "inv s" and V: "shows_view get named s V" and proj: "proper_projection named proj"
    and red: "is_ok (reduced proj (env, e, body) V)" and calm: "\<And>c. callbacks c = None"
    and ok: "\<And>result. named_result named result \<Longrightarrow> is_ok (snd (persist env result (env_id e) s))"
  shows "is_ok (snd (dispatch get persist callbacks proj (env, e, body) (s, Some n)))"
proof (cases "Mapping.lookup (pj_handlers proj) (env_kind e)")
  case None
  then show ?thesis by (simp add: dispatch_def)
next
  case (Some raw)
  with proj have proper: "proper_handler named raw" by (auto simp: proper_projection_def)
  let ?g = "\<lambda>kind key. get kind key s"
  have same: "raw ?g e body = reduced proj (env, e, body) V"
    using proper V by (auto simp: proper_handler_def reduced_def Some shows_view_def)
  with red obtain result where res: "raw ?g e body = Ok result" by (auto simp: is_ok_iff)
  with proper have "named_result named result" by (auto simp: proper_handler_def)
  from ok[OF this] obtain s1 c where "persist env result (env_id e) s = (s1, Ok c)"
    by (metis is_ok_iff prod.collapse)
  with res Some calm show ?thesis by (simp add: dispatch_def makeDispatchHandler_def Emit_def)
qed

end

lemma ms_Persist_named_ok:
  assumes "named_result plain_name result"
  shows "is_ok (snd (ms_Persist (\<lambda>x. Ok (enc x)) result v m))"
proof -
  obtain m' r where p: "ms_Persist (\<lambda>x. Ok (enc x)) result v m = (m', r)" by fastforce
  from assms have v: "validateReduceResult result = None"
    by (auto simp: validateReduceResult_None named_result_of plain_name_def)
  from p have "is_ok r" using v by (cases rule: ms_Persist_cases) auto
  with p show ?thesis by simp
qed

lemma memory_dispatch_run_ok:
  assumes "proper_projection plain_name proj"
  shows "ms_plain s \<Longrightarrow> shows_view ms_Get plain_name s V \<Longrightarrow> \<not> may_fail callbacks proj es \<Longrightarrow>
    is_ok (snd (for_each (dispatch ms_Get (\<lambda>_. ms_Persist (\<lambda>x. Ok (enc x))) callbacks proj) es (s, Some n)))"
proof (induction es arbitrary: s V n)
  case Nil
  then show ?case by simp
next
  case (Cons ev es)
  obtain env e body where ev: "ev = (env, e, body)" by (cases ev)
  obtain sn1 r1 where d: "dispatch ms_Get (\<lambda>_. ms_Persist (\<lambda>x. Ok (enc x))) callbacks proj ev (s, Some n) = (sn1, r1)" by fastforce
  from Cons.prems(3) have "is_ok (reduced proj (env, e, body) V)" "\<And>c. callbacks c = None"
    by (auto simp: may_fail_def ev)
  then have "is_ok (snd (dispatch ms_Get (\<lambda>_. ms_Persist (\<lambda>x. Ok (enc x))) callbacks proj ev (s, Some n)))"
    unfolding ev by (intro memory_views_total.dispatch_ok[OF Cons.prems(1,2) assms]) (simp_all add: ms_Persist_named_ok)
  with d have ok: "is_ok r1" by simp
  from memory_views_total.dispatch_step[OF Cons.prems(1,2) assms d] ok obtain s1 n1 where
    "sn1 = (s1, Some n1)" "ms_plain s1" "shows_view ms_Get plain_name s1 (reduce_event (\<lambda>x. Ok (enc x)) proj ev V)" by auto
  moreover have "\<not> may_fail callbacks proj es" using Cons.prems(3) by (auto simp: may_fail_def)
  ultimately have "is_ok (snd (for_each (dispatch ms_Get (\<lambda>_. ms_Persist (\<lambda>x. Ok (enc x))) callbacks proj) es sn1))"
    using Cons.IH by simp
  with ok d show ?case by (cases r1) simp_all
qed

subsection \<open>Properties\<close>


text \<open>
  C34. The in-memory view store is well typed at all times: after any sequence of \<open>Persist\<close> calls, with
  nil results, keys of any number of parts and values that cannot be encoded, every entity is stored
  under the map key of its own kind and key, its key has one or two parts, and its version is that of one
  of the calls.
\<close>

theorem memory_views_well_formed:
  "let m = fold (\<lambda>(result, v) m. fst (ms_Persist marshal result v m)) calls NewMemoryStore
   in ms_wf m \<and> en_version ` ran (Mapping.lookup (ms_entities m)) \<subseteq> snd ` set calls"
proof -
  have step: "en_version e \<in> insert v versions"
    if old: "\<And>k e. Mapping.lookup (ms_entities m) k = Some e \<Longrightarrow> en_version e \<in> versions"
      and e: "Mapping.lookup (ms_entities (fst (ms_Persist marshal result v m))) k = Some e" for m result v versions k e
  proof -
    have *: "en_version e \<in> insert v versions"
      if "Mapping.lookup (entities_after marshal v us ds (ms_entities m)) k = Some e" for us ds
      using that old by (auto simp: lookup_entities_after stored_def split: if_splits option.splits)
    obtain m' r where p: "ms_Persist marshal result v m = (m', r)" by fastforce
    have em: "Mapping.lookup (ms_entities m') k = Some e" using e p by simp
    from p show ?thesis by (cases rule: ms_Persist_cases) (use em old * in auto)
  qed
  define I where "I versions m \<longleftrightarrow> ms_wf m \<and> (\<forall>k e. Mapping.lookup (ms_entities m) k = Some e \<longrightarrow> en_version e \<in> versions)"
    for versions m
  have "I (versions \<union> snd ` set calls) (fold (\<lambda>(result, v) m. fst (ms_Persist marshal result v m)) calls m)"
    if "I versions m" for versions m
    using that
  proof (induction calls arbitrary: m versions)
    case (Cons c calls)
    obtain result v where c: "c = (result, v)" by (cases c)
    have "I (insert v versions) (fst (ms_Persist marshal result v m))"
      using Cons.prems ms_Persist_wf step[of m versions] by (auto simp: I_def)
    from Cons.IH[OF this] show ?case by (simp add: c Un_commute insert_commute)
  qed simp
  moreover have "I {} NewMemoryStore" by (simp add: I_def NewMemoryStore_def ms_wf_def)
  ultimately have "I ({} \<union> snd ` set calls) (fold (\<lambda>(result, v) m. fst (ms_Persist marshal result v m)) calls NewMemoryStore)"
    by blast
  then show ?thesis by (auto simp: I_def Let_def ran_def)
qed

subsection \<open>Witnesses and limits\<close>

text \<open>A projection that counts the events of a kind, reading the previous count through \<open>Get\<close>.\<close>

definition count_result :: "int \<Rightarrow> int ReduceResult option" where
  "count_result n = Some \<lparr>rr_upserts = [\<lparr>up_kind = ''count'', up_key = Key [''k''], up_value = Value n\<rparr>], rr_deletes = []\<rparr>"

definition count_handler :: "int rawHandler" where
  "count_handler g e body =
     bindo (g ''count'' (Key [''k''])) (\<lambda>old.
       Ok (count_result (case old of Some en \<Rightarrow> (case en_value en of JNum n \<Rightarrow> n + 1 | _ \<Rightarrow> 1) | None \<Rightarrow> 1)))"

definition count_encode :: "int any_value \<Rightarrow> json" where
  "count_encode x = (case x of Value n \<Rightarrow> JNum n | _ \<Rightarrow> JNull)"

definition count_projection :: "int Projection" where
  "count_projection = NewProjection ''d'' ''s'' [OnKindOption ''k'' count_handler]"

lemma count_projection_handlers: "pj_handlers count_projection = Mapping.update ''k'' count_handler Mapping.empty"
  by (simp add: count_projection_def NewProjection_def)

lemma count_proper:
  assumes "named ''count'' (Key [''k''])"
  shows "proper_projection named count_projection"
proof -
  from assms have "raw g e body = raw g' e body"
    if "raw = count_handler" "\<forall>kind key. named kind key \<longrightarrow> g kind key = g' kind key" for raw g g' e body
    using that by (simp add: count_handler_def)
  moreover have "named_result named result" if "count_handler g e body = Ok result" for g e body result
    using that assms by (auto simp: count_handler_def count_result_def named_result_def)
  ultimately show ?thesis
    by (auto simp: proper_projection_def proper_handler_def count_projection_handlers split: if_splits)
qed

lemma count_plain: "plain_name ''count'' (Key [''k''])"
  by (simp add: plain_name_def validateKey_def no_colon_def)

lemma count_order: "range_order (pj_handlers count_projection) [''k'']"
  by (simp add: range_order_def count_projection_handlers)


text \<open>
  Where the store falls short of its documentation. Kinds and key parts with colons collide: a two-part key
  overwrites a one-part key that contains the colon. And \<open>Persist\<close> is not atomic when a value cannot be
  encoded: the upserts before it stay, with the version of an event that the projection has not recorded.
\<close>

lemma entity_keys_collide:
  "ms_Get ''a'' (Key [''b:c'']) (fst (ms_Persist (\<lambda>x. Ok JNull)
     (Some \<lparr>rr_upserts = [\<lparr>up_kind = ''a'', up_key = Key [''b'', ''c''], up_value = Value ()\<rparr>], rr_deletes = []\<rparr>) 1 NewMemoryStore))
   = Ok (Some \<lparr>en_kind = ''a'', en_key = Key [''b'', ''c''], en_value = JNull, en_version = 1\<rparr>)"
  by code_simp

lemma failed_persist_keeps_upserts:
  fixes marshal :: "bool any_value \<Rightarrow> json outcome"
  assumes "marshal (Value True) = Ok JNull" "marshal (Value False) = Err e"
  shows "ms_Persist marshal (Some \<lparr>rr_upserts = [\<lparr>up_kind = ''a'', up_key = Key [''x''], up_value = Value True\<rparr>,
       \<lparr>up_kind = ''a'', up_key = Key [''y''], up_value = Value False\<rparr>], rr_deletes = []\<rparr>) 7 NewMemoryStore
     = (\<lparr>ms_entities = Mapping.update ''a:x'' \<lparr>en_kind = ''a'', en_key = Key [''x''], en_value = JNull, en_version = 7\<rparr> Mapping.empty,
         ms_version = 0\<rparr>, Err (OperationError ''marshal upsert value'' e))"
  using assms
  by (simp add: ms_Persist_def validateReduceResult_def List.map_filter_simps validateKey_def NewMemoryStore_def
      persist_upsert_def entityKey_def)

text \<open>A run in which every event succeeds computes the fold on any store of the contract.\<close>

context view_store
begin

lemma dispatch_run_done:
  assumes "proper_projection named proj"
  shows "inv s \<Longrightarrow> shows_view get named s V \<Longrightarrow>
    for_each (dispatch get persist callbacks proj) es (s, Some n) = ((s', n'), Ok ()) \<Longrightarrow>
    inv s' \<and> shows_view get named s' (fold (reduce_event encode proj) es V)"
proof (induction es arbitrary: s n V)
  case (Cons ev es)
  obtain env e body where ev: "ev = (env, e, body)" by (cases ev)
  from Cons.prems(3) obtain sn1 where d: "dispatch get persist callbacks proj ev (s, Some n) = (sn1, Ok ())"
    and rest: "for_each (dispatch get persist callbacks proj) es sn1 = ((s', n'), Ok ())"
    by (auto split: prod.splits outcome.splits)
  show ?case
  proof (cases "Mapping.lookup (pj_handlers proj) (env_kind e)")
    case None
    with d ev have "sn1 = (s, Some n)" "reduce_event encode proj ev V = V"
      by (auto simp: dispatch_def reduce_event_def reduced_def)
    with Cons.IH[OF Cons.prems(1,2)] rest show ?thesis by simp
  next
    case (Some raw)
    with assms have proper: "proper_handler named raw" by (auto simp: proper_projection_def)
    from d[unfolded ev] Some show ?thesis
    proof (cases rule: dispatch_cases)
      case (persisted result s1 c)
      with proper have named: "named_result named result" by (auto simp: proper_handler_def)
      have "raw (\<lambda>kind key. get kind key s) e body = reduced proj ev V"
        using proper Cons.prems(2) by (auto simp: proper_handler_def reduced_def Some shows_view_def ev)
      with persisted(1) have red: "reduced proj ev V = Ok result" by simp
      have "reduce_event encode proj ev V = mutated encode (env_id e) result V"
        unfolding reduce_event_def red by (simp add: ev)
      with persist_ok[OF Cons.prems(1,2) named persisted(2)] have "shows_view get named s1 (reduce_event encode proj ev V)" by simp
      moreover have "inv s1" using persist_inv[OF Cons.prems(1) named, of env "env_id e"] persisted(2) by simp
      moreover have "for_each (dispatch get persist callbacks proj) es (s1, Some (fst (Emit callbacks c n))) = ((s', n'), Ok ())"
        using rest persisted(3) by simp
      ultimately show ?thesis using Cons.IH[of s1 "reduce_event encode proj ev V"] by simp
    qed simp
  qed
qed simp

end

end
