(* ===== verification/ViewPostgres.thy ===== *)
theory ViewPostgres
  imports Views ConsumerStore
begin

text \<open>
  The Postgres store of view projections, \<open>src/pkg/indexer/views/pgstore.go\<close>, on the tables of
  \<open>src/migrations/primary/000008_view_projections.up.sql\<close> beside those of \<open>Database\<close>.

  \<^item> Statements fail by name through \<open>fault\<close>, transactions work on a view of the database that a commit
    makes the committed one, sequences are not rolled back, as in \<open>Database\<close>.
  \<^item> \<open>marshal\<close> is \<open>json.Marshal\<close>. A \<open>[]byte\<close> value goes to the \<open>JSONB\<close> column as it is, so text that is not a
    document makes the statement fail. The normal form in which \<open>JSONB\<close> keeps a document is not modelled.
  \<^item> The surrogate keys and time stamps of the entry tables are not read by any statement and are left out.

  The store keeps the contract \<open>atomic_view_store\<close> whatever fails, and projections are isolated from each
  other.
\<close>

record projection_row =
  vn_id :: int64
  vn_stream_id :: int64
  vn_name :: string

record view_kind_row =
  vk_id :: int64
  vk_kind :: string

record single_row =
  sg_projection_id :: int64
  sg_kind_id :: int64
  sg_key :: string
  sg_value :: json
  sg_version :: int64

record composite_row =
  co_projection_id :: int64
  co_kind_id :: int64
  co_key1 :: string
  co_key2 :: string
  co_value :: json
  co_version :: int64

record view_db =
  vd_db :: db
  vd_names :: "projection_row list"
  vd_name_seq :: int64
  vd_kinds :: "view_kind_row list"
  vd_kind_seq :: int64
  vd_single :: "single_row list"
  vd_composite :: "composite_row list"

definition view_rollback :: "view_db \<Rightarrow> view_db \<Rightarrow> view_db" where
  "view_rollback committed t =
     committed\<lparr>vd_db := rollback (vd_db committed) (vd_db t), vd_name_seq := vd_name_seq t, vd_kind_seq := vd_kind_seq t\<rparr>"

subsection \<open>Statements\<close>

text \<open>\<open>QueryRow(...).Scan(...)\<close>: the row, or the error that there is none.\<close>

definition query_row :: "faults \<Rightarrow> string \<Rightarrow> 'a option \<Rightarrow> 'a outcome" where
  "query_row fault stmt row =
     (case fault stmt of
        Some e \<Rightarrow> Err e
      | None \<Rightarrow> (case row of None \<Rightarrow> Err ErrNoRows | Some x \<Rightarrow> Ok x))"

definition projection_id :: "int64 \<Rightarrow> string \<Rightarrow> view_db \<Rightarrow> int64 option" where
  "projection_id sid name d = map_option vn_id (List.find (\<lambda>r. vn_stream_id r = sid \<and> vn_name r = name) (vd_names d))"

definition view_kind_id :: "string \<Rightarrow> view_db \<Rightarrow> int64 option" where
  "view_kind_id kind d = map_option vk_id (List.find (\<lambda>r. vk_kind r = kind) (vd_kinds d))"

text \<open>\<open>INSERT ... ON CONFLICT (...) DO UPDATE SET ... = EXCLUDED...\<close> for the row with the given key.\<close>

definition upsert_row :: "('r \<Rightarrow> bool) \<Rightarrow> 'r \<Rightarrow> 'r list \<Rightarrow> 'r list" where
  "upsert_row same row rows =
     (if list_ex same rows then map (\<lambda>r. if same r then row else r) rows else rows @ [row])"

definition same_single :: "int64 \<Rightarrow> int64 \<Rightarrow> string \<Rightarrow> single_row \<Rightarrow> bool" where
  "same_single pid kid k r \<longleftrightarrow> sg_projection_id r = pid \<and> sg_kind_id r = kid \<and> sg_key r = k"

definition same_composite :: "int64 \<Rightarrow> int64 \<Rightarrow> string \<Rightarrow> string \<Rightarrow> composite_row \<Rightarrow> bool" where
  "same_composite pid kid k1 k2 r \<longleftrightarrow>
     co_projection_id r = pid \<and> co_kind_id r = kid \<and> co_key1 r = k1 \<and> co_key2 r = k2"

definition ResolveStreamID :: "faults \<Rightarrow> string \<Rightarrow> string \<Rightarrow> view_db \<Rightarrow> int64 outcome" where
  "ResolveStreamID fault domain stream d =
     (case query_row fault ''resolve stream'' (stream_id domain stream (vd_db d)) of
        Err e \<Rightarrow> (if e = ErrNoRows then Err (StreamNotFoundError domain stream) else Err (OperationError ''resolve stream'' e))
      | r \<Rightarrow> r)"

text \<open>An insert that conflicts returns no row and the name is looked up; the sequence advances either way.\<close>

definition resolveProjectionName :: "faults \<Rightarrow> int64 \<Rightarrow> ProjectionIdentity \<Rightarrow> view_db \<Rightarrow> view_db \<times> int64 outcome" where
  "resolveProjectionName fault sid i t =
     (let name = pi_projection i;
          (t1, r) = (case fault ''insert projection name'' of
             Some e \<Rightarrow> (t, Err e)
           | None \<Rightarrow>
               (case projection_id sid name t of
                  Some _ \<Rightarrow> (t\<lparr>vd_name_seq := vd_name_seq t + 1\<rparr>, Err ErrNoRows)
                | None \<Rightarrow> (t\<lparr>vd_names := vd_names t @ [\<lparr>vn_id = vd_name_seq t, vn_stream_id = sid, vn_name = name\<rparr>],
                            vd_name_seq := vd_name_seq t + 1\<rparr>, Ok (vd_name_seq t))))
      in if r = Err ErrNoRows then (t1, query_row fault ''select projection name'' (projection_id sid name t1)) else (t1, r))"

definition resolveKindName :: "faults \<Rightarrow> string \<Rightarrow> view_db \<Rightarrow> view_db \<times> int64 outcome" where
  "resolveKindName fault kind t =
     (let (t1, r) = (case fault ''insert view kind'' of
             Some e \<Rightarrow> (t, Err e)
           | None \<Rightarrow>
               (case view_kind_id kind t of
                  Some _ \<Rightarrow> (t\<lparr>vd_kind_seq := vd_kind_seq t + 1\<rparr>, Err ErrNoRows)
                | None \<Rightarrow> (t\<lparr>vd_kinds := vd_kinds t @ [\<lparr>vk_id = vd_kind_seq t, vk_kind = kind\<rparr>],
                            vd_kind_seq := vd_kind_seq t + 1\<rparr>, Ok (vd_kind_seq t))))
      in if r = Err ErrNoRows then (t1, query_row fault ''select view kind'' (view_kind_id kind t1)) else (t1, r))"

subsection \<open>Reading\<close>

definition getSingle :: "faults \<Rightarrow> int64 \<Rightarrow> int64 \<Rightarrow> string \<Rightarrow> string \<Rightarrow> view_db \<Rightarrow> Entity option outcome" where
  "getSingle fault pid kid kind k d =
     (case query_row fault ''get single'' (List.find (same_single pid kid k) (vd_single d)) of
        Err e \<Rightarrow> (if e = ErrNoRows then Ok None else Err (OperationError ''get single'' e))
      | Panic p \<Rightarrow> Panic p
      | Ok r \<Rightarrow> bindo (NewKey [k]) (\<lambda>key.
          Ok (Some \<lparr>en_kind = kind, en_key = key, en_value = sg_value r, en_version = sg_version r\<rparr>)))"

definition getComposite :: "faults \<Rightarrow> int64 \<Rightarrow> int64 \<Rightarrow> string \<Rightarrow> string \<Rightarrow> string \<Rightarrow> view_db \<Rightarrow> Entity option outcome" where
  "getComposite fault pid kid kind k1 k2 d =
     (case query_row fault ''get composite'' (List.find (same_composite pid kid k1 k2) (vd_composite d)) of
        Err e \<Rightarrow> (if e = ErrNoRows then Ok None else Err (OperationError ''get composite'' e))
      | Panic p \<Rightarrow> Panic p
      | Ok r \<Rightarrow> bindo (NewKey [k1, k2]) (\<lambda>key.
          Ok (Some \<lparr>en_kind = kind, en_key = key, en_value = co_value r, en_version = co_version r\<rparr>)))"

text \<open>The key is validated only after the projection and the kind are found.\<close>

definition pg_Get :: "faults \<Rightarrow> ProjectionIdentity \<Rightarrow> string \<Rightarrow> Key \<Rightarrow> view_db \<Rightarrow> Entity option outcome" where
  "pg_Get fault i kind key d =
     (case ResolveStreamID fault (pi_domain i) (pi_stream i) d of
        Err e \<Rightarrow> Err e
      | Panic p \<Rightarrow> Panic p
      | Ok sid \<Rightarrow>
          (case query_row fault ''resolve projection'' (projection_id sid (pi_projection i) d) of
             Err e \<Rightarrow> (if e = ErrNoRows then Ok None else Err (OperationError ''resolve projection'' e))
           | Panic p \<Rightarrow> Panic p
           | Ok pid \<Rightarrow>
               (case query_row fault ''resolve kind'' (view_kind_id kind d) of
                  Err e \<Rightarrow> (if e = ErrNoRows then Ok None else Err (OperationError ''resolve kind'' e))
                | Panic p \<Rightarrow> Panic p
                | Ok kid \<Rightarrow>
                    (case validateKey key of
                       Some e \<Rightarrow> Err e
                     | None \<Rightarrow>
                         (case Parts key of
                            [k] \<Rightarrow> getSingle fault pid kid kind k d
                          | k1 # k2 # _ \<Rightarrow> getComposite fault pid kid kind k1 k2 d
                          | [] \<Rightarrow> Panic ''index out of range'')))))"

subsection \<open>Writing\<close>

definition marshalValue :: "('v any_value \<Rightarrow> json outcome) \<Rightarrow> 'v any_value \<Rightarrow> bytes outcome" where
  "marshalValue marshal value =
     (case value of Bytes b \<Rightarrow> Ok b | _ \<Rightarrow> bindo (marshal value) (\<lambda>doc. Ok (Document doc)))"

text \<open>The error of Postgres for text that is not a document.\<close>

definition jsonb :: "bytes \<Rightarrow> json outcome" where
  "jsonb b = (case b of Document doc \<Rightarrow> Ok doc | NoDocument _ \<Rightarrow> Err (DriverError ''invalid input syntax for type json''))"

definition exec_upsert :: "faults \<Rightarrow> int64 \<Rightarrow> int64 \<Rightarrow> Key \<Rightarrow> bytes \<Rightarrow> int64 \<Rightarrow> view_db \<Rightarrow> view_db \<times> unit outcome" where
  "exec_upsert fault pid kid key data eventID t =
     (case fault ''upsert'' of
        Some e \<Rightarrow> (t, Err e)
      | None \<Rightarrow>
          (case jsonb data of
             Err e \<Rightarrow> (t, Err e)
           | Panic p \<Rightarrow> (t, Panic p)
           | Ok doc \<Rightarrow>
               (case Parts key of
                  [k] \<Rightarrow>
                    (t\<lparr>vd_single := upsert_row (same_single pid kid k)
                        \<lparr>sg_projection_id = pid, sg_kind_id = kid, sg_key = k, sg_value = doc, sg_version = eventID\<rparr> (vd_single t)\<rparr>, Ok ())
                | k1 # k2 # _ \<Rightarrow>
                    (t\<lparr>vd_composite := upsert_row (same_composite pid kid k1 k2)
                        \<lparr>co_projection_id = pid, co_kind_id = kid, co_key1 = k1, co_key2 = k2, co_value = doc, co_version = eventID\<rparr>
                        (vd_composite t)\<rparr>, Ok ())
                | [] \<Rightarrow> (t, Panic ''index out of range''))))"

definition applyUpsert ::
  "faults \<Rightarrow> ('v any_value \<Rightarrow> json outcome) \<Rightarrow> int64 \<Rightarrow> int64 \<Rightarrow> 'v Upsert \<Rightarrow> view_db \<Rightarrow> view_db \<times> unit outcome" where
  "applyUpsert fault marshal pid eventID u t =
     (case marshalValue marshal (up_value u) of
        Err e \<Rightarrow> (t, Err (OperationError ''marshal upsert value'' e))
      | Panic p \<Rightarrow> (t, Panic p)
      | Ok data \<Rightarrow>
          (case resolveKindName fault (up_kind u) t of
             (t1, Err e) \<Rightarrow> (t1, Err (OperationError ''resolve kind'' e))
           | (t1, Panic p) \<Rightarrow> (t1, Panic p)
           | (t1, Ok kid) \<Rightarrow>
               (case validateKey (up_key u) of
                  Some e \<Rightarrow> (t1, Err e)
                | None \<Rightarrow>
                    (case exec_upsert fault pid kid (up_key u) data eventID t1 of
                       (t2, Err e) \<Rightarrow> (t2, Err (OperationError ''upsert'' e))
                     | r \<Rightarrow> r))))"

definition exec_delete :: "faults \<Rightarrow> int64 \<Rightarrow> int64 \<Rightarrow> Key \<Rightarrow> view_db \<Rightarrow> view_db \<times> unit outcome" where
  "exec_delete fault pid kid key t =
     (case fault ''delete'' of
        Some e \<Rightarrow> (t, Err e)
      | None \<Rightarrow>
          (case Parts key of
             [k] \<Rightarrow> (t\<lparr>vd_single := filter (\<lambda>r. \<not> same_single pid kid k r) (vd_single t)\<rparr>, Ok ())
           | k1 # k2 # _ \<Rightarrow> (t\<lparr>vd_composite := filter (\<lambda>r. \<not> same_composite pid kid k1 k2 r) (vd_composite t)\<rparr>, Ok ())
           | [] \<Rightarrow> (t, Panic ''index out of range'')))"

definition applyDelete :: "faults \<Rightarrow> int64 \<Rightarrow> Delete \<Rightarrow> view_db \<Rightarrow> view_db \<times> unit outcome" where
  "applyDelete fault pid d t =
     (case resolveKindName fault (de_kind d) t of
        (t1, Err e) \<Rightarrow> (t1, Err (OperationError ''resolve kind'' e))
      | (t1, Panic p) \<Rightarrow> (t1, Panic p)
      | (t1, Ok kid) \<Rightarrow>
          (case validateKey (de_key d) of
             Some e \<Rightarrow> (t1, Err e)
           | None \<Rightarrow>
               (case exec_delete fault pid kid (de_key d) t1 of
                  (t2, Err e) \<Rightarrow> (t2, Err (OperationError ''delete'' e))
                | r \<Rightarrow> r)))"

definition applyMutations ::
  "faults \<Rightarrow> ('v any_value \<Rightarrow> json outcome) \<Rightarrow> int64 \<Rightarrow> 'v ReduceResult \<Rightarrow> int64 \<Rightarrow> view_db \<Rightarrow> view_db \<times> 'v Change outcome" where
  "applyMutations fault marshal pid r eventID t =
     (case for_each (applyUpsert fault marshal pid eventID) (rr_upserts r) t of
        (t1, Err e) \<Rightarrow> (t1, Err e)
      | (t1, Panic p) \<Rightarrow> (t1, Panic p)
      | (t1, Ok _) \<Rightarrow>
          (case for_each (applyDelete fault pid) (rr_deletes r) t1 of
             (t2, Err e) \<Rightarrow> (t2, Err e)
           | (t2, Panic p) \<Rightarrow> (t2, Panic p)
           | (t2, Ok _) \<Rightarrow> (t2, Ok \<lparr>ch_upserts = rr_upserts r, ch_deletes = rr_deletes r, ch_version = eventID\<rparr>)))"

definition writePosition :: "faults \<Rightarrow> int64 \<Rightarrow> string \<Rightarrow> int64 \<Rightarrow> view_db \<Rightarrow> view_db \<times> unit outcome" where
  "writePosition fault sid consumer eventID t =
     (case fault ''update consumer position'' of
        Some e \<Rightarrow> (t, Err (OperationError ''update consumer position'' e))
      | None \<Rightarrow>
          (let rows = db_positions (vd_db t);
               same = (\<lambda>r. cp_stream_id r = sid \<and> cp_consumer r = consumer)
           in (t\<lparr>vd_db := (vd_db t)\<lparr>db_positions :=
                 (if list_ex same rows
                  then map (\<lambda>r. if same r \<and> cp_event_id r \<le> eventID then r\<lparr>cp_event_id := eventID\<rparr> else r) rows
                  else rows @ [\<lparr>cp_stream_id = sid, cp_consumer = consumer, cp_consumer_id = None, cp_event_id = eventID\<rparr>])\<rparr>\<rparr>,
               Ok ())))"

text \<open>\<open>ResolveStreamID\<close> reads the committed state \<open>c\<close> on the pool, not the transaction's \<open>t\<close>.\<close>

definition applyAndRecord ::
  "faults \<Rightarrow> ('v any_value \<Rightarrow> json outcome) \<Rightarrow> ProjectionIdentity \<Rightarrow> 'v ReduceResult option \<Rightarrow> int64 \<Rightarrow> view_db \<Rightarrow> view_db
     \<Rightarrow> view_db \<times> 'v Change outcome" where
  "applyAndRecord fault marshal i result eventID c t =
     (let r = result_of result
      in case ResolveStreamID fault (pi_domain i) (pi_stream i) c of
           Err e \<Rightarrow> (t, Err e)
         | Panic p \<Rightarrow> (t, Panic p)
         | Ok sid \<Rightarrow>
             (case resolveProjectionName fault sid i t of
                (t1, Err e) \<Rightarrow> (t1, Err (OperationError ''resolve projection name'' e))
              | (t1, Panic p) \<Rightarrow> (t1, Panic p)
              | (t1, Ok pid) \<Rightarrow>
                  (case applyMutations fault marshal pid r eventID t1 of
                     (t2, Err e) \<Rightarrow> (t2, Err e)
                   | (t2, Panic p) \<Rightarrow> (t2, Panic p)
                   | (t2, Ok change) \<Rightarrow>
                       (case writePosition fault sid (pi_consumer i) eventID t2 of
                          (t3, Err e) \<Rightarrow> (t3, Err e)
                        | (t3, Panic p) \<Rightarrow> (t3, Panic p)
                        | (t3, Ok _) \<Rightarrow> (t3, Ok change)))))"

definition pg_Persist ::
  "('v any_value \<Rightarrow> json outcome) \<Rightarrow> ProjectionIdentity \<Rightarrow> faults \<Rightarrow> 'v ReduceResult option \<Rightarrow> int64 \<Rightarrow> view_db
     \<Rightarrow> view_db \<times> 'v Change outcome" where
  "pg_Persist marshal i fault result eventID d =
     (case fault ''begin'' of
        Some e \<Rightarrow> (d, Err (OperationError ''begin transaction'' e))
      | None \<Rightarrow>
          (case applyAndRecord fault marshal i result eventID d d of
             (t, Err e) \<Rightarrow> (view_rollback d t, Err (the (join_err (Some e) (fault ''rollback''))))
           | (t, Panic p) \<Rightarrow> (view_rollback d t, Panic p)
           | (t, Ok change) \<Rightarrow>
               (case fault ''commit'' of
                  Some e \<Rightarrow> (view_rollback d t, Err (OperationError ''commit'' e))
                | None \<Rightarrow> (t, Ok change))))"

definition pg_Version :: "faults \<Rightarrow> ProjectionIdentity \<Rightarrow> view_db \<Rightarrow> int64 outcome" where
  "pg_Version fault i d =
     (case ResolveStreamID fault (pi_domain i) (pi_stream i) d of
        Err e \<Rightarrow> Err e
      | Panic p \<Rightarrow> Panic p
      | Ok sid \<Rightarrow>
          (case query_row fault ''get version''
                  (case projection_id sid (pi_projection i) d of
                     None \<Rightarrow> None
                   | Some _ \<Rightarrow> map_option cp_event_id
                       (List.find (\<lambda>r. cp_stream_id r = sid \<and> cp_consumer r = pi_consumer i) (db_positions (vd_db d)))) of
             Err e \<Rightarrow> (if e = ErrNoRows then Ok 0 else Err (OperationError ''get version'' e))
           | Panic p \<Rightarrow> Panic p
           | Ok v \<Rightarrow> Ok v))"

subsection \<open>What the tables show\<close>

definition entry_of :: "int64 \<Rightarrow> int64 \<Rightarrow> Key \<Rightarrow> view_db \<Rightarrow> (json \<times> int64) option" where
  "entry_of pid kid key d =
     (case Parts key of
        [k] \<Rightarrow> map_option (\<lambda>r. (sg_value r, sg_version r)) (List.find (same_single pid kid k) (vd_single d))
      | [k1, k2] \<Rightarrow> map_option (\<lambda>r. (co_value r, co_version r)) (List.find (same_composite pid kid k1 k2) (vd_composite d))
      | _ \<Rightarrow> None)"

definition kind_view :: "int64 \<Rightarrow> view_db \<Rightarrow> view" where
  "kind_view pid d kind key = (case view_kind_id kind d of None \<Rightarrow> None | Some kid \<Rightarrow> entry_of pid kid key d)"

definition pg_view :: "ProjectionIdentity \<Rightarrow> view_db \<Rightarrow> view" where
  "pg_view i d kind key =
     (case stream_id (pi_domain i) (pi_stream i) (vd_db d) of
        None \<Rightarrow> None
      | Some sid \<Rightarrow> (case projection_id sid (pi_projection i) d of None \<Rightarrow> None | Some pid \<Rightarrow> kind_view pid d kind key))"

text \<open>The constraints of the schema: primary keys below their sequences, and foreign keys.\<close>

definition view_ok :: "view_db \<Rightarrow> bool" where
  "view_ok d \<longleftrightarrow>
     distinct (map vn_id (vd_names d)) \<and> (\<forall>r \<in> set (vd_names d). vn_id r < vd_name_seq d)
     \<and> distinct (map vk_id (vd_kinds d)) \<and> (\<forall>r \<in> set (vd_kinds d). vk_id r < vd_kind_seq d)
     \<and> (\<forall>r \<in> set (vd_single d). sg_projection_id r < vd_name_seq d \<and> sg_kind_id r < vd_kind_seq d)
     \<and> (\<forall>r \<in> set (vd_composite d). co_projection_id r < vd_name_seq d \<and> co_kind_id r < vd_kind_seq d)"

definition valid_name :: "string \<Rightarrow> Key \<Rightarrow> bool" where
  "valid_name kind key \<longleftrightarrow> validateKey key = None"

lemma entry_of_simps [simp]:
  "entry_of pid kid (Key []) d = None"
  "entry_of pid kid (Key [k]) d =
     map_option (\<lambda>r. (sg_value r, sg_version r)) (List.find (same_single pid kid k) (vd_single d))"
  "entry_of pid kid (Key [k1, k2]) d =
     map_option (\<lambda>r. (co_value r, co_version r)) (List.find (same_composite pid kid k1 k2) (vd_composite d))"
  "entry_of pid kid (Key (a # b # c # ks)) d = None"
  by (simp_all add: entry_of_def)

lemma key_shapes:
  obtains (none) "key = Key []" | (single) k where "key = Key [k]" | (composite) k1 k2 where "key = Key [k1, k2]"
    | (more) a b c ks where "key = Key (a # b # c # ks)"
  by (metis Key.exhaust list.exhaust)

lemma pg_Get_view:
  assumes "stream_id (pi_domain i) (pi_stream i) (vd_db d) \<noteq> None" "valid_name kind key"
  shows "pg_Get no_faults i kind key d = Ok (as_entity kind key (pg_view i d kind key))"
proof -
  from assms(2) have "validateKey key = None" by (simp add: valid_name_def)
  then show ?thesis
    by (cases rule: validateKey_cases)
       (use assms in \<open>auto simp: pg_Get_def pg_view_def kind_view_def entry_of_def ResolveStreamID_def query_row_def
          getSingle_def getComposite_def NewKey_def as_entity_def validateKey_def split: option.splits\<close>)
qed

lemma find_upsert_same: "same row \<Longrightarrow> List.find same (upsert_row same row rows) = Some row"
proof (cases "list_ex same rows")
  case True
  assume "same row"
  with True show ?thesis by (induction rows) (auto simp: upsert_row_def find_append split: if_splits)
next
  case False
  assume "same row"
  moreover have "List.find same rows = None" using False by (simp add: find_None_iff2 list_ex_iff)
  ultimately show ?thesis using False by (simp add: upsert_row_def find_append)
qed

lemma find_upsert_other:
  assumes "\<not> P row" "\<And>r. same r \<Longrightarrow> \<not> P r"
  shows "List.find P (upsert_row same row rows) = List.find P rows"
proof -
  have "List.find P (map (\<lambda>r. if same r then row else r) rows) = List.find P rows"
    by (induction rows) (auto simp: assms)
  with assms(1) show ?thesis by (simp add: upsert_row_def find_append split: option.split)
qed

lemma find_filter_not_same: "List.find P (filter (\<lambda>r. \<not> P r) rows) = None"
  by (simp add: find_None_iff2)

lemma find_filter_other: "(\<And>r. same r \<Longrightarrow> \<not> P r) \<Longrightarrow> List.find P (filter (\<lambda>r. \<not> same r) rows) = List.find P rows"
  by (intro find_filter_all) blast

lemma set_upsert_row: "set (upsert_row same row rows) \<subseteq> insert row (set rows)"
  by (auto simp: upsert_row_def)

lemma view_kind_id_inj:
  assumes "view_ok d" "view_kind_id k d = Some i" "view_kind_id k' d = Some i"
  shows "k = k'"
proof -
  from assms(2,3) obtain x y where "x \<in> set (vd_kinds d)" "vk_id x = i" "vk_kind x = k"
    "y \<in> set (vd_kinds d)" "vk_id y = i" "vk_kind y = k'" by (auto simp: view_kind_id_def dest!: find_SomeD)
  with distinct_map_eq[of vk_id "vd_kinds d" x y] assms(1) show ?thesis by (auto simp: view_ok_def)
qed

lemma projection_id_inj:
  assumes "view_ok d" "projection_id s n d = Some i" "projection_id s' n' d = Some i"
  shows "s = s' \<and> n = n'"
proof -
  from assms(2,3) obtain x y where "x \<in> set (vd_names d)" "vn_id x = i" "vn_stream_id x = s" "vn_name x = n"
    "y \<in> set (vd_names d)" "vn_id y = i" "vn_stream_id y = s'" "vn_name y = n'"
    by (auto simp: projection_id_def dest!: find_SomeD)
  with distinct_map_eq[of vn_id "vd_names d" x y] assms(1) show ?thesis by (auto simp: view_ok_def)
qed

lemma entry_of_absent:
  assumes "view_ok d" "vd_name_seq d \<le> pid \<or> vd_kind_seq d \<le> kid"
  shows "entry_of pid kid key d = None"
proof -
  have "List.find (same_single pid kid k) (vd_single d) = None" for k
    using assms by (fastforce simp: find_None_iff2 same_single_def view_ok_def)
  moreover have "List.find (same_composite pid kid k1 k2) (vd_composite d) = None" for k1 k2
    using assms by (fastforce simp: find_None_iff2 same_composite_def view_ok_def)
  ultimately show ?thesis by (auto simp: entry_of_def split: list.split)
qed

text \<open>Only the tables matter for what they show; larger sequences do no harm.\<close>

lemma view_ok_tables:
  assumes "view_ok d" "vd_names d' = vd_names d" "vd_kinds d' = vd_kinds d" "vd_single d' = vd_single d"
    "vd_composite d' = vd_composite d" "vd_name_seq d \<le> vd_name_seq d'" "vd_kind_seq d \<le> vd_kind_seq d'"
  shows "view_ok d'"
  using assms unfolding view_ok_def by (metis order_less_le_trans)

lemma entry_of_tables:
  assumes "vd_single d' = vd_single d" "vd_composite d' = vd_composite d"
  shows "entry_of pid kid key d' = entry_of pid kid key d"
  unfolding entry_of_def assms by (rule refl)

lemma kind_view_tables:
  assumes "vd_kinds d' = vd_kinds d" "vd_single d' = vd_single d" "vd_composite d' = vd_composite d"
  shows "kind_view pid d' = kind_view pid d" and "view_kind_id k d' = view_kind_id k d"
proof -
  show k: "view_kind_id k d' = view_kind_id k d" for k by (simp add: view_kind_id_def assms)
  show "kind_view pid d' = kind_view pid d"
    by (rule ext)+ (simp add: kind_view_def k entry_of_tables[OF assms(2,3)] split: option.split)
qed

text \<open>
  \<open>sets_entry\<close>: a statement of the transaction gives one kind and key of one projection a new entry, or none,
  and leaves everything else of what the tables show.
\<close>

definition sets_entry :: "int64 \<Rightarrow> string \<Rightarrow> Key \<Rightarrow> (json \<times> int64) option \<Rightarrow> view_db \<Rightarrow> view_db \<Rightarrow> bool" where
  "sets_entry pid kind key x t t' \<longleftrightarrow>
     view_ok t' \<and> vd_names t' = vd_names t \<and> vd_name_seq t' = vd_name_seq t \<and> vd_db t' = vd_db t
     \<and> (\<forall>pid' kind' key'. kind_view pid' t' kind' key' =
          (if pid' = pid \<and> kind' = kind \<and> key' = key then x else kind_view pid' t kind' key'))"

lemma resolveKindName_ok:
  assumes "view_ok t" "resolveKindName fault kind t = (t', r)"
  shows "view_ok t' \<and> vd_names t' = vd_names t \<and> vd_name_seq t' = vd_name_seq t \<and> vd_db t' = vd_db t
    \<and> vd_single t' = vd_single t \<and> vd_composite t' = vd_composite t \<and> vd_kind_seq t \<le> vd_kind_seq t'
    \<and> (\<forall>pid. kind_view pid t' = kind_view pid t) \<and> (\<forall>kid. r = Ok kid \<longrightarrow> view_kind_id kind t' = Some kid)"
proof (cases "fault ''insert view kind''")
  case (Some e)
  with assms show ?thesis
    by (auto simp: resolveKindName_def Let_def query_row_def split: if_splits option.splits)
next
  case no_fault: None
  show ?thesis
  proof (cases "view_kind_id kind t")
    case (Some k)
    let ?t = "t\<lparr>vd_kind_seq := vd_kind_seq t + 1\<rparr>"
    have "view_ok ?t" by (rule view_ok_tables[OF assms(1)]) simp_all
    moreover have "kind_view pid ?t = kind_view pid t" "view_kind_id k ?t = view_kind_id k t" for pid k
      by (rule kind_view_tables; simp)+
    moreover have "t' = ?t" "r = query_row fault ''select view kind'' (view_kind_id kind ?t)"
      using assms(2) no_fault Some by (auto simp: resolveKindName_def Let_def)
    ultimately show ?thesis by (auto simp: query_row_def split: option.splits)
  next
    case None
    let ?t = "t\<lparr>vd_kinds := vd_kinds t @ [\<lparr>vk_id = vd_kind_seq t, vk_kind = kind\<rparr>], vd_kind_seq := vd_kind_seq t + 1\<rparr>"
    have ids: "view_kind_id k ?t = (if k = kind then Some (vd_kind_seq t) else view_kind_id k t)" for k
      using None by (auto simp: view_kind_id_def find_append split: option.splits)
    have ok: "view_ok ?t" using assms(1) by (auto simp: view_ok_def intro: less_trans)
    have same: "kind_view pid ?t = kind_view pid t" for pid
    proof (rule ext)+
      fix k key
      have e: "entry_of pid kid key ?t = entry_of pid kid key t" for kid by (rule entry_of_tables) simp_all
      show "kind_view pid ?t k key = kind_view pid t k key"
        using None entry_of_absent[OF assms(1), of pid "vd_kind_seq t" key]
        by (simp only: kind_view_def ids e) (auto split: option.split)
    qed
    have "resolveKindName fault kind t = (?t, Ok (vd_kind_seq t))"
      using no_fault None by (simp add: resolveKindName_def Let_def)
    with assms(2) have "t' = ?t" "r = Ok (vd_kind_seq t)" by auto
    with ok same ids show ?thesis by simp
  qed
qed

lemma kind_view_set:
  assumes ok: "view_ok t" and kid: "view_kind_id kind t = Some kid" and ids: "\<And>k. view_kind_id k t' = view_kind_id k t"
    and entry: "\<And>pid' kid' key'. entry_of pid' kid' key' t' =
      (if pid' = pid \<and> kid' = kid \<and> key' = key then x else entry_of pid' kid' key' t)"
  shows "kind_view pid' t' kind' key' = (if pid' = pid \<and> kind' = kind \<and> key' = key then x else kind_view pid' t kind' key')"
proof (cases "view_kind_id kind' t")
  case None
  with kid have "kind' \<noteq> kind" by auto
  with None show ?thesis by (simp add: kind_view_def ids)
next
  case (Some kid')
  with kid view_kind_id_inj[OF ok Some, of kind] have "kid' = kid \<longleftrightarrow> kind' = kind" by auto
  with Some show ?thesis by (simp add: kind_view_def ids entry)
qed

lemma exec_upsert_ok:
  assumes ok: "view_ok t" and kid: "view_kind_id kind t = Some kid" and pid: "pid < vd_name_seq t"
    and key: "validateKey key = None" and run: "exec_upsert fault pid kid key data v t = (t', Ok ())"
  shows "\<exists>doc. jsonb data = Ok doc \<and> sets_entry pid kind key (Some (doc, v)) t t'"
proof -
  from run obtain doc where doc: "jsonb data = Ok doc" "fault ''upsert'' = None"
    by (auto simp: exec_upsert_def split: option.splits outcome.splits)
  have kid_seq: "kid < vd_kind_seq t" using ok kid by (auto simp: view_ok_def view_kind_id_def dest!: find_SomeD)
  from key show ?thesis
  proof (cases rule: validateKey_cases)
    case (single a)
    let ?row = "\<lparr>sg_projection_id = pid, sg_kind_id = kid, sg_key = a, sg_value = doc, sg_version = v\<rparr>"
    have t': "t' = t\<lparr>vd_single := upsert_row (same_single pid kid a) ?row (vd_single t)\<rparr>"
      using run doc single by (simp add: exec_upsert_def)
    have ok': "view_ok t'"
      using ok pid kid_seq set_upsert_row[of "same_single pid kid a" ?row "vd_single t"]
      by (auto simp: t' view_ok_def dest!: subsetD)
    have ids: "view_kind_id k t' = view_kind_id k t" for k by (simp add: t' view_kind_id_def)
    have hit: "List.find (same_single pid kid a) (vd_single t') = Some ?row"
      unfolding t' by (simp add: find_upsert_same same_single_def)
    have miss: "List.find (same_single pid' kid' k) (vd_single t') = List.find (same_single pid' kid' k) (vd_single t)"
      if "\<not> (pid' = pid \<and> kid' = kid \<and> k = a)" for pid' kid' k
      unfolding t' using that by (simp, intro find_upsert_other) (auto simp: same_single_def)
    have entry: "entry_of pid' kid' key' t' =
        (if pid' = pid \<and> kid' = kid \<and> key' = key then Some (doc, v) else entry_of pid' kid' key' t)" for pid' kid' key'
      using hit miss[of pid' kid'] single t' by (cases key' rule: key_shapes) auto
    have "kind_view pid' t' kind' key' =
        (if pid' = pid \<and> kind' = kind \<and> key' = key then Some (doc, v) else kind_view pid' t kind' key')" for pid' kind' key'
      by (rule kind_view_set[OF ok kid ids entry])
    with doc ok' t' show ?thesis by (simp add: sets_entry_def)
  next
    case (composite a b)
    let ?row = "\<lparr>co_projection_id = pid, co_kind_id = kid, co_key1 = a, co_key2 = b, co_value = doc, co_version = v\<rparr>"
    have t': "t' = t\<lparr>vd_composite := upsert_row (same_composite pid kid a b) ?row (vd_composite t)\<rparr>"
      using run doc composite by (simp add: exec_upsert_def)
    have ok': "view_ok t'"
      using ok pid kid_seq set_upsert_row[of "same_composite pid kid a b" ?row "vd_composite t"]
      by (auto simp: t' view_ok_def dest!: subsetD)
    have ids: "view_kind_id k t' = view_kind_id k t" for k by (simp add: t' view_kind_id_def)
    have hit: "List.find (same_composite pid kid a b) (vd_composite t') = Some ?row"
      unfolding t' by (simp add: find_upsert_same same_composite_def)
    have miss: "List.find (same_composite pid' kid' k k2) (vd_composite t') = List.find (same_composite pid' kid' k k2) (vd_composite t)"
      if "\<not> (pid' = pid \<and> kid' = kid \<and> k = a \<and> k2 = b)" for pid' kid' k k2
      unfolding t' using that by (simp, intro find_upsert_other) (auto simp: same_composite_def)
    have entry: "entry_of pid' kid' key' t' =
        (if pid' = pid \<and> kid' = kid \<and> key' = key then Some (doc, v) else entry_of pid' kid' key' t)" for pid' kid' key'
      using hit miss[of pid' kid'] composite t' by (cases key' rule: key_shapes) auto
    have "kind_view pid' t' kind' key' =
        (if pid' = pid \<and> kind' = kind \<and> key' = key then Some (doc, v) else kind_view pid' t kind' key')" for pid' kind' key'
      by (rule kind_view_set[OF ok kid ids entry])
    with doc ok' t' show ?thesis by (simp add: sets_entry_def)
  qed
qed

lemma exec_delete_ok:
  assumes ok: "view_ok t" and kid: "view_kind_id kind t = Some kid"
    and key: "validateKey key = None" and run: "exec_delete fault pid kid key t = (t', Ok ())"
  shows "sets_entry pid kind key None t t'"
proof -
  from run have f: "fault ''delete'' = None" by (auto simp: exec_delete_def split: option.splits)
  have ids: "view_kind_id k t' = view_kind_id k t" for k
    using run f key by (auto simp: exec_delete_def view_kind_id_def split: list.splits)
  have ok': "view_ok t'" using run f ok by (auto simp: exec_delete_def view_ok_def split: list.splits)
  have entry: "entry_of pid' kid' key' t' =
      (if pid' = pid \<and> kid' = kid \<and> key' = key then None else entry_of pid' kid' key' t)" for pid' kid' key'
    using key
  proof (cases rule: validateKey_cases)
    case (single a)
    then have t': "t' = t\<lparr>vd_single := filter (\<lambda>r. \<not> same_single pid kid a r) (vd_single t)\<rparr>"
      using run f by (simp add: exec_delete_def)
    have "List.find (same_single pid' kid' k) (vd_single t') = List.find (same_single pid' kid' k) (vd_single t)"
      if "\<not> (pid' = pid \<and> kid' = kid \<and> k = a)" for k
      unfolding t' using that by (simp, intro find_filter_other) (auto simp: same_single_def)
    with single t' show ?thesis
      by (cases key' rule: key_shapes) (auto simp: find_filter_not_same)
  next
    case (composite a b)
    then have t': "t' = t\<lparr>vd_composite := filter (\<lambda>r. \<not> same_composite pid kid a b r) (vd_composite t)\<rparr>"
      using run f by (simp add: exec_delete_def)
    have "List.find (same_composite pid' kid' k k2) (vd_composite t') = List.find (same_composite pid' kid' k k2) (vd_composite t)"
      if "\<not> (pid' = pid \<and> kid' = kid \<and> k = a \<and> k2 = b)" for k k2
      unfolding t' using that by (simp, intro find_filter_other) (auto simp: same_composite_def)
    with composite t' show ?thesis
      by (cases key' rule: key_shapes) (auto simp: find_filter_not_same)
  qed
  have "kind_view pid' t' kind' key' =
      (if pid' = pid \<and> kind' = kind \<and> key' = key then None else kind_view pid' t kind' key')" for pid' kind' key'
    by (rule kind_view_set[OF ok kid ids entry])
  moreover have "vd_names t' = vd_names t" "vd_name_seq t' = vd_name_seq t" "vd_db t' = vd_db t"
    using run f by (auto simp: exec_delete_def split: list.splits)
  ultimately show ?thesis using ok' by (simp add: sets_entry_def)
qed

subsection \<open>Transactions\<close>

text \<open>What a value becomes in a \<open>JSONB\<close> column.\<close>

definition pg_encode :: "('v any_value \<Rightarrow> json outcome) \<Rightarrow> 'v any_value \<Rightarrow> json outcome" where
  "pg_encode marshal x = bindo (marshalValue marshal x) jsonb"

text \<open>\<open>moves_view\<close>: a part of the transaction changes the view of one projection and leaves the others.\<close>

definition moves_view :: "int64 \<Rightarrow> (view \<Rightarrow> view) \<Rightarrow> view_db \<Rightarrow> view_db \<Rightarrow> bool" where
  "moves_view pid f t t' \<longleftrightarrow>
     view_ok t' \<and> vd_names t' = vd_names t \<and> vd_name_seq t' = vd_name_seq t \<and> vd_db t' = vd_db t
     \<and> (\<forall>pid'. kind_view pid' t' = (if pid' = pid then f (kind_view pid t) else kind_view pid' t))"

definition set_view :: "string \<Rightarrow> Key \<Rightarrow> (json \<times> int64) option \<Rightarrow> view \<Rightarrow> view" where
  "set_view kind key x V = (\<lambda>kind' key'. if kind' = kind \<and> key' = key then x else V kind' key')"

lemma moves_view_trans: "moves_view pid f t t1 \<Longrightarrow> moves_view pid g t1 t2 \<Longrightarrow> moves_view pid (\<lambda>V. g (f V)) t t2"
  by (auto simp: moves_view_def)

lemma sets_entry_moves: "sets_entry pid kind key x t t' \<Longrightarrow> moves_view pid (set_view kind key x) t t'"
  by (auto simp: sets_entry_def moves_view_def set_view_def fun_eq_iff)

lemma resolveKindName_moves: "view_ok t \<Longrightarrow> resolveKindName fault kind t = (t', r) \<Longrightarrow> moves_view pid (\<lambda>V. V) t t'"
  using resolveKindName_ok[of t fault kind t' r] by (auto simp: moves_view_def)

lemma applyUpsert_ok:
  assumes ok: "view_ok t" and pid: "pid < vd_name_seq t" and run: "applyUpsert fault marshal pid v u t = (t', Ok ())"
  shows "\<exists>doc. pg_encode marshal (up_value u) = Ok doc \<and> moves_view pid (set_view (up_kind u) (up_key u) (Some (doc, v))) t t'"
proof -
  from run obtain data t1 kid where data: "marshalValue marshal (up_value u) = Ok data"
    and kid: "resolveKindName fault (up_kind u) t = (t1, Ok kid)" and key: "validateKey (up_key u) = None"
    and ex: "exec_upsert fault pid kid (up_key u) data v t1 = (t', Ok ())"
    by (auto simp: applyUpsert_def split: outcome.splits prod.splits option.splits)
  from resolveKindName_ok[OF ok kid] pid have t1: "view_ok t1" "view_kind_id (up_kind u) t1 = Some kid" "pid < vd_name_seq t1" by auto
  from exec_upsert_ok[OF t1 key ex] obtain doc where "jsonb data = Ok doc" "sets_entry pid (up_kind u) (up_key u) (Some (doc, v)) t1 t'"
    by blast
  with moves_view_trans[OF resolveKindName_moves[OF ok kid] sets_entry_moves] data show ?thesis
    by (auto simp: pg_encode_def)
qed

lemma applyDelete_ok:
  assumes ok: "view_ok t" and run: "applyDelete fault pid d t = (t', Ok ())"
  shows "moves_view pid (set_view (de_kind d) (de_key d) None) t t'"
proof -
  from run obtain t1 kid where kid: "resolveKindName fault (de_kind d) t = (t1, Ok kid)" and key: "validateKey (de_key d) = None"
    and ex: "exec_delete fault pid kid (de_key d) t1 = (t', Ok ())"
    by (auto simp: applyDelete_def split: outcome.splits prod.splits option.splits)
  from resolveKindName_ok[OF ok kid] have "view_ok t1" "view_kind_id (de_kind d) t1 = Some kid" by auto
  from moves_view_trans[OF resolveKindName_moves[OF ok kid] sets_entry_moves[OF exec_delete_ok[OF this key ex]]]
  show ?thesis by simp
qed

lemma mutated_upsert:
  assumes "enc (up_value u) = Ok doc" "\<forall>w \<in> set us. is_ok (enc (up_value w))"
  shows "mutated enc v (Some \<lparr>rr_upserts = u # us, rr_deletes = []\<rparr>) V =
   mutated enc v (Some \<lparr>rr_upserts = us, rr_deletes = []\<rparr>) (set_view (up_kind u) (up_key u) (Some (doc, v)) V)"
proof (rule ext)+
  fix kind key
  show "mutated enc v (Some \<lparr>rr_upserts = u # us, rr_deletes = []\<rparr>) V kind key =
    mutated enc v (Some \<lparr>rr_upserts = us, rr_deletes = []\<rparr>) (set_view (up_kind u) (up_key u) (Some (doc, v)) V) kind key"
  proof (cases "List.find (\<lambda>u. up_kind u = kind \<and> up_key u = key) (rev us)")
    case None
    with assms(1) show ?thesis by (simp add: mutated_def find_append set_view_def)
  next
    case (Some w)
    with assms(2) have "is_ok (enc (up_value w))" by (auto dest!: find_SomeD)
    with Some show ?thesis by (auto simp: mutated_def find_append is_ok_iff)
  qed
qed

lemma mutated_delete:
  "mutated enc v (Some \<lparr>rr_upserts = [], rr_deletes = d # ds\<rparr>) V =
   mutated enc v (Some \<lparr>rr_upserts = [], rr_deletes = ds\<rparr>) (set_view (de_kind d) (de_key d) None V)"
  by (rule ext)+ (auto simp: mutated_def set_view_def)

lemma mutated_both:
  "mutated enc v (Some \<lparr>rr_upserts = [], rr_deletes = rr_deletes r\<rparr>) (mutated enc v (Some \<lparr>rr_upserts = rr_upserts r, rr_deletes = []\<rparr>) V) =
   mutated enc v (Some r) V"
  by (rule ext)+ (simp add: mutated_def)

lemma mutated_cong: "V kind key = V' kind key \<Longrightarrow> mutated enc v result V kind key = mutated enc v result V' kind key"
  by (simp add: mutated_def split: option.split outcome.split)

lemma mutated_nothing: "mutated enc v (Some \<lparr>rr_upserts = [], rr_deletes = []\<rparr>) V = V"
  by (rule ext)+ (simp add: mutated_def)

lemma applyUpserts_ok:
  "view_ok t \<Longrightarrow> pid < vd_name_seq t \<Longrightarrow> for_each (applyUpsert fault marshal pid v) us t = (t', Ok ()) \<Longrightarrow>
   moves_view pid (mutated (pg_encode marshal) v (Some \<lparr>rr_upserts = us, rr_deletes = []\<rparr>)) t t'
     \<and> (\<forall>u \<in> set us. is_ok (pg_encode marshal (up_value u)))"
proof (induction us arbitrary: t)
  case Nil
  then show ?case by (simp add: moves_view_def mutated_nothing)
next
  case (Cons u us)
  from Cons.prems(3) obtain t1 where u: "applyUpsert fault marshal pid v u t = (t1, Ok ())"
    and us: "for_each (applyUpsert fault marshal pid v) us t1 = (t', Ok ())"
    by (auto split: outcome.splits prod.splits)
  from applyUpsert_ok[OF Cons.prems(1,2) u] obtain doc where doc: "pg_encode marshal (up_value u) = Ok doc"
    and m: "moves_view pid (set_view (up_kind u) (up_key u) (Some (doc, v))) t t1" by blast
  then have "view_ok t1" "pid < vd_name_seq t1" using Cons.prems(2) by (auto simp: moves_view_def)
  from Cons.IH[OF this us] have rest: "\<forall>u \<in> set us. is_ok (pg_encode marshal (up_value u))"
    and m2: "moves_view pid (mutated (pg_encode marshal) v (Some \<lparr>rr_upserts = us, rr_deletes = []\<rparr>)) t1 t'" by auto
  have "moves_view pid (mutated (pg_encode marshal) v (Some \<lparr>rr_upserts = u # us, rr_deletes = []\<rparr>)) t t'"
    using moves_view_trans[OF m m2]
    by (simp only: mutated_upsert[where enc = "pg_encode marshal" and u = u and doc = doc and us = us, OF doc rest, symmetric])
  with rest doc show ?case by simp
qed

lemma applyDeletes_ok:
  "view_ok t \<Longrightarrow> for_each (applyDelete fault pid) ds t = (t', Ok ()) \<Longrightarrow>
   moves_view pid (mutated enc v (Some \<lparr>rr_upserts = [], rr_deletes = ds\<rparr>)) t t'"
proof (induction ds arbitrary: t)
  case Nil
  then show ?case by (simp add: moves_view_def mutated_nothing)
next
  case (Cons d ds)
  from Cons.prems(2) obtain t1 where d: "applyDelete fault pid d t = (t1, Ok ())"
    and ds: "for_each (applyDelete fault pid) ds t1 = (t', Ok ())"
    by (auto split: outcome.splits prod.splits)
  from applyDelete_ok[OF Cons.prems(1) d] have m: "moves_view pid (set_view (de_kind d) (de_key d) None) t t1" .
  then have "view_ok t1" by (simp add: moves_view_def)
  from moves_view_trans[OF m Cons.IH[OF this ds]] show ?case by (simp only: mutated_delete[symmetric])
qed

lemma applyMutations_ok:
  assumes "view_ok t" "pid < vd_name_seq t" "applyMutations fault marshal pid r v t = (t', Ok c)"
  shows "moves_view pid (mutated (pg_encode marshal) v (Some r)) t t' \<and> c = change_of r v"
proof -
  from assms(3) obtain t1 where u: "for_each (applyUpsert fault marshal pid v) (rr_upserts r) t = (t1, Ok ())"
    and d: "for_each (applyDelete fault pid) (rr_deletes r) t1 = (t', Ok ())" and c: "c = change_of r v"
    by (auto simp: applyMutations_def change_of_def split: outcome.splits prod.splits)
  from applyUpserts_ok[OF assms(1,2) u] have m: "moves_view pid (mutated (pg_encode marshal) v (Some \<lparr>rr_upserts = rr_upserts r, rr_deletes = []\<rparr>)) t t1" ..
  then have "view_ok t1" by (simp add: moves_view_def)
  from moves_view_trans[OF m applyDeletes_ok[OF this d, where enc = "pg_encode marshal" and v = v]]
  have "moves_view pid (mutated (pg_encode marshal) v (Some r)) t t'" by (simp only: mutated_both)
  with c show ?thesis by simp
qed

text \<open>Whatever happens, sequences only grow.\<close>

definition seqs_grow :: "view_db \<Rightarrow> view_db \<Rightarrow> bool" where
  "seqs_grow t t' \<longleftrightarrow> vd_name_seq t \<le> vd_name_seq t' \<and> vd_kind_seq t \<le> vd_kind_seq t'"

lemma seqs_grow_trans: "seqs_grow a b \<Longrightarrow> seqs_grow b c \<Longrightarrow> seqs_grow a c"
  by (auto simp: seqs_grow_def)

lemma resolveKindName_seqs: "seqs_grow t (fst (resolveKindName fault kind t))"
  by (auto simp: resolveKindName_def seqs_grow_def Let_def split: option.split)

lemma exec_upsert_seqs: "exec_upsert fault pid kid key data v t = (t', r) \<Longrightarrow> seqs_grow t t'"
  by (auto simp: exec_upsert_def seqs_grow_def split: option.splits outcome.splits list.splits)

lemma exec_delete_seqs: "exec_delete fault pid kid key t = (t', r) \<Longrightarrow> seqs_grow t t'"
  by (auto simp: exec_delete_def seqs_grow_def split: option.splits list.splits)

lemma applyUpsert_seqs: "seqs_grow t (fst (applyUpsert fault marshal pid v u t))"
proof (cases "marshalValue marshal (up_value u)")
  case (Ok data)
  obtain t1 r1 where k: "resolveKindName fault (up_kind u) t = (t1, r1)" by fastforce
  with resolveKindName_seqs[of t fault "up_kind u"] have g: "seqs_grow t t1" by simp
  with Ok k show ?thesis
    by (auto simp: applyUpsert_def split: outcome.splits option.splits prod.splits
        intro: seqs_grow_trans[OF _ exec_upsert_seqs])
qed (simp_all add: applyUpsert_def seqs_grow_def)

lemma applyDelete_seqs: "seqs_grow t (fst (applyDelete fault pid d t))"
proof -
  obtain t1 r1 where k: "resolveKindName fault (de_kind d) t = (t1, r1)" by fastforce
  with resolveKindName_seqs[of t fault "de_kind d"] have g: "seqs_grow t t1" by simp
  with k show ?thesis
    by (auto simp: applyDelete_def split: outcome.splits option.splits prod.splits
        intro: seqs_grow_trans[OF _ exec_delete_seqs])
qed

lemma applyMutations_seqs: "seqs_grow t (fst (applyMutations fault marshal pid r v t))"
proof -
  have u: "seqs_grow t (fst (for_each (applyUpsert fault marshal pid v) (rr_upserts r) t))" for t
    by (rule for_each_inv) (auto intro: seqs_grow_trans applyUpsert_seqs simp: seqs_grow_def[of t t])
  have d: "seqs_grow t (fst (for_each (applyDelete fault pid) (rr_deletes r) t))" for t
    by (rule for_each_inv) (auto intro: seqs_grow_trans applyDelete_seqs simp: seqs_grow_def[of t t])
  obtain t1 r1 where 1: "for_each (applyUpsert fault marshal pid v) (rr_upserts r) t = (t1, r1)" by fastforce
  obtain t2 r2 where 2: "for_each (applyDelete fault pid) (rr_deletes r) t1 = (t2, r2)" by fastforce
  from u[of t] d[of t1] 1 2 have "seqs_grow t t1" "seqs_grow t t2" by (auto intro: seqs_grow_trans)
  with 1 2 show ?thesis by (auto simp: applyMutations_def split: outcome.split)
qed

lemma resolveProjectionName_seqs: "seqs_grow t (fst (resolveProjectionName fault sid i t))"
  by (auto simp: resolveProjectionName_def seqs_grow_def Let_def split: option.split)

lemma applyAndRecord_seqs: "seqs_grow t (fst (applyAndRecord fault marshal i result v c t))"
proof (cases "ResolveStreamID fault (pi_domain i) (pi_stream i) c")
  case (Ok sid)
  obtain t1 r1 where 1: "resolveProjectionName fault sid i t = (t1, r1)" by fastforce
  from resolveProjectionName_seqs[of t fault sid i] 1 have g1: "seqs_grow t t1" by simp
  show ?thesis
  proof (cases r1)
    case p: (Ok pid)
    obtain t2 r2 where 2: "applyMutations fault marshal pid (result_of result) v t1 = (t2, r2)" by fastforce
    from applyMutations_seqs[of t1 fault marshal pid "result_of result" v] 2 g1 have g2: "seqs_grow t t2"
      by (auto intro: seqs_grow_trans)
    have "seqs_grow t2 t3" if "writePosition fault sid (pi_consumer i) v t2 = (t3, r3)" for t3 r3
      using that by (auto simp: writePosition_def seqs_grow_def Let_def split: option.splits)
    with g2 1 2 Ok p show ?thesis
      by (auto simp: applyAndRecord_def Let_def split: outcome.splits prod.splits intro: seqs_grow_trans)
  qed (use 1 Ok g1 in \<open>auto simp: applyAndRecord_def Let_def\<close>)
qed (simp_all add: applyAndRecord_def Let_def seqs_grow_def)

definition projection_view :: "int64 \<Rightarrow> string \<Rightarrow> view_db \<Rightarrow> view" where
  "projection_view sid name t = (case projection_id sid name t of None \<Rightarrow> no_view | Some pid \<Rightarrow> kind_view pid t)"

lemma pg_view_projection:
  "pg_view i d = (case stream_id (pi_domain i) (pi_stream i) (vd_db d) of
     None \<Rightarrow> no_view | Some sid \<Rightarrow> projection_view sid (pi_projection i) d)"
  by (rule ext)+ (auto simp: pg_view_def projection_view_def split: option.split)

lemma resolveProjectionName_ok:
  assumes ok: "view_ok t" and run: "resolveProjectionName fault sid i t = (t', r)"
  shows "view_ok t' \<and> vd_db t' = vd_db t \<and> (\<forall>s n. projection_view s n t' = projection_view s n t)
    \<and> (\<forall>pid. r = Ok pid \<longrightarrow> projection_id sid (pi_projection i) t' = Some pid \<and> pid < vd_name_seq t')"
proof -
  have below: "pid < vd_name_seq t" if "projection_id s n t = Some pid" for s n pid
    using that ok by (auto simp: projection_id_def view_ok_def dest!: find_SomeD)
  show ?thesis
  proof (cases "fault ''insert projection name''")
    case (Some e)
    with ok run below show ?thesis
      by (auto simp: resolveProjectionName_def Let_def query_row_def split: if_splits option.splits)
  next
    case no_fault: None
    show ?thesis
    proof (cases "projection_id sid (pi_projection i) t")
      case (Some p)
      let ?t = "t\<lparr>vd_name_seq := vd_name_seq t + 1\<rparr>"
      have "view_ok ?t" by (rule view_ok_tables[OF ok]) simp_all
      moreover have "projection_id s n ?t = projection_id s n t" for s n by (simp add: projection_id_def)
      moreover have "kind_view pid ?t = kind_view pid t" for pid by (rule kind_view_tables) simp_all
      moreover have "t' = ?t" "r = query_row fault ''select projection name'' (projection_id sid (pi_projection i) ?t)"
        using run no_fault Some by (auto simp: resolveProjectionName_def Let_def)
      ultimately show ?thesis using below[OF Some] Some
        by (auto simp: query_row_def projection_view_def split: option.splits)
    next
      case None
      let ?t = "t\<lparr>vd_names := vd_names t @ [\<lparr>vn_id = vd_name_seq t, vn_stream_id = sid, vn_name = pi_projection i\<rparr>],
                  vd_name_seq := vd_name_seq t + 1\<rparr>"
      have ids: "projection_id s n ?t = (if s = sid \<and> n = pi_projection i then Some (vd_name_seq t) else projection_id s n t)" for s n
        using None by (auto simp: projection_id_def find_append split: option.splits)
      have "view_ok ?t" using ok by (auto simp: view_ok_def intro: less_trans)
      moreover have kv: "kind_view pid ?t = kind_view pid t" for pid by (rule kind_view_tables) simp_all
      have empty: "kind_view (vd_name_seq t) t = no_view"
        by (rule ext)+ (simp add: kind_view_def entry_of_absent[OF ok] split: option.split)
      have "projection_view s n ?t = projection_view s n t" for s n
        using None empty by (simp add: projection_view_def ids kv split: option.split)
      moreover have "t' = ?t" "r = Ok (vd_name_seq t)"
        using run no_fault None by (auto simp: resolveProjectionName_def Let_def)
      ultimately show ?thesis using ids by simp
    qed
  qed
qed

text \<open>The position that \<open>consumer_positions\<close> has for a consumer.\<close>

definition position_of :: "int64 \<Rightarrow> string \<Rightarrow> view_db \<Rightarrow> int64 option" where
  "position_of sid consumer d =
     map_option cp_event_id (List.find (\<lambda>r. cp_stream_id r = sid \<and> cp_consumer r = consumer) (db_positions (vd_db d)))"

lemma writePosition_ok:
  assumes "writePosition fault sid consumer v t = (t', Ok ())"
  shows "position_of s c t' = (if s = sid \<and> c = consumer then high_water (position_of s c t) [v] else position_of s c t)
    \<and> vd_names t' = vd_names t \<and> vd_name_seq t' = vd_name_seq t \<and> vd_kinds t' = vd_kinds t \<and> vd_kind_seq t' = vd_kind_seq t
    \<and> vd_single t' = vd_single t \<and> vd_composite t' = vd_composite t \<and> db_streams (vd_db t') = db_streams (vd_db t)"
proof -
  let ?rows = "db_positions (vd_db t)"
  let ?same = "\<lambda>s c r. cp_stream_id r = s \<and> cp_consumer r = c"
  let ?f = "\<lambda>r. if ?same sid consumer r \<and> cp_event_id r \<le> v then r\<lparr>cp_event_id := v\<rparr> else r"
  have f: "fault ''update consumer position'' = None" using assms by (auto simp: writePosition_def split: option.splits)
  have map: "List.find (?same s c) (map ?f ?rows) = map_option ?f (List.find (?same s c) ?rows)"
    by (rule find_map_key) simp
  show ?thesis
  proof (cases "list_ex (?same sid consumer) ?rows")
    case True
    then obtain r where r: "List.find (?same sid consumer) ?rows = Some r"
      by (metis (no_types, lifting) find_None_iff2 list_ex_iff option.exhaust)
    have t': "db_positions (vd_db t') = map ?f ?rows"
      using assms f True by (auto simp: writePosition_def Let_def)
    have "position_of s c t' = (if s = sid \<and> c = consumer then high_water (position_of s c t) [v] else position_of s c t)"
    proof (cases "s = sid \<and> c = consumer")
      case True
      with r map find_SomeD[OF r] show ?thesis by (simp add: position_of_def t' max_def)
    next
      case False
      then have "map_option cp_event_id (map_option ?f (List.find (?same s c) ?rows)) = map_option cp_event_id (List.find (?same s c) ?rows)"
        by (cases "List.find (?same s c) ?rows") (auto dest!: find_SomeD)
      then have "position_of s c t' = position_of s c t" unfolding position_of_def t' map .
      with False show ?thesis by auto
    qed
    with assms f show ?thesis by (auto simp: writePosition_def Let_def)
  next
    case False
    then have none: "List.find (?same sid consumer) ?rows = None" by (simp add: find_None_iff2 list_ex_iff)
    have t': "db_positions (vd_db t') = ?rows @ [\<lparr>cp_stream_id = sid, cp_consumer = consumer, cp_consumer_id = None, cp_event_id = v\<rparr>]"
      using assms f False by (auto simp: writePosition_def Let_def)
    have "position_of s c t' = (if s = sid \<and> c = consumer then high_water (position_of s c t) [v] else position_of s c t)"
      using none by (auto simp: position_of_def t' find_append split: option.split)
    with assms f show ?thesis by (auto simp: writePosition_def Let_def)
  qed
qed

lemma projection_view_tables:
  assumes "vd_names d' = vd_names d" "\<And>pid. kind_view pid d' = kind_view pid d"
  shows "projection_view s n d' = projection_view s n d"
proof -
  have "projection_id s n d' = projection_id s n d" by (simp add: projection_id_def assms(1))
  then show ?thesis by (cases "projection_id s n d") (simp_all add: projection_view_def assms(2))
qed

lemma moves_projection_view:
  assumes "view_ok t" "moves_view pid f t t'" "projection_id sid name t = Some pid"
  shows "projection_view s n t' = (if s = sid \<and> n = name then f (projection_view s n t) else projection_view s n t)"
proof -
  have ids: "projection_id s n t' = projection_id s n t" using assms(2) by (simp add: moves_view_def projection_id_def)
  show ?thesis
  proof (cases "projection_id s n t")
    case None
    with assms(3) have "\<not> (s = sid \<and> n = name)" by auto
    with None show ?thesis by (auto simp: projection_view_def ids)
  next
    case (Some p)
    have "p = pid \<longleftrightarrow> s = sid \<and> n = name"
      using projection_id_inj[OF assms(1) Some, of sid name] assms(3) Some by auto
    with Some assms(2) ids show ?thesis
      by (cases "s = sid \<and> n = name") (auto simp: projection_view_def moves_view_def)
  qed
qed

lemma applyAndRecord_ok:
  assumes ok: "view_ok t" and run: "applyAndRecord fault marshal i result v c t = (t', Ok ch)"
  obtains sid where "stream_id (pi_domain i) (pi_stream i) (vd_db c) = Some sid" "view_ok t'" "ch = change_of (result_of result) v"
    "db_streams (vd_db t') = db_streams (vd_db t)"
    "\<And>s n. projection_view s n t' = (if s = sid \<and> n = pi_projection i
        then mutated (pg_encode marshal) v result (projection_view s n t) else projection_view s n t)"
    "\<And>s co. position_of s co t' =
       (if s = sid \<and> co = pi_consumer i then high_water (position_of s co t) [v] else position_of s co t)"
proof -
  from run obtain sid t1 pid t2 where sid: "ResolveStreamID fault (pi_domain i) (pi_stream i) c = Ok sid"
    and p: "resolveProjectionName fault sid i t = (t1, Ok pid)"
    and m: "applyMutations fault marshal pid (result_of result) v t1 = (t2, Ok ch)"
    and w: "writePosition fault sid (pi_consumer i) v t2 = (t', Ok ())"
    by (auto simp: applyAndRecord_def Let_def split: outcome.splits prod.splits)
  from resolveProjectionName_ok[OF ok p] have t1: "view_ok t1" "vd_db t1 = vd_db t" "pid < vd_name_seq t1"
    "projection_id sid (pi_projection i) t1 = Some pid" "\<And>s n. projection_view s n t1 = projection_view s n t" by auto
  from applyMutations_ok[OF t1(1,3) m] have t2: "moves_view pid (mutated (pg_encode marshal) v (Some (result_of result))) t1 t2"
    "ch = change_of (result_of result) v" by auto
  have W: "vd_names t' = vd_names t2" "vd_name_seq t' = vd_name_seq t2" "vd_kinds t' = vd_kinds t2" "vd_kind_seq t' = vd_kind_seq t2"
    "vd_single t' = vd_single t2" "vd_composite t' = vd_composite t2" "db_streams (vd_db t') = db_streams (vd_db t2)"
    using writePosition_ok[OF w] by auto
  show ?thesis
  proof
    show "stream_id (pi_domain i) (pi_stream i) (vd_db c) = Some sid"
      using sid by (auto simp: ResolveStreamID_def query_row_def split: option.splits if_splits)
    show "view_ok t'" by (rule view_ok_tables[of t2]) (use t2 W in \<open>auto simp: moves_view_def\<close>)
    show "ch = change_of (result_of result) v" by (rule t2(2))
    show "db_streams (vd_db t') = db_streams (vd_db t)" using W t1(2) t2(1) by (simp add: moves_view_def)
    show "projection_view s n t' = (if s = sid \<and> n = pi_projection i
        then mutated (pg_encode marshal) v result (projection_view s n t) else projection_view s n t)" for s n
    proof -
      have "projection_view s n t' = projection_view s n t2"
        by (rule projection_view_tables[OF W(1) kind_view_tables(1)[OF W(3,5,6)]])
      also have "\<dots> = (if s = sid \<and> n = pi_projection i
          then mutated (pg_encode marshal) v (Some (result_of result)) (projection_view s n t) else projection_view s n t)"
        using moves_projection_view[OF t1(1) t2(1) t1(4)] t1(5) by simp
      also have "mutated (pg_encode marshal) v (Some (result_of result)) = mutated (pg_encode marshal) v result"
        by (rule ext)+ (simp add: mutated_result_of result_of_def split: option.split)
      finally show ?thesis .
    qed
    show "position_of s co t' =
       (if s = sid \<and> co = pi_consumer i then high_water (position_of s co t) [v] else position_of s co t)" for s co
    proof -
      have "vd_db t2 = vd_db t" using t1(2) t2(1) by (simp add: moves_view_def)
      then have "position_of s co t2 = position_of s co t" by (simp add: position_of_def)
      with writePosition_ok[OF w, of s co] show ?thesis by auto
    qed
  qed
qed

subsection \<open>Persist\<close>

text \<open>Two identities name the same stored view.\<close>

definition same_projection :: "ProjectionIdentity \<Rightarrow> ProjectionIdentity \<Rightarrow> bool" where
  "same_projection i j \<longleftrightarrow> pi_domain i = pi_domain j \<and> pi_stream i = pi_stream j \<and> pi_projection i = pi_projection j"

lemma stream_id_streams: "db_streams d' = db_streams d \<Longrightarrow> stream_id a s d' = stream_id a s d"
  by (simp add: stream_id_def)

lemma view_rollback_keeps:
  assumes "view_ok d" "seqs_grow d t"
  shows "view_ok (view_rollback d t)" "pg_view i (view_rollback d t) = pg_view i d"
    "position_of s c (view_rollback d t) = position_of s c d"
    "db_streams (vd_db (view_rollback d t)) = db_streams (vd_db d)"
proof -
  show "view_ok (view_rollback d t)"
    by (rule view_ok_tables[OF assms(1)]) (use assms(2) in \<open>simp_all add: view_rollback_def seqs_grow_def\<close>)
  have "projection_view s n (view_rollback d t) = projection_view s n d" for s n
    by (rule projection_view_tables[OF _ kind_view_tables(1)]) (simp_all add: view_rollback_def)
  moreover have "stream_id a b (vd_db (view_rollback d t)) = stream_id a b (vd_db d)" for a b
    by (rule stream_id_streams) (simp add: view_rollback_def rollback_def)
  ultimately show "pg_view i (view_rollback d t) = pg_view i d"
    by (simp add: pg_view_projection split: option.split)
  show "position_of s c (view_rollback d t) = position_of s c d"
    by (simp add: position_of_def view_rollback_def rollback_def)
  show "db_streams (vd_db (view_rollback d t)) = db_streams (vd_db d)"
    by (simp add: view_rollback_def rollback_def)
qed

lemma pg_Persist_failed:
  assumes ok: "view_ok d" and run: "pg_Persist marshal i fault result v d = (d', r)" and failed: "\<not> is_ok r"
  shows "view_ok d' \<and> (\<forall>j. pg_view j d' = pg_view j d) \<and> (\<forall>s c. position_of s c d' = position_of s c d)
    \<and> db_streams (vd_db d') = db_streams (vd_db d)"
proof (cases "fault ''begin''")
  case (Some e)
  with run ok show ?thesis by (simp add: pg_Persist_def)
next
  case None
  obtain t r1 where t: "applyAndRecord fault marshal i result v d d = (t, r1)" by fastforce
  with applyAndRecord_seqs[of d fault marshal i result v d] have g: "seqs_grow d t" by simp
  from run failed None t have "d' = view_rollback d t"
    by (auto simp: pg_Persist_def split: outcome.splits option.splits)
  with view_rollback_keeps[OF ok g] show ?thesis by simp
qed

lemma pg_Persist_done:
  assumes ok: "view_ok d" "distinct (map es_id (db_streams (vd_db d)))"
    and run: "pg_Persist marshal i fault result v d = (d', Ok ch)"
  obtains sid where "stream_id (pi_domain i) (pi_stream i) (vd_db d) = Some sid" "view_ok d'" "ch = change_of (result_of result) v"
    "db_streams (vd_db d') = db_streams (vd_db d)"
    "\<And>j. pg_view j d' = (if same_projection i j then mutated (pg_encode marshal) v result (pg_view j d) else pg_view j d)"
    "\<And>s c. position_of s c d' = (if s = sid \<and> c = pi_consumer i then high_water (position_of s c d) [v] else position_of s c d)"
proof -
  from run have t: "applyAndRecord fault marshal i result v d d = (d', Ok ch)"
    by (auto simp: pg_Persist_def split: outcome.splits option.splits prod.splits)
  from applyAndRecord_ok[OF ok(1) t] obtain sid where sid: "stream_id (pi_domain i) (pi_stream i) (vd_db d) = Some sid"
    and d': "view_ok d'" "ch = change_of (result_of result) v" "db_streams (vd_db d') = db_streams (vd_db d)"
    and view: "\<And>s n. projection_view s n d' = (if s = sid \<and> n = pi_projection i
        then mutated (pg_encode marshal) v result (projection_view s n d) else projection_view s n d)"
    and pos: "\<And>s co. position_of s co d' =
       (if s = sid \<and> co = pi_consumer i then high_water (position_of s co d) [v] else position_of s co d)" by blast
  have same: "s = sid \<and> pi_projection j = pi_projection i \<longleftrightarrow> same_projection i j"
    if "stream_id (pi_domain j) (pi_stream j) (vd_db d) = Some s" for j s
  proof -
    from that sid obtain x y where "x \<in> set (db_streams (vd_db d))" "es_id x = s" "es_app x = pi_domain j" "es_stream x = pi_stream j"
      "y \<in> set (db_streams (vd_db d))" "es_id y = sid" "es_app y = pi_domain i" "es_stream y = pi_stream i"
      by (auto simp: stream_id_def dest!: find_SomeD)
    with distinct_map_eq[OF ok(2), of x y] that sid show ?thesis by (auto simp: same_projection_def)
  qed
  have "pg_view j d' = (if same_projection i j then mutated (pg_encode marshal) v result (pg_view j d) else pg_view j d)" for j
  proof (cases "stream_id (pi_domain j) (pi_stream j) (vd_db d)")
    case None
    with sid have "\<not> same_projection i j" by (auto simp: same_projection_def)
    with None show ?thesis by (simp add: pg_view_projection stream_id_streams[OF d'(3)])
  next
    case (Some s)
    have "pg_view j d' = projection_view s (pi_projection j) d'" "pg_view j d = projection_view s (pi_projection j) d"
      using Some by (simp_all add: pg_view_projection stream_id_streams[OF d'(3)])
    with view[of s "pi_projection j"] same[OF Some] show ?thesis by auto
  qed
  with that sid d' pos show ?thesis by blast
qed

text \<open>The states in which the store of a projection keeps its contract.\<close>

definition pg_ready :: "ProjectionIdentity \<Rightarrow> view_db \<Rightarrow> bool" where
  "pg_ready i d \<longleftrightarrow> view_ok d \<and> distinct (map es_id (db_streams (vd_db d)))
     \<and> stream_id (pi_domain i) (pi_stream i) (vd_db d) \<noteq> None"

lemma pg_ready_shows:
  "pg_ready i d \<Longrightarrow> shows_view (pg_Get no_faults i) valid_name d V \<longleftrightarrow> (\<forall>kind key. valid_name kind key \<longrightarrow> V kind key = pg_view i d kind key)"
proof -
  assume d: "pg_ready i d"
  have inj: "as_entity kind key x = as_entity kind key y \<longleftrightarrow> x = y" for kind key x y
    by (cases x; cases y) (auto simp: as_entity_def)
  from d show ?thesis by (auto simp: shows_view_def pg_Get_view pg_ready_def inj)
qed

lemma pg_ready_Persist: "pg_ready i d \<Longrightarrow> pg_ready i (fst (pg_Persist marshal j fault result v d))"
proof -
  assume d: "pg_ready i d"
  obtain d' r where run: "pg_Persist marshal j fault result v d = (d', r)" by fastforce
  have keeps: "view_ok d' \<and> db_streams (vd_db d') = db_streams (vd_db d)"
  proof (cases "is_ok r")
    case True
    then obtain ch where "r = Ok ch" by (auto simp: is_ok_iff)
    with d run pg_Persist_done[of d marshal j fault result v d' ch] show ?thesis by (auto simp: pg_ready_def)
  next
    case False
    with d run pg_Persist_failed[of d marshal j fault result v d' r] show ?thesis by (simp add: pg_ready_def)
  qed
  then have "stream_id a b (vd_db d') = stream_id a b (vd_db d)" for a b by (intro stream_id_streams) simp
  with d run keeps show ?thesis by (simp add: pg_ready_def)
qed

lemma pg_Persist_view:
  assumes "pg_ready i d" "pg_Persist marshal i fault result v d = (d', Ok c)"
  shows "pg_view i d' = mutated (pg_encode marshal) v result (pg_view i d)"
proof -
  from assms(1) have "view_ok d" "distinct (map es_id (db_streams (vd_db d)))" by (simp_all add: pg_ready_def)
  from pg_Persist_done[OF this assms(2)] obtain
    "\<And>j. pg_view j d' = (if same_projection i j then mutated (pg_encode marshal) v result (pg_view j d) else pg_view j d)" by blast
  from this[of i] show ?thesis by (simp add: same_projection_def)
qed

interpretation postgres_views: atomic_view_store "pg_Get no_faults i" "pg_Persist marshal i" "pg_encode marshal" "pg_ready i" valid_name
proof
  fix d V result v fault d' c r
  show "\<exists>V. shows_view (pg_Get no_faults i) valid_name d V" if "pg_ready i d"
    using pg_ready_shows[OF that, of "pg_view i d"] by (intro exI[of _ "pg_view i d"]) simp
  show "pg_ready i (fst (pg_Persist marshal i fault result v d))" if "pg_ready i d"
    using that by (rule pg_ready_Persist)
  show "shows_view (pg_Get no_faults i) valid_name d' (mutated (pg_encode marshal) v result V) \<and> ch_version c = v"
    if d: "pg_ready i d" and V: "shows_view (pg_Get no_faults i) valid_name d V" and run: "pg_Persist marshal i fault result v d = (d', Ok c)"
  proof -
    have d': "pg_ready i d'" using pg_ready_Persist[OF d, of marshal i fault result v] run by simp
    from d run obtain sid where ch: "c = change_of (result_of result) v"
      and view: "\<And>j. pg_view j d' = (if same_projection i j then mutated (pg_encode marshal) v result (pg_view j d) else pg_view j d)"
      using pg_Persist_done[of d marshal i fault result v d' c] by (metis pg_ready_def)
    have "mutated (pg_encode marshal) v result V kind key = pg_view i d' kind key" if "valid_name kind key" for kind key
      using that V pg_ready_shows[OF d, of V] view[of i]
      by (auto simp: same_projection_def intro: mutated_cong)
    with pg_ready_shows[OF d'] ch show ?thesis by (simp add: change_of_def)
  qed
  show "shows_view (pg_Get no_faults i) valid_name d' V"
    if d: "pg_ready i d" and run: "pg_Persist marshal i fault result v d = (d', r)" and "\<not> is_ok r"
      and V: "shows_view (pg_Get no_faults i) valid_name d V"
  proof -
    have d': "pg_ready i d'" using pg_ready_Persist[OF d, of marshal i fault result v] run by simp
    from pg_Persist_failed[OF _ run \<open>\<not> is_ok r\<close>] d have "pg_view i d' = pg_view i d" by (simp add: pg_ready_def)
    with V pg_ready_shows[OF d] pg_ready_shows[OF d'] show ?thesis by simp
  qed
qed

subsection \<open>Resuming\<close>

text \<open>
  An attempt at projecting a stream: the pump resumes after the position that is stored for the
  projection's consumer and is delivered the events of the projection's kinds beyond it; it stops at the
  first that fails. \<open>f\<close> gives the faults during the handling of an event. Identifiers start at 1, and a
  consumer without a position starts at the beginning.
\<close>

definition stored_position :: "ProjectionIdentity \<Rightarrow> view_db \<Rightarrow> int64" where
  "stored_position i d =
     (case stream_id (pi_domain i) (pi_stream i) (vd_db d) of
        None \<Rightarrow> 0
      | Some sid \<Rightarrow> (case position_of sid (pi_consumer i) d of None \<Rightarrow> 0 | Some p \<Rightarrow> p))"

definition attempt ::
  "('v any_value \<Rightarrow> json outcome) \<Rightarrow> ProjectionIdentity \<Rightarrow> ('v Change \<Rightarrow> goerror option) \<Rightarrow> 'v Projection
   \<Rightarrow> (int64 \<Rightarrow> faults) \<Rightarrow> (Envelope \<times> raw_message) list \<Rightarrow> view_db \<Rightarrow> view_db \<times> unit outcome" where
  "attempt marshal i callbacks proj f es d =
     (case for_each (dispatch (pg_Get no_faults i) (pg_Persist marshal i) callbacks proj)
             (map (\<lambda>(e, body). (f (env_id e), e, body)) (filter (\<lambda>(e, body). env_id e > stored_position i d) es))
             (d, Some NewNotifier) of
        ((d', n), r) \<Rightarrow> (d', r))"

text \<open>The view after the events \<open>es\<close>, by the handlers alone.\<close>

definition fold_events :: "('v any_value \<Rightarrow> json outcome) \<Rightarrow> 'v Projection \<Rightarrow> (Envelope \<times> raw_message) list \<Rightarrow> view \<Rightarrow> view" where
  "fold_events encode proj es V = fold (\<lambda>(e, body). reduce_event encode proj ((), e, body)) es V"

definition event_ids :: "(Envelope \<times> raw_message) list \<Rightarrow> int64 list" where
  "event_ids es = map (\<lambda>(e, body). env_id e) es"

definition last_id :: "(Envelope \<times> raw_message) list \<Rightarrow> int64" where
  "last_id es = (if es = [] then 0 else last (event_ids es))"

definition handles :: "'v Projection \<Rightarrow> Envelope \<times> raw_message \<Rightarrow> bool" where
  "handles proj ev \<longleftrightarrow> Mapping.lookup (pj_handlers proj) (env_kind (fst ev)) \<noteq> None"

text \<open>The events \<open>es\<close> have been projected, each once, and the stored position says so.\<close>

definition projected ::
  "('v any_value \<Rightarrow> json outcome) \<Rightarrow> ProjectionIdentity \<Rightarrow> 'v Projection \<Rightarrow> (Envelope \<times> raw_message) list \<Rightarrow> view_db \<Rightarrow> bool" where
  "projected marshal i proj es d \<longleftrightarrow>
     pg_ready i d \<and> stored_position i d = last_id es
     \<and> shows_view (pg_Get no_faults i) valid_name d (fold_events (pg_encode marshal) proj es no_view)"

lemma reduce_event_env: "reduce_event encode proj (env, e, body) = reduce_event encode proj ((), e, body)"
  by (rule ext) (simp add: reduce_event_def reduced_def split: outcome.split)

lemma pg_Persist_position:
  assumes "pg_ready i d" "pg_Persist marshal i fault result v d = (d', r)"
  shows "stored_position i d' = (if is_ok r then (if position_of (the (stream_id (pi_domain i) (pi_stream i) (vd_db d))) (pi_consumer i) d = None
      then v else max (stored_position i d) v) else stored_position i d)"
proof (cases "is_ok r")
  case True
  then obtain ch where Ok: "r = Ok ch" by (auto simp: is_ok_iff)
  with assms obtain sid where sid: "stream_id (pi_domain i) (pi_stream i) (vd_db d) = Some sid"
    and st: "db_streams (vd_db d') = db_streams (vd_db d)"
    and pos: "\<And>s c. position_of s c d' = (if s = sid \<and> c = pi_consumer i then high_water (position_of s c d) [v] else position_of s c d)"
    using pg_Persist_done[of d marshal i fault result v d' ch] by (metis pg_ready_def)
  from stream_id_streams[OF st] sid pos Ok show ?thesis
    by (cases "position_of sid (pi_consumer i) d") (simp_all add: stored_position_def)
next
  case False
  with pg_Persist_failed[OF _ assms(2)] assms(1) have st: "db_streams (vd_db d') = db_streams (vd_db d)"
    and pos: "\<And>s c. position_of s c d' = position_of s c d" by (auto simp: pg_ready_def)
  have "stored_position i d' = stored_position i d"
    by (simp add: stored_position_def stream_id_streams[OF st] pos split: option.split)
  with False show ?thesis by simp
qed

lemma fold_events_snoc: "fold_events enc proj (es @ [(e, body)]) V = reduce_event enc proj ((), e, body) (fold_events enc proj es V)"
  by (simp add: fold_events_def)

lemma projected_step:
  assumes p: "projected marshal i proj es d" and proj: "proper_projection valid_name proj" and h: "handles proj (e, body)"
    and ids: "last_id es < env_id e" "0 < env_id e"
    and run: "dispatch (pg_Get no_faults i) (pg_Persist marshal i) callbacks proj (env, e, body) (d, Some n) = (sn', r)"
  shows "\<exists>d' n'. sn' = (d', Some n') \<and>
    (projected marshal i proj (es @ [(e, body)]) d' \<or> \<not> is_ok r \<and> projected marshal i proj es d')"
proof -
  from p have ready: "pg_ready i d" and pos: "stored_position i d = last_id es"
    and V: "shows_view (pg_Get no_faults i) valid_name d (fold_events (pg_encode marshal) proj es no_view)"
    by (auto simp: projected_def)
  from h obtain raw where raw: "Mapping.lookup (pj_handlers proj) (env_kind e) = Some raw" by (auto simp: handles_def)
  from postgres_views.dispatch_step[OF ready V proj run] obtain d' n' where sn: "sn' = (d', Some n')" and ready': "pg_ready i d'"
    and cases: "shows_view (pg_Get no_faults i) valid_name d'
          (reduce_event (pg_encode marshal) proj (env, e, body) (fold_events (pg_encode marshal) proj es no_view))
        \<and> sent_versions (Some n') = sent_versions (Some n) @ (if handled proj (env, e, body) then [env_id (fst (snd (env, e, body)))] else [])
      \<or> \<not> is_ok r \<and> shows_view (pg_Get no_faults i) valid_name d' (fold_events (pg_encode marshal) proj es no_view) \<and> n' = n"
    by blast
  from run raw show ?thesis
  proof (cases rule: dispatch_cases)
    case (persisted result s' c)
    then have "n' \<noteq> n" using sn by (auto simp: Emit_def dest!: arg_cong[where f = nt_sent])
    with cases have view: "shows_view (pg_Get no_faults i) valid_name d' (fold_events (pg_encode marshal) proj (es @ [(e, body)]) no_view)"
      by (simp add: fold_events_snoc reduce_event_env[of _ _ env])
    have "stored_position i d' = env_id e"
      using pg_Persist_position[OF ready persisted(2)] persisted(3) sn pos ids by (simp add: max_def split: if_splits)
    with view ready' sn show ?thesis by (auto simp: projected_def last_id_def event_ids_def)
  next
    case (failed s')
    with cases sn h have view: "shows_view (pg_Get no_faults i) valid_name d' (fold_events (pg_encode marshal) proj es no_view)"
      by (auto simp: handled_def handles_def)
    have "stored_position i d' = stored_position i d"
      using failed(2,3) sn pg_Persist_position[OF ready, of marshal env _ "env_id e" d'] by auto
    with view ready' sn pos failed(1) show ?thesis by (auto simp: projected_def)
  qed
qed

lemma projected_run:
  "projected marshal i proj es d \<Longrightarrow> proper_projection valid_name proj \<Longrightarrow> list_all (handles proj) xs \<Longrightarrow>
   sorted_wrt (<) (last_id es # event_ids xs) \<Longrightarrow> 0 \<le> last_id es \<Longrightarrow>
   for_each (dispatch (pg_Get no_faults i) (pg_Persist marshal i) callbacks proj)
     (map (\<lambda>(e, body). (f (env_id e), e, body)) xs) (d, Some n) = ((d', n'), r) \<Longrightarrow>
   \<exists>k \<le> length xs. projected marshal i proj (es @ take k xs) d' \<and> (is_ok r \<longrightarrow> k = length xs)"
proof (induction xs arbitrary: es d n)
  case Nil
  then show ?case by simp
next
  case (Cons x xs)
  obtain e body where x: "x = (e, body)" by (cases x)
  obtain sn1 r1 where s1: "dispatch (pg_Get no_faults i) (pg_Persist marshal i) callbacks proj (f (env_id e), e, body) (d, Some n) = (sn1, r1)"
    by fastforce
  have id: "last_id es < env_id e" "0 < env_id e" "handles proj (e, body)" using Cons.prems x by (auto simp: event_ids_def)
  from projected_step[OF Cons.prems(1,2) id(3,1,2) s1] obtain d1 n1 where sn: "sn1 = (d1, Some n1)"
    and cases: "projected marshal i proj (es @ [(e, body)]) d1 \<or> \<not> is_ok r1 \<and> projected marshal i proj es d1" by blast
  show ?case
  proof (cases "is_ok r1")
    case True
    with s1 sn Cons.prems(6) x have rest: "for_each (dispatch (pg_Get no_faults i) (pg_Persist marshal i) callbacks proj)
        (map (\<lambda>(e, body). (f (env_id e), e, body)) xs) (d1, Some n1) = ((d', n'), r)" by (auto simp: is_ok_iff)
    from True cases have p: "projected marshal i proj (es @ [(e, body)]) d1" by blast
    have "sorted_wrt (<) (last_id (es @ [(e, body)]) # event_ids xs)" "0 \<le> last_id (es @ [(e, body)])"
      using Cons.prems(4) id x by (auto simp: event_ids_def last_id_def)
    from Cons.IH[OF p Cons.prems(2) _ this rest] Cons.prems(3) obtain k where "k \<le> length xs"
      "projected marshal i proj ((es @ [(e, body)]) @ take k xs) d'" "is_ok r \<longrightarrow> k = length xs" by auto
    with x show ?thesis by (intro exI[of _ "Suc k"]) simp
  next
    case False
    with s1 sn Cons.prems(6) x have "d' = d1" "\<not> is_ok r" by (auto simp: is_ok_def split: outcome.splits)
    with cases x show ?thesis by (auto intro: exI[of _ 1] exI[of _ 0])
  qed
qed

text \<open>Nothing but a failing statement, an invalid key or a value without an encoding makes \<open>Persist\<close> fail.\<close>

lemma resolveKindName_succeeds: "is_ok (snd (resolveKindName no_faults kind t))"
  by (cases "view_kind_id kind t") (auto simp: resolveKindName_def Let_def query_row_def view_kind_id_def)

lemma resolveProjectionName_succeeds: "is_ok (snd (resolveProjectionName no_faults sid i t))"
  by (cases "projection_id sid (pi_projection i) t") (auto simp: resolveProjectionName_def Let_def query_row_def projection_id_def)

lemma applyUpsert_succeeds:
  assumes "validateKey (up_key u) = None" "is_ok (pg_encode marshal (up_value u))"
  shows "is_ok (snd (applyUpsert no_faults marshal pid v u t))"
proof -
  obtain t1 kid where k: "resolveKindName no_faults (up_kind u) t = (t1, Ok kid)"
    using resolveKindName_succeeds[of "up_kind u" t] by (metis is_ok_iff prod.collapse)
  from assms(2) obtain data doc where "marshalValue marshal (up_value u) = Ok data" "jsonb data = Ok doc"
    by (auto simp: pg_encode_def is_ok_iff)
  with assms(1) k show ?thesis
    by (cases rule: validateKey_cases) (simp_all add: applyUpsert_def exec_upsert_def validateKey_def)
qed

lemma applyDelete_succeeds:
  assumes "validateKey (de_key d) = None"
  shows "is_ok (snd (applyDelete no_faults pid d t))"
proof -
  obtain t1 kid where k: "resolveKindName no_faults (de_kind d) t = (t1, Ok kid)"
    using resolveKindName_succeeds[of "de_kind d" t] by (metis is_ok_iff prod.collapse)
  from assms k show ?thesis
    by (cases rule: validateKey_cases) (simp_all add: applyDelete_def exec_delete_def validateKey_def)
qed

lemma applyMutations_succeeds:
  assumes "named_result valid_name (Some r)" "\<forall>u \<in> set (rr_upserts r). is_ok (pg_encode marshal (up_value u))"
  shows "is_ok (snd (applyMutations no_faults marshal pid r v t))"
proof -
  have "is_ok (snd (for_each (applyUpsert no_faults marshal pid v) (rr_upserts r) t))"
    using assms by (intro for_each_ok applyUpsert_succeeds) (auto simp: named_result_def valid_name_def list_all_iff)
  then obtain t1 where 1: "for_each (applyUpsert no_faults marshal pid v) (rr_upserts r) t = (t1, Ok ())"
    by (metis is_ok_iff prod.collapse old.unit.exhaust)
  have "is_ok (snd (for_each (applyDelete no_faults pid) (rr_deletes r) t1))"
    using assms by (intro for_each_ok applyDelete_succeeds) (auto simp: named_result_def valid_name_def list_all_iff)
  then obtain t2 where "for_each (applyDelete no_faults pid) (rr_deletes r) t1 = (t2, Ok ())"
    by (metis is_ok_iff prod.collapse old.unit.exhaust)
  with 1 show ?thesis by (simp add: applyMutations_def)
qed

lemma pg_Persist_succeeds:
  assumes "pg_ready i d" "named_result valid_name result"
    and "\<forall>u \<in> set (rr_upserts (result_of result)). is_ok (pg_encode marshal (up_value u))"
  shows "is_ok (snd (pg_Persist marshal i no_faults result v d))"
proof -
  from assms(1) obtain sid where sid: "ResolveStreamID no_faults (pi_domain i) (pi_stream i) d = Ok sid"
    by (auto simp: pg_ready_def ResolveStreamID_def query_row_def)
  obtain t1 pid where p: "resolveProjectionName no_faults sid i d = (t1, Ok pid)"
    using resolveProjectionName_succeeds[of sid i d] by (metis is_ok_iff prod.collapse)
  have "named_result valid_name (Some (result_of result))"
    using assms(2) by (cases result) (simp_all add: result_of_def no_result_def named_result_def)
  then obtain t2 ch where m: "applyMutations no_faults marshal pid (result_of result) v t1 = (t2, Ok ch)"
    using applyMutations_succeeds[of "result_of result" marshal pid v t1] assms(3) by (metis is_ok_iff prod.collapse)
  from sid p m show ?thesis
    by (simp add: pg_Persist_def applyAndRecord_def writePosition_def Let_def)
qed

text \<open>The handlers always return mutations that can be stored, and no observer fails.\<close>

definition untroubled ::
  "('v any_value \<Rightarrow> json outcome) \<Rightarrow> ('v Change \<Rightarrow> goerror option) \<Rightarrow> 'v Projection \<Rightarrow> (Envelope \<times> raw_message) list \<Rightarrow> bool" where
  "untroubled marshal callbacks proj es \<longleftrightarrow> (\<forall>c. callbacks c = None)
     \<and> (\<forall>(e, body) \<in> set es. \<forall>raw g. Mapping.lookup (pj_handlers proj) (env_kind e) = Some raw \<longrightarrow>
          (\<forall>kind key. valid_name kind key \<longrightarrow> is_ok (g kind key)) \<longrightarrow>
          (\<exists>result. raw g e body = Ok result \<and> (\<forall>u \<in> set (rr_upserts (result_of result)). is_ok (pg_encode marshal (up_value u)))))"

lemma untroubled_dispatch:
  assumes "untroubled marshal callbacks proj ((e, body) # es)" "pg_ready i d" "proper_projection valid_name proj"
  shows "is_ok (snd (dispatch (pg_Get no_faults i) (pg_Persist marshal i) callbacks proj (no_faults, e, body) (d, Some n)))"
proof (cases "Mapping.lookup (pj_handlers proj) (env_kind e)")
  case None
  then show ?thesis by (simp add: dispatch_def)
next
  case (Some raw)
  have reads: "\<forall>kind key. valid_name kind key \<longrightarrow> is_ok (pg_Get no_faults i kind key d)"
    using assms(2) pg_Get_view[of i d] by (simp add: pg_ready_def)
  have "\<exists>result. raw g e body = Ok result \<and> (\<forall>u \<in> set (rr_upserts (result_of result)). is_ok (pg_encode marshal (up_value u)))"
    if "\<forall>kind key. valid_name kind key \<longrightarrow> is_ok (g kind key)" for g
    using assms(1) Some that unfolding untroubled_def by simp
  from this[OF reads] obtain result where r: "raw (\<lambda>kind key. pg_Get no_faults i kind key d) e body = Ok result"
    "\<forall>u \<in> set (rr_upserts (result_of result)). is_ok (pg_encode marshal (up_value u))" by blast
  with assms(3) Some have "named_result valid_name result" by (auto simp: proper_projection_def proper_handler_def)
  from pg_Persist_succeeds[OF assms(2) this r(2)] obtain d1 c where "pg_Persist marshal i no_faults result (env_id e) d = (d1, Ok c)"
    by (metis is_ok_iff prod.collapse)
  with r(1) Some assms(1) show ?thesis by (simp add: dispatch_def makeDispatchHandler_def Emit_def untroubled_def)
qed

lemma untroubled_run:
  "untroubled marshal callbacks proj es \<Longrightarrow> pg_ready i d \<Longrightarrow> proper_projection valid_name proj \<Longrightarrow>
   is_ok (snd (for_each (dispatch (pg_Get no_faults i) (pg_Persist marshal i) callbacks proj)
     (map (\<lambda>(e, body). (no_faults, e, body)) es) (d, Some n)))"
proof (induction es arbitrary: d n)
  case (Cons x es)
  obtain e body where x: "x = (e, body)" by (cases x)
  obtain sn1 r1 where s1: "dispatch (pg_Get no_faults i) (pg_Persist marshal i) callbacks proj (no_faults, e, body) (d, Some n) = (sn1, r1)"
    by fastforce
  from untroubled_dispatch[OF Cons.prems[unfolded x], of n] s1 have ok: "is_ok r1" by simp
  from postgres_views.has_view[OF Cons.prems(2)] obtain V where "shows_view (pg_Get no_faults i) valid_name d V" ..
  from postgres_views.dispatch_step[OF Cons.prems(2) this Cons.prems(3) s1] obtain d1 n1 where "sn1 = (d1, Some n1)" "pg_ready i d1"
    by blast
  moreover have "untroubled marshal callbacks proj es" using Cons.prems(1) by (auto simp: untroubled_def)
  ultimately have "is_ok (snd (for_each (dispatch (pg_Get no_faults i) (pg_Persist marshal i) callbacks proj)
     (map (\<lambda>(e, body). (no_faults, e, body)) es) sn1))" using Cons.IH Cons.prems(3) by simp
  with ok s1 x show ?case by (cases r1) simp_all
qed simp

subsection \<open>Properties\<close>

text \<open>
  C27. \<open>PGStore.Persist\<close> is atomic and isolated, whichever of its statements fail, the commit included: if it
  succeeds, the view of the projection has changed exactly as the mutations of the event say, the position
  of its consumer has moved forward to the event (and not back from a later one), and the views of all other
  projections and the positions of all other consumers are as before; if it returns an error or the encoding
  of a value panics, no view and no position has changed.
\<close>

theorem pg_persist_atomic:
  assumes "view_ok d" "distinct (map es_id (db_streams (vd_db d)))"
  shows "case pg_Persist marshal i fault result v d of (d', r) \<Rightarrow>
    view_ok d' \<and>
    (case r of
       Ok change \<Rightarrow> change = change_of (result_of result) v \<and>
         (\<exists>sid. stream_id (pi_domain i) (pi_stream i) (vd_db d) = Some sid \<and>
           (\<forall>j. pg_view j d' = (if same_projection i j then mutated (pg_encode marshal) v result (pg_view j d) else pg_view j d)) \<and>
           (\<forall>s c. position_of s c d' =
              (if s = sid \<and> c = pi_consumer i then high_water (position_of s c d) [v] else position_of s c d)))
     | _ \<Rightarrow> (\<forall>j. pg_view j d' = pg_view j d) \<and> (\<forall>s c. position_of s c d' = position_of s c d))"
proof -
  obtain d' r where run: "pg_Persist marshal i fault result v d = (d', r)" by fastforce
  show ?thesis
  proof (cases r)
    case (Ok ch)
    show ?thesis
      by (rule pg_Persist_done[OF assms run[unfolded Ok]]) (simp add: run Ok)
  qed (use pg_Persist_failed[OF assms(1) run] run in simp_all)
qed


subsection \<open>Witnesses\<close>

definition demo_view_db :: view_db where
  "demo_view_db = \<lparr>vd_db = empty_db\<lparr>db_streams := [\<lparr>es_id = 1, es_app = ''d'', es_stream = ''s''\<rparr>]\<rparr>,
     vd_names = [], vd_name_seq = 1, vd_kinds = [], vd_kind_seq = 1, vd_single = [], vd_composite = []\<rparr>"

definition demo_identity :: ProjectionIdentity where
  "demo_identity = NewProjectionIdentity ''d'' ''s'' ''p'' ''''"

definition count_event :: "int64 \<Rightarrow> Envelope \<times> raw_message" where
  "count_event n = (\<lparr>env_id = n, env_when = format_seconds 0, env_kind = ''k''\<rparr>, Some JNull)"

abbreviation count_marshal :: "int any_value \<Rightarrow> json outcome" where
  "count_marshal \<equiv> \<lambda>x. Ok (count_encode x)"

lemma demo_ok: "view_ok demo_view_db" "distinct (map es_id (db_streams (vd_db demo_view_db)))"
  by (simp_all add: view_ok_def demo_view_db_def empty_db_def)

lemma demo_ready: "pg_ready demo_identity demo_view_db"
  using demo_ok by (simp add: pg_ready_def demo_view_db_def demo_identity_def NewProjectionIdentity_def stream_id_def empty_db_def)

text \<open>A commit that fails leaves the view and the position as they were; one that succeeds shows the entity.\<close>

theorem pg_persist_atomic_witness:
  "pg_view demo_identity (fst (pg_Persist count_marshal demo_identity
      (\<lambda>s. if s = ''commit'' then Some (DriverError ''reset'') else None) (count_result 1) 7 demo_view_db)) ''count'' (Key [''k'']) = None
   \<and> pg_view demo_identity (fst (pg_Persist count_marshal demo_identity no_faults (count_result 1) 7 demo_view_db)) ''count'' (Key [''k''])
       = Some (JNum 1, 7)"
proof
  let ?f = "\<lambda>s. if s = ''commit'' then Some (DriverError ''reset'') else None"
  have old: "pg_view demo_identity demo_view_db ''count'' (Key [''k'']) = None"
    by (simp add: pg_view_def projection_id_def demo_view_db_def split: option.split)
  have "\<not> is_ok (snd (pg_Persist count_marshal demo_identity ?f (count_result 1) 7 demo_view_db))"
    by (auto simp: pg_Persist_def split: prod.split outcome.split)
  with pg_persist_atomic[OF demo_ok, where marshal = count_marshal and i = demo_identity and fault = ?f
      and result = "count_result 1" and v = 7] old
  show "pg_view demo_identity (fst (pg_Persist count_marshal demo_identity ?f (count_result 1) 7 demo_view_db)) ''count'' (Key [''k'']) = None"
    by (auto split: prod.splits outcome.splits)
  have "is_ok (snd (pg_Persist count_marshal demo_identity no_faults (count_result 1) 7 demo_view_db))"
    by (rule pg_Persist_succeeds[OF demo_ready])
       (simp_all add: count_result_def named_result_def valid_name_def validateKey_def result_of_def pg_encode_def
          marshalValue_def jsonb_def)
  with pg_persist_atomic[OF demo_ok, where marshal = count_marshal and i = demo_identity and fault = no_faults
      and result = "count_result 1" and v = 7]
  show "pg_view demo_identity (fst (pg_Persist count_marshal demo_identity no_faults (count_result 1) 7 demo_view_db)) ''count'' (Key [''k''])
       = Some (JNum 1, 7)"
    by (auto simp: same_projection_def mutated_def count_result_def pg_encode_def marshalValue_def jsonb_def count_encode_def
        split: prod.splits outcome.splits)
qed


end
