(* ===== verification/ViewRead.thy ===== *)
theory ViewRead
  imports Views
begin

text \<open>
  Reading a view with a version constraint: \<open>get_option.go\<close>, \<open>result.go\<close>, \<open>Notifier.WaitForVersion\<close>
  (\<open>notifier.go\<close>) and the in-memory reader (\<open>memory_reader.go\<close>) of \<open>src/pkg/indexer/views\<close>.

  A wait is driven by a schedule of what happens around it: an \<open>Emit\<close> of the notifier raises the last
  version under its mutex (\<open>Raise\<close>) and afterwards calls the callbacks (\<open>Deliver\<close>); the store changes
  (\<open>Stored\<close>); the waiting goroutine takes a change from its channel (\<open>Wake\<close>) or sees the end of its context
  (\<open>Done\<close>). A \<open>Wake\<close> with an empty channel is not possible and has no effect. When the schedule is used up
  and the goroutine has not returned, the result is \<open>None\<close>: it is still blocked.
\<close>

datatype Status = StatusOK | StatusNotFound | StatusStale | StatusTimeout

datatype GetOption = AfterVersion int64 | UntilVersion int64 duration

record getOptions =
  go_afterVersion :: "int64 option"
  go_untilVersion :: "int64 option"
  go_untilTimeout :: duration

fun applyGet :: "GetOption \<Rightarrow> getOptions \<Rightarrow> getOptions" where
  "applyGet (AfterVersion version) cfg = cfg\<lparr>go_afterVersion := Some version\<rparr>"
| "applyGet (UntilVersion version timeout) cfg = cfg\<lparr>go_untilVersion := Some version, go_untilTimeout := timeout\<rparr>"

definition get_options :: "GetOption list \<Rightarrow> getOptions" where
  "get_options opts = fold applyGet opts \<lparr>go_afterVersion = None, go_untilVersion = None, go_untilTimeout = 0\<rparr>"

subsection \<open>Waiting for a version\<close>

text \<open>
  \<open>wt_channel\<close> is the channel of the waiter, of capacity 16, with the versions of the changes in it;
  \<open>wt_raised\<close> are the versions of the \<open>Emit\<close> calls that have raised the last version and not yet called
  the waiter's callback.
\<close>

record 's waiter =
  wt_store :: 's
  wt_last :: int64
  wt_raised :: "int64 list"
  wt_channel :: "int64 list"

datatype 's wait_event =
    Raise int64
  | Deliver int64
  | Stored "'s \<Rightarrow> 's"
  | Wake
  | Done goerror

definition atOrAbove :: "int64 \<Rightarrow> 's waiter \<Rightarrow> bool" where
  "atOrAbove targetVersion w \<longleftrightarrow> wt_last w \<ge> targetVersion"

text \<open>What happens elsewhere; the callback drops a change when the channel is full.\<close>

fun elsewhere :: "'s wait_event \<Rightarrow> 's waiter \<Rightarrow> 's waiter" where
  "elsewhere (Raise v) w = w\<lparr>wt_last := raise_version v (wt_last w), wt_raised := wt_raised w @ [v]\<rparr>"
| "elsewhere (Deliver v) w =
     w\<lparr>wt_raised := remove1 v (wt_raised w),
       wt_channel := (if length (wt_channel w) < 16 then wt_channel w @ [v] else wt_channel w)\<rparr>"
| "elsewhere (Stored f) w = w\<lparr>wt_store := f (wt_store w)\<rparr>"
| "elsewhere _ w = w"

fun wait_loop :: "int64 \<Rightarrow> 's wait_event list \<Rightarrow> 's waiter \<Rightarrow> 's waiter \<times> (bool \<times> goerror option) option" where
  "wait_loop target [] w = (w, None)"
| "wait_loop target (Wake # es) w =
     (case wt_channel w of
        [] \<Rightarrow> wait_loop target es w
      | _ # ch \<Rightarrow>
          (let w1 = w\<lparr>wt_channel := ch\<rparr>
           in if atOrAbove target w1 then (w1, Some (True, None)) else wait_loop target es w1))"
| "wait_loop target (Done e # es) w =
     (if atOrAbove target w then (w, Some (True, None)) else (w, Some (False, Some e)))"
| "wait_loop target (e # es) w = wait_loop target es (elsewhere e w)"

text \<open>\<open>before\<close> is what happens between the subscription and the first check of the version.\<close>

definition WaitForVersion ::
  "int64 \<Rightarrow> 's wait_event list \<Rightarrow> 's wait_event list \<Rightarrow> 's waiter \<Rightarrow> 's waiter \<times> (bool \<times> goerror option) option" where
  "WaitForVersion target before es w =
     (let w1 = fold elsewhere before (w\<lparr>wt_channel := []\<rparr>)
      in if atOrAbove target w1 then (w1, Some (True, None)) else wait_loop target es w1)"

subsection \<open>The in-memory reader\<close>

definition timeoutResult ::
  "goerror option \<Rightarrow> string \<Rightarrow> Key \<Rightarrow> goerror option \<Rightarrow> MemoryViewStore \<Rightarrow> (Entity option \<times> Status) outcome" where
  "timeoutResult ctxErr kind key waitErr m =
     (if waitErr \<noteq> Some (ContextError True) \<or> ctxErr \<noteq> None
      then (case waitErr of Some e \<Rightarrow> Err e | None \<Rightarrow> Ok (None, StatusOK))
      else bindo (ms_Get kind key m) (\<lambda>current. Ok (current, StatusTimeout)))"

definition refetch :: "string \<Rightarrow> Key \<Rightarrow> MemoryViewStore \<Rightarrow> (Entity option \<times> Status) outcome" where
  "refetch kind key m =
     bindo (ms_Get kind key m) (\<lambda>current. Ok (current, if current = None then StatusNotFound else StatusOK))"

text \<open>\<open>ctxErr\<close> is the error of the caller's context when the wait has ended.\<close>

definition waitUntilVersion ::
  "goerror option \<Rightarrow> string \<Rightarrow> Key \<Rightarrow> Entity option \<Rightarrow> int64 \<Rightarrow> MemoryViewStore wait_event list \<Rightarrow> MemoryViewStore wait_event list
   \<Rightarrow> MemoryViewStore waiter \<Rightarrow> MemoryViewStore waiter \<times> (Entity option \<times> Status) outcome option" where
  "waitUntilVersion ctxErr kind key entity target before es w =
     (case entity of
        Some e \<Rightarrow>
          (if en_version e \<ge> target then (w, Some (Ok (Some e, StatusOK)))
           else (case WaitForVersion target before es w of
                   (w1, None) \<Rightarrow> (w1, None)
                 | (w1, Some (reached, err)) \<Rightarrow>
                     (w1, Some (if \<not> reached then timeoutResult ctxErr kind key err (wt_store w1) else refetch kind key (wt_store w1)))))
      | None \<Rightarrow>
          (case WaitForVersion target before es w of
             (w1, None) \<Rightarrow> (w1, None)
           | (w1, Some (reached, err)) \<Rightarrow>
               (w1, Some (if \<not> reached then timeoutResult ctxErr kind key err (wt_store w1) else refetch kind key (wt_store w1)))))"

definition mr_Get ::
  "goerror option \<Rightarrow> string \<Rightarrow> Key \<Rightarrow> GetOption list \<Rightarrow> MemoryViewStore wait_event list \<Rightarrow> MemoryViewStore wait_event list
   \<Rightarrow> MemoryViewStore waiter \<Rightarrow> MemoryViewStore waiter \<times> (Entity option \<times> Status) outcome option" where
  "mr_Get ctxErr kind key opts before es w =
     (let cfg = get_options opts
      in case ms_Get kind key (wt_store w) of
           Err e \<Rightarrow> (w, Some (Err e))
         | Panic p \<Rightarrow> (w, Some (Panic p))
         | Ok entity \<Rightarrow>
             (case go_untilVersion cfg of
                Some target \<Rightarrow> waitUntilVersion ctxErr kind key entity target before es w
              | None \<Rightarrow>
                  (w, Some (Ok
                     (case (go_afterVersion cfg, entity) of
                        (_, None) \<Rightarrow> (None, StatusNotFound)
                      | (Some after, Some e) \<Rightarrow> (Some e, if en_version e < after then StatusStale else StatusOK)
                      | (None, Some e) \<Rightarrow> (Some e, StatusOK))))))"

definition mr_Version :: "MemoryViewStore \<Rightarrow> int64" where
  "mr_Version m = ms_version m"

subsection \<open>Lemmas\<close>

text \<open>
  The invariant of a waiting goroutine: a version that has been reached is in the channel, or the \<open>Emit\<close>
  that reached it has yet to call back.
\<close>

definition will_notice :: "int64 \<Rightarrow> 's waiter \<Rightarrow> bool" where
  "will_notice target w \<longleftrightarrow> (wt_last w \<ge> target \<longrightarrow> wt_channel w \<noteq> [] \<or> (\<exists>v \<in> set (wt_raised w). v \<ge> target))"

lemma will_notice_elsewhere: "will_notice target w \<Longrightarrow> will_notice target (elsewhere e w)"
proof (cases e)
  case (Deliver v)
  have "(if length (wt_channel w) < 16 then wt_channel w @ [v] else wt_channel w) \<noteq> []" by auto
  with Deliver show ?thesis by (simp add: will_notice_def)
qed (auto simp: will_notice_def raise_version_def split: if_splits)

lemma wait_loop_blocked:
  "will_notice target w \<Longrightarrow> wait_loop target es w = (w', None) \<Longrightarrow> will_notice target w'"
proof (induction target es w rule: wait_loop.induct)
  case (2 target es w)
  show ?case
  proof (cases "wt_channel w")
    case (Cons v ch)
    let ?w = "w\<lparr>wt_channel := ch\<rparr>"
    from Cons 2(4) have "\<not> atOrAbove target ?w" by (auto simp: Let_def split: if_splits)
    moreover from this have "will_notice target ?w" by (simp add: will_notice_def atOrAbove_def)
    ultimately show ?thesis using 2 Cons by (simp add: Let_def)
  qed (use 2 in simp)
qed (auto simp: will_notice_elsewhere simp del: elsewhere.simps split: if_splits)

text \<open>
  The schedules in which a version is raised only after the store has reached it, as the indexer does it, and
  the store never goes back. \<open>version\<close> reads the version of the store.
\<close>

fun truthful :: "('s \<Rightarrow> int64) \<Rightarrow> 's wait_event list \<Rightarrow> 's \<Rightarrow> bool" where
  "truthful version [] s \<longleftrightarrow> True"
| "truthful version (Raise v # es) s \<longleftrightarrow> v \<le> version s \<and> truthful version es s"
| "truthful version (Stored f # es) s \<longleftrightarrow> version s \<le> version (f s) \<and> truthful version es (f s)"
| "truthful version (_ # es) s \<longleftrightarrow> truthful version es s"

lemma truthful_fold:
  "truthful version (before @ es) (wt_store w) \<Longrightarrow> wt_last w \<le> version (wt_store w) \<Longrightarrow>
   wt_last (fold elsewhere before w) \<le> version (wt_store (fold elsewhere before w))
   \<and> truthful version es (wt_store (fold elsewhere before w))"
proof (induction before arbitrary: w)
  case (Cons e before)
  then show ?case by (cases e) (auto simp: raise_version_def)
qed simp

lemma wait_loop_result:
  "wt_last w \<le> version (wt_store w) \<Longrightarrow> truthful version es (wt_store w) \<Longrightarrow> wait_loop target es w = (w', Some (b, err)) \<Longrightarrow>
   wt_last w' \<le> version (wt_store w') \<and> (b \<longleftrightarrow> target \<le> wt_last w') \<and> (if b then err = None else (\<exists>e. err = Some e \<and> Done e \<in> set es))"
proof (induction target es w rule: wait_loop.induct)
  case (2 target es w)
  then show ?case by (auto simp: Let_def atOrAbove_def split: list.splits if_splits)
next
  case (3 target e es w)
  then show ?case by (auto simp: atOrAbove_def split: if_splits)
qed (auto simp: raise_version_def split: if_splits)

lemma WaitForVersion_result:
  assumes "wt_last w \<le> version (wt_store w)" "truthful version (before @ es) (wt_store w)"
    and "WaitForVersion target before es w = (w', Some (b, err))"
  shows "wt_last w' \<le> version (wt_store w') \<and> (b \<longleftrightarrow> target \<le> wt_last w') \<and> (if b then err = None else (\<exists>e. err = Some e \<and> Done e \<in> set es))"
proof -
  let ?w = "fold elsewhere before (w\<lparr>wt_channel := []\<rparr>)"
  from truthful_fold[of version before es "w\<lparr>wt_channel := []\<rparr>"] assms
  have "wt_last ?w \<le> version (wt_store ?w)" "truthful version es (wt_store ?w)" by simp_all
  with assms(3) wait_loop_result[of ?w version es target w' b err] show ?thesis
    by (auto simp: WaitForVersion_def Let_def atOrAbove_def split: if_splits)
qed

subsection \<open>Properties\<close>

text \<open>
  C31. \<open>WaitForVersion\<close> does not miss the change it waits for: whatever is emitted before the subscription,
  between the subscription and the first check and during the wait, also when more changes arrive than its
  channel holds, a goroutine that is still blocked with nothing in its channel, while no \<open>Emit\<close> is under way,
  waits for a version that has not been reached.
\<close>

theorem wait_for_version_no_lost_wakeup:
  assumes "WaitForVersion target before es w = (w', None)" "wt_channel w' = []" "wt_raised w' = []"
  shows "wt_last w' < target"
proof -
  let ?w = "fold elsewhere before (w\<lparr>wt_channel := []\<rparr>)"
  from assms(1) have "\<not> atOrAbove target ?w" and run: "wait_loop target es ?w = (w', None)"
    by (auto simp: WaitForVersion_def Let_def split: if_splits)
  then have "will_notice target ?w" by (simp add: will_notice_def atOrAbove_def)
  from wait_loop_blocked[OF this run] assms(2,3) show ?thesis by (simp add: will_notice_def not_le)
qed

text \<open>
  C32. An \<open>UntilVersion\<close> read of the in-memory reader sees the writes it waited for: in a schedule where a
  version is announced only after it is stored, an answer \<open>OK\<close> or \<open>NotFound\<close> is what the store holds at that
  moment, with the store at the target version or beyond, or is an entity of the target version or later; an
  answer \<open>Timeout\<close> is what the store holds when the deadline has passed and the target was not announced.
\<close>

theorem until_version_reads_own_writes:
  assumes "wt_last w \<le> ms_version (wt_store w)" "truthful ms_version (before @ es) (wt_store w)"
    and "go_untilVersion (get_options opts) = Some target"
    and "mr_Get ctxErr kind key opts before es w = (w', Some (Ok (entity, status)))"
  shows "ms_Get kind key (wt_store w') = Ok entity \<and>
    (case status of
       StatusOK \<Rightarrow> entity \<noteq> None \<and> (target \<le> ms_version (wt_store w') \<or> (\<exists>e. entity = Some e \<and> target \<le> en_version e))
     | StatusNotFound \<Rightarrow> entity = None \<and> target \<le> ms_version (wt_store w')
     | StatusTimeout \<Rightarrow> wt_last w' < target \<and> Done (ContextError True) \<in> set es
     | StatusStale \<Rightarrow> False)"
proof -
  from assms(3,4) obtain old where old: "ms_Get kind key (wt_store w) = Ok old"
    and run: "waitUntilVersion ctxErr kind key old target before es w = (w', Some (Ok (entity, status)))"
    by (auto simp: mr_Get_def Let_def split: outcome.splits)
  show ?thesis
  proof (cases "\<exists>e. old = Some e \<and> target \<le> en_version e")
    case True
    with run old show ?thesis by (auto simp: waitUntilVersion_def)
  next
    case False
    with run obtain reached err where wait: "WaitForVersion target before es w = (w', Some (reached, err))"
      and res: "(if \<not> reached then timeoutResult ctxErr kind key err (wt_store w') else refetch kind key (wt_store w')) = Ok (entity, status)"
      by (auto simp: waitUntilVersion_def split: option.splits prod.splits if_splits)
    note W = WaitForVersion_result[OF assms(1,2) wait]
    show ?thesis
    proof (cases reached)
      case True
      with W res show ?thesis by (auto simp: refetch_def split: if_splits)
    next
      case False
      with W res show ?thesis by (auto simp: timeoutResult_def split: if_splits)
    qed
  qed
qed

subsection \<open>Witnesses\<close>

text \<open>Twenty changes overflow the channel; the wait for the twentieth is not lost.\<close>

definition flood :: "unit wait_event list" where
  "flood = concat (map (\<lambda>n. [Raise (int n), Deliver (int n)]) [1..<20])"

definition idle_waiter :: "'s \<Rightarrow> 's waiter" where
  "idle_waiter s = \<lparr>wt_store = s, wt_last = - 1, wt_raised = [], wt_channel = []\<rparr>"

theorem wait_for_version_no_lost_wakeup_witness:
  "let w' = fst (WaitForVersion 20 [] (flood @ replicate 16 Wake) (idle_waiter ()))
   in snd (WaitForVersion 20 [] (flood @ replicate 16 Wake) (idle_waiter ())) = None \<and> wt_last w' < 20"
proof -
  let ?r = "WaitForVersion 20 [] (flood @ replicate 16 Wake) (idle_waiter ())"
  have none: "snd ?r = None" and ch: "wt_channel (fst ?r) = []" and ra: "wt_raised (fst ?r) = []" by code_simp+
  have "?r = (fst ?r, None)" using none by (metis prod.collapse)
  from wait_for_version_no_lost_wakeup[OF this ch ra] none show ?thesis by (simp add: Let_def)
qed

definition count_until :: "MemoryViewStore wait_event list" where
  "count_until = [Stored (\<lambda>m. fst (ms_Persist (\<lambda>x. Ok (count_encode x)) (count_result 5) 3 m)), Raise 3, Deliver 3, Wake]"

theorem until_version_reads_own_writes_witness:
  "mr_Get None ''count'' (Key [''k'']) [UntilVersion 3 1000] [] count_until (idle_waiter NewMemoryStore) =
     (\<lparr>wt_store = fst (ms_Persist (\<lambda>x. Ok (count_encode x)) (count_result 5) 3 NewMemoryStore), wt_last = 3, wt_raised = [], wt_channel = []\<rparr>,
      Some (Ok (Some \<lparr>en_kind = ''count'', en_key = Key [''k''], en_value = JNum 5, en_version = 3\<rparr>, StatusOK)))
   \<and> 3 \<le> ms_version (fst (ms_Persist (\<lambda>x. Ok (count_encode x)) (count_result 5) 3 NewMemoryStore))"
proof -
  let ?m = "fst (ms_Persist (\<lambda>x. Ok (count_encode x)) (count_result 5) 3 NewMemoryStore)"
  let ?w = "\<lparr>wt_store = ?m, wt_last = 3, wt_raised = [], wt_channel = []\<rparr> :: MemoryViewStore waiter"
  let ?e = "\<lparr>en_kind = ''count'', en_key = Key [''k''], en_value = JNum 5, en_version = 3\<rparr>"
  have m: "?m = \<lparr>ms_entities = Mapping.update ''count:k'' ?e Mapping.empty, ms_version = 3\<rparr>"
    by (simp add: ms_Persist_def count_result_def validateReduceResult_def List.map_filter_simps validateKey_def
        persist_upsert_def NewMemoryStore_def entityKey_def count_encode_def)
  have zero: "ms_version NewMemoryStore = 0" by (simp add: NewMemoryStore_def)
  have old: "ms_Get ''count'' (Key [''k'']) (wt_store (idle_waiter NewMemoryStore)) = Ok None"
    by (simp add: idle_waiter_def ms_Get_def validateKey_def NewMemoryStore_def)
  have wait: "WaitForVersion 3 [] count_until (idle_waiter NewMemoryStore) = (?w, Some (True, None))"
    by (simp add: WaitForVersion_def Let_def count_until_def idle_waiter_def atOrAbove_def raise_version_def)
  have fetch: "refetch ''count'' (Key [''k'']) (wt_store ?w) = Ok (Some ?e, StatusOK)"
    by (simp add: refetch_def ms_Get_def validateKey_def m entityKey_def)
  have run: "mr_Get None ''count'' (Key [''k'']) [UntilVersion 3 1000] [] count_until (idle_waiter NewMemoryStore) =
      (?w, Some (Ok (Some ?e, StatusOK)))"
    unfolding mr_Get_def old
    by (simp add: get_options_def waitUntilVersion_def wait fetch del: waiter.simps(1))
  have "truthful ms_version ([] @ count_until) (wt_store (idle_waiter NewMemoryStore))"
    by (simp add: count_until_def idle_waiter_def m zero)
  from until_version_reads_own_writes[OF _ this _ run, of 3] run show ?thesis
    by (simp add: idle_waiter_def get_options_def m zero)
qed

end
