(* ===== verification/ViewService.thy ===== *)
theory ViewService
  imports ViewPostgres ViewRead "HOL-Library.Sublist"
begin

text \<open>
  View projections over gRPC: the service's handlers (\<open>src/internal/service/views\<close>), and the remote store
  and the remote reader of \<open>src/pkg/indexer/views\<close> (\<open>remote.go\<close>, \<open>remote_reader.go\<close>).

  \<^item> A message is a record with the fields of \<open>views.proto\<close>; the value of an entity is a document, since it
    comes from a \<open>JSONB\<close> column. \<open>over_grpc\<close> is what a client sees of a handler's return: an error arrives as a
    status, given by \<open>status\<close>, and a panic of the server as the loss of the connection.
  \<^item> \<open>view_server\<close> is what the handlers share: the database and the registry of notifiers, \<open>None\<close> for nil.
  \<^item> Waits follow a schedule as in \<open>ViewRead\<close>.
\<close>

datatype GetStatus = GET_STATUS_OK | GET_STATUS_NOT_FOUND | GET_STATUS_STALE | GET_STATUS_TIMEOUT | OtherStatus int

record WireEntity =
  we_kind :: string
  we_key :: "string list"
  we_value :: json
  we_version :: int64

record WireUpsert =
  wu_kind :: string
  wu_key :: "string list"
  wu_value :: bytes

record WireDelete =
  wd_kind :: string
  wd_key :: "string list"

record ApplyMutationsRequest =
  am_identity :: ProjectionIdentity
  am_upserts :: "WireUpsert list"
  am_deletes :: "WireDelete list"
  am_eventId :: int64

record ChangeMessage =
  cm_upserts :: "WireUpsert list"
  cm_deletes :: "WireDelete list"
  cm_version :: int64

datatype VersionConstraint = AfterConstraint int64 | UntilVersionConstraint int64 int64

record GetEntityRequest =
  gr_identity :: ProjectionIdentity
  gr_kind :: string
  gr_key :: "string list"
  gr_constraint :: "VersionConstraint option"

record GetEntityResponse =
  ge_entity :: "WireEntity option"
  ge_status :: GetStatus

definition over_grpc :: "(goerror \<Rightarrow> goerror) \<Rightarrow> 'a outcome \<Rightarrow> 'a outcome" where
  "over_grpc status r =
     (case r of Ok x \<Rightarrow> Ok x | Err e \<Rightarrow> Err (status e) | Panic p \<Rightarrow> Err (StatusError ''Unavailable'' ''connection lost''))"

text \<open>The identity a handler builds from the fields of a request.\<close>

definition request_identity :: "ProjectionIdentity \<Rightarrow> ProjectionIdentity" where
  "request_identity i = NewProjectionIdentity (pi_domain i) (pi_stream i) (pi_projection i) (pi_consumer i)"

subsection \<open>The registry of notifiers\<close>

type_synonym 'v registry = "(int64 \<times> string, 'v Notifier) mapping"

definition getOrCreate :: "int64 \<Rightarrow> string \<Rightarrow> 'v registry \<Rightarrow> 'v registry \<times> 'v Notifier" where
  "getOrCreate sid projection r =
     (case Mapping.lookup r (sid, projection) of
        Some n \<Rightarrow> (r, n)
      | None \<Rightarrow> (Mapping.update (sid, projection) NewNotifier r, NewNotifier))"

definition Registry_Notify ::
  "(int64 \<Rightarrow> string \<Rightarrow> 'v Change \<Rightarrow> goerror option) \<Rightarrow> int64 \<Rightarrow> string \<Rightarrow> 'v Change \<Rightarrow> 'v registry \<Rightarrow> 'v registry \<times> goerror option" where
  "Registry_Notify callbacks sid projection change r =
     (case getOrCreate sid projection r of (r1, n) \<Rightarrow>
        (case Emit (callbacks sid projection) change n of (n1, err) \<Rightarrow> (Mapping.update (sid, projection) n1 r1, err)))"

definition Registry_WaitForVersion ::
  "'v registry \<Rightarrow> int64 \<Rightarrow> string \<Rightarrow> int64 \<Rightarrow> 's wait_event list \<Rightarrow> 's wait_event list \<Rightarrow> 's waiter
     \<Rightarrow> 's waiter \<times> (bool \<times> goerror option) option" where
  "Registry_WaitForVersion r sid projection targetVersion before es w =
     (case getOrCreate sid projection r of (r1, n) \<Rightarrow>
        WaitForVersion targetVersion before es (w\<lparr>wt_last := nt_lastVersion n\<rparr>))"

subsection \<open>The store service\<close>

record 'v view_server =
  vw_db :: view_db
  vw_registry :: "'v registry option"

definition wire_upsert :: "WireUpsert \<Rightarrow> 'v Upsert outcome" where
  "wire_upsert u = bindo (NewKey (wu_key u)) (\<lambda>key. Ok \<lparr>up_kind = wu_kind u, up_key = key, up_value = Bytes (wu_value u)\<rparr>)"

definition wire_delete :: "WireDelete \<Rightarrow> Delete outcome" where
  "wire_delete d = bindo (NewKey (wd_key d)) (\<lambda>key. Ok \<lparr>de_kind = wd_kind d, de_key = key\<rparr>)"

text \<open>The value of an upsert as the bytes of a message; \<open>wrap\<close> is what the caller makes of an error.\<close>

definition message_upsert :: "('v any_value \<Rightarrow> json outcome) \<Rightarrow> (goerror \<Rightarrow> goerror) \<Rightarrow> 'v Upsert \<Rightarrow> WireUpsert outcome" where
  "message_upsert marshal wrap u =
     (case (case up_value u of Bytes b \<Rightarrow> Ok b | _ \<Rightarrow> bindo (marshal (up_value u)) (\<lambda>doc. Ok (Document doc))) of
        Ok data \<Rightarrow> Ok \<lparr>wu_kind = up_kind u, wu_key = Parts (up_key u), wu_value = data\<rparr>
      | Err e \<Rightarrow> Err (wrap e)
      | Panic p \<Rightarrow> Panic p)"

definition message_delete :: "Delete \<Rightarrow> WireDelete" where
  "message_delete d = \<lparr>wd_kind = de_kind d, wd_key = Parts (de_key d)\<rparr>"

definition buildApplyResponse :: "('v any_value \<Rightarrow> json outcome) \<Rightarrow> 'v Change \<Rightarrow> ChangeMessage outcome" where
  "buildApplyResponse marshal change =
     bindo (traverse (message_upsert marshal (OperationError ''marshal upsert value'')) (ch_upserts change)) (\<lambda>us.
       Ok \<lparr>cm_upserts = us, cm_deletes = map message_delete (ch_deletes change), cm_version = ch_version change\<rparr>)"

text \<open>\<open>fault\<close> is for the statements of \<open>Persist\<close>, \<open>later\<close> for the lookup of the stream after it.\<close>

definition sh_ApplyMutations ::
  "('v any_value \<Rightarrow> json outcome) \<Rightarrow> faults \<Rightarrow> faults \<Rightarrow> (int64 \<Rightarrow> string \<Rightarrow> 'v Change \<Rightarrow> goerror option)
     \<Rightarrow> ApplyMutationsRequest \<Rightarrow> 'v view_server \<Rightarrow> 'v view_server \<times> ChangeMessage outcome" where
  "sh_ApplyMutations marshal fault later callbacks req sv =
     (case bindo (traverse wire_upsert (am_upserts req)) (\<lambda>us.
             bindo (traverse wire_delete (am_deletes req)) (\<lambda>ds. Ok \<lparr>rr_upserts = us, rr_deletes = ds\<rparr>)) of
        Err e \<Rightarrow> (sv, Err e)
      | Panic p \<Rightarrow> (sv, Panic p)
      | Ok result \<Rightarrow>
          (case pg_Persist marshal (request_identity (am_identity req)) fault (Some result) (am_eventId req) (vw_db sv) of
             (d, Err e) \<Rightarrow> (sv\<lparr>vw_db := d\<rparr>, Err e)
           | (d, Panic p) \<Rightarrow> (sv\<lparr>vw_db := d\<rparr>, Panic p)
           | (d, Ok change) \<Rightarrow>
               (let sv1 = sv\<lparr>vw_db := d\<rparr>
                in case ResolveStreamID later (pi_domain (am_identity req)) (pi_stream (am_identity req)) d of
                     Err e \<Rightarrow> (sv1, Err e)
                   | Panic p \<Rightarrow> (sv1, Panic p)
                   | Ok sid \<Rightarrow>
                       (case vw_registry sv1 of
                          None \<Rightarrow> (sv1, buildApplyResponse marshal change)
                        | Some r \<Rightarrow>
                            (case Registry_Notify callbacks sid (pi_projection (am_identity req)) change r of
                               (r1, Some e) \<Rightarrow> (sv1\<lparr>vw_registry := Some r1\<rparr>, Err e)
                             | (r1, None) \<Rightarrow> (sv1\<lparr>vw_registry := Some r1\<rparr>, buildApplyResponse marshal change))))))"

definition wire_entity :: "Entity \<Rightarrow> WireEntity" where
  "wire_entity e = \<lparr>we_kind = en_kind e, we_key = Parts (en_key e), we_value = en_value e, we_version = en_version e\<rparr>"

definition sh_GetEntity :: "faults \<Rightarrow> ProjectionIdentity \<Rightarrow> string \<Rightarrow> string list \<Rightarrow> view_db \<Rightarrow> GetEntityResponse outcome" where
  "sh_GetEntity fault i kind key d =
     (if key = [] then Err (StatusError ''InvalidArgument'' ''key must have at least 1 part'')
      else bindo (NewKey key) (\<lambda>k.
        bindo (pg_Get fault (request_identity i) kind k d) (\<lambda>entity.
          Ok (case entity of
                None \<Rightarrow> \<lparr>ge_entity = None, ge_status = GET_STATUS_NOT_FOUND\<rparr>
              | Some e \<Rightarrow> \<lparr>ge_entity = Some (wire_entity e), ge_status = GET_STATUS_OK\<rparr>))))"

subsection \<open>The remote store\<close>

definition entityFromResponse :: "GetEntityResponse \<Rightarrow> Entity option outcome" where
  "entityFromResponse resp =
     (case ge_entity resp of
        None \<Rightarrow> Ok None
      | Some e \<Rightarrow> bindo (NewKey (we_key e)) (\<lambda>key.
          Ok (Some \<lparr>en_kind = we_kind e, en_key = key, en_value = we_value e, en_version = we_version e\<rparr>)))"

definition wrap_error :: "string \<Rightarrow> 'a outcome \<Rightarrow> 'a outcome" where
  "wrap_error text r = (case r of Err e \<Rightarrow> Err (OperationError text e) | _ \<Rightarrow> r)"

definition rs_Get ::
  "(ProjectionIdentity \<Rightarrow> string \<Rightarrow> string list \<Rightarrow> GetEntityResponse outcome) \<Rightarrow> ProjectionIdentity \<Rightarrow> string \<Rightarrow> Key \<Rightarrow> Entity option outcome" where
  "rs_Get rpc i kind key = bindo (wrap_error ''get entity'' (rpc i kind (Parts key))) entityFromResponse"

definition change_upsert :: "WireUpsert \<Rightarrow> 'v Upsert outcome" where
  "change_upsert u = bindo (NewKey (wu_key u)) (\<lambda>key. Ok \<lparr>up_kind = wu_kind u, up_key = key, up_value = RawMessage (wu_value u)\<rparr>)"

text \<open>The loop over the upserts of a request marshals every value, a \<open>[]byte\<close> too.\<close>

definition request_upsert :: "('v any_value \<Rightarrow> json outcome) \<Rightarrow> 'v Upsert \<Rightarrow> WireUpsert outcome" where
  "request_upsert marshal u =
     bindo (wrap_error ''marshal upsert value'' (marshal (up_value u))) (\<lambda>data.
       Ok \<lparr>wu_kind = up_kind u, wu_key = Parts (up_key u), wu_value = Document data\<rparr>)"

definition rs_Persist ::
  "('v any_value \<Rightarrow> json outcome) \<Rightarrow> (ApplyMutationsRequest \<Rightarrow> 's \<Rightarrow> 's \<times> ChangeMessage outcome) \<Rightarrow> ProjectionIdentity
     \<Rightarrow> 'v ReduceResult option \<Rightarrow> int64 \<Rightarrow> 's \<Rightarrow> 's \<times> 'v Change outcome" where
  "rs_Persist marshal rpc i result eventID s =
     (case traverse (request_upsert marshal) (rr_upserts (result_of result)) of
        Err e \<Rightarrow> (s, Err e)
      | Panic p \<Rightarrow> (s, Panic p)
      | Ok us \<Rightarrow>
          (case rpc \<lparr>am_identity = i, am_upserts = us, am_deletes = map message_delete (rr_deletes (result_of result)),
                     am_eventId = eventID\<rparr> s of
             (s1, r) \<Rightarrow>
               (s1, bindo (wrap_error ''apply mutations'' r) (\<lambda>resp.
                  bindo (traverse change_upsert (cm_upserts resp)) (\<lambda>us'.
                    bindo (traverse wire_delete (cm_deletes resp)) (\<lambda>ds'.
                      Ok \<lparr>ch_upserts = us', ch_deletes = ds', ch_version = cm_version resp\<rparr>))))))"

subsection \<open>The consumer service\<close>

definition protoFromStatus :: "Status \<Rightarrow> GetStatus" where
  "protoFromStatus s =
     (case s of StatusOK \<Rightarrow> GET_STATUS_OK | StatusNotFound \<Rightarrow> GET_STATUS_NOT_FOUND
      | StatusStale \<Rightarrow> GET_STATUS_STALE | StatusTimeout \<Rightarrow> GET_STATUS_TIMEOUT)"

definition buildGetResponse :: "Entity option \<Rightarrow> Status \<Rightarrow> GetEntityResponse" where
  "buildGetResponse entity status = \<lparr>ge_entity = map_option wire_entity entity, ge_status = protoFromStatus status\<rparr>"

text \<open>\<open>again\<close> is for the statements of the second read.\<close>

definition untilTimeoutResult ::
  "faults \<Rightarrow> goerror option \<Rightarrow> GetEntityRequest \<Rightarrow> ProjectionIdentity \<Rightarrow> goerror option \<Rightarrow> view_db \<Rightarrow> (Entity option \<times> Status) outcome" where
  "untilTimeoutResult again ctxErr req i waitErr d =
     (if waitErr \<noteq> Some (ContextError True) \<or> ctxErr \<noteq> None
      then (case waitErr of Some e \<Rightarrow> Err e | None \<Rightarrow> Ok (None, StatusOK))
      else bindo (NewKey (gr_key req)) (\<lambda>key. bindo (pg_Get again i (gr_kind req) key d) (\<lambda>current. Ok (current, StatusTimeout))))"

definition resolveUntilVersion ::
  "faults \<Rightarrow> faults \<Rightarrow> goerror option \<Rightarrow> 'v registry \<Rightarrow> GetEntityRequest \<Rightarrow> ProjectionIdentity \<Rightarrow> Entity option \<Rightarrow> int64
     \<Rightarrow> view_db wait_event list \<Rightarrow> view_db wait_event list \<Rightarrow> view_db waiter
     \<Rightarrow> view_db waiter \<times> (Entity option \<times> Status) outcome option" where
  "resolveUntilVersion fault again ctxErr reg req i entity target before es w =
     (if (case entity of Some e \<Rightarrow> en_version e \<ge> target | None \<Rightarrow> False) then (w, Some (Ok (entity, StatusOK)))
      else case ResolveStreamID fault (pi_domain (gr_identity req)) (pi_stream (gr_identity req)) (wt_store w) of
             Err e \<Rightarrow> (w, Some (Err e))
           | Panic p \<Rightarrow> (w, Some (Panic p))
           | Ok sid \<Rightarrow>
               (case Registry_WaitForVersion reg sid (pi_projection (gr_identity req)) target before es w of
                  (w1, None) \<Rightarrow> (w1, None)
                | (w1, Some (reached, err)) \<Rightarrow>
                    (w1, Some
                       (if \<not> reached then untilTimeoutResult again ctxErr req i err (wt_store w1)
                        else bindo (NewKey (gr_key req)) (\<lambda>key.
                               bindo (pg_Get again i (gr_kind req) key (wt_store w1)) (\<lambda>current.
                                 Ok (current, if current = None then StatusNotFound else StatusOK)))))))"

definition resolveGet ::
  "faults \<Rightarrow> faults \<Rightarrow> goerror option \<Rightarrow> 'v registry \<Rightarrow> GetEntityRequest \<Rightarrow> ProjectionIdentity \<Rightarrow> Entity option
     \<Rightarrow> view_db wait_event list \<Rightarrow> view_db wait_event list \<Rightarrow> view_db waiter
     \<Rightarrow> view_db waiter \<times> (Entity option \<times> Status) outcome option" where
  "resolveGet fault again ctxErr reg req i entity before es w =
     (case gr_constraint req of
        Some (UntilVersionConstraint target timeoutMs) \<Rightarrow> resolveUntilVersion fault again ctxErr reg req i entity target before es w
      | Some (AfterConstraint version) \<Rightarrow>
          (w, Some (Ok (case entity of
             None \<Rightarrow> (None, StatusNotFound)
           | Some e \<Rightarrow> (Some e, if en_version e < version then StatusStale else StatusOK))))
      | None \<Rightarrow>
          (w, Some (Ok (case entity of None \<Rightarrow> (None, StatusNotFound) | Some e \<Rightarrow> (Some e, StatusOK)))))"

definition ch_GetEntity ::
  "faults \<Rightarrow> faults \<Rightarrow> goerror option \<Rightarrow> 'v registry \<Rightarrow> GetEntityRequest
     \<Rightarrow> view_db wait_event list \<Rightarrow> view_db wait_event list \<Rightarrow> view_db waiter \<Rightarrow> view_db waiter \<times> GetEntityResponse outcome option" where
  "ch_GetEntity fault again ctxErr reg req before es w =
     (if gr_key req = [] then (w, Some (Err (StatusError ''InvalidArgument'' ''key must have at least 1 part'')))
      else let i = request_identity (gr_identity req)
           in case bindo (NewKey (gr_key req)) (\<lambda>key. pg_Get fault i (gr_kind req) key (wt_store w)) of
                Err e \<Rightarrow> (w, Some (Err e))
              | Panic p \<Rightarrow> (w, Some (Panic p))
              | Ok entity \<Rightarrow>
                  (case resolveGet fault again ctxErr reg req i entity before es w of
                     (w1, r) \<Rightarrow> (w1, map_option (\<lambda>o'. bindo o' (\<lambda>(e, status). Ok (buildGetResponse e status))) r)))"

definition ch_Version :: "faults \<Rightarrow> ProjectionIdentity \<Rightarrow> view_db \<Rightarrow> int64 outcome" where
  "ch_Version fault i d = bindo (pg_Version fault (request_identity i) d) Ok"

text \<open>
  \<open>WatchChanges\<close>: the callback puts a change into a channel of capacity 16 and drops it when the channel is
  full; the handler takes changes from it and sends those beyond the requested version. The schedule says
  when a change arrives, when the handler takes one and when the context of the stream ends.
\<close>

datatype 'v watch_event = Arrives "'v Change" | Takes | Ends goerror

definition buildWatchResponse :: "('v any_value \<Rightarrow> json outcome) \<Rightarrow> 'v Change \<Rightarrow> ChangeMessage outcome" where
  "buildWatchResponse marshal c =
     bindo (traverse (message_upsert marshal (\<lambda>e. e)) (ch_upserts c)) (\<lambda>us.
       Ok \<lparr>cm_upserts = us, cm_deletes = map message_delete (ch_deletes c), cm_version = ch_version c\<rparr>)"

fun changeStream ::
  "('v any_value \<Rightarrow> json outcome) \<Rightarrow> (ChangeMessage \<Rightarrow> goerror option) \<Rightarrow> int64 \<Rightarrow> 'v watch_event list
     \<Rightarrow> 'v Change list \<times> ChangeMessage list \<Rightarrow> ('v Change list \<times> ChangeMessage list) \<times> unit outcome option" where
  "changeStream marshal send afterVersion [] (ch, sent) = ((ch, sent), None)"
| "changeStream marshal send afterVersion (Arrives c # es) (ch, sent) =
     changeStream marshal send afterVersion es (if length ch < 16 then ch @ [c] else ch, sent)"
| "changeStream marshal send afterVersion (Ends e # es) (ch, sent) = ((ch, sent), Some (Err e))"
| "changeStream marshal send afterVersion (Takes # es) (ch, sent) =
     (case ch of
        [] \<Rightarrow> changeStream marshal send afterVersion es (ch, sent)
      | c # ch' \<Rightarrow>
          (if ch_version c \<le> afterVersion then changeStream marshal send afterVersion es (ch', sent)
           else case buildWatchResponse marshal c of
                  Err e \<Rightarrow> ((ch', sent), Some (Err e))
                | Panic p \<Rightarrow> ((ch', sent), Some (Panic p))
                | Ok resp \<Rightarrow>
                    (case send resp of
                       Some e \<Rightarrow> ((ch', sent), Some (Err e))
                     | None \<Rightarrow> changeStream marshal send afterVersion es (ch', sent @ [resp]))))"

definition ch_WatchChanges ::
  "faults \<Rightarrow> ('v any_value \<Rightarrow> json outcome) \<Rightarrow> (ChangeMessage \<Rightarrow> goerror option) \<Rightarrow> ProjectionIdentity \<Rightarrow> int64 option \<Rightarrow> view_db
     \<Rightarrow> 'v watch_event list \<Rightarrow> ('v Change list \<times> ChangeMessage list) \<times> unit outcome option" where
  "ch_WatchChanges fault marshal send i constraint d es =
     (let afterVersion = (case constraint of Some v \<Rightarrow> v | None \<Rightarrow> 0)
      in case ResolveStreamID fault (pi_domain i) (pi_stream i) d of
           Err e \<Rightarrow> (([], []), Some (Err e))
         | Panic p \<Rightarrow> (([], []), Some (Panic p))
         | Ok sid \<Rightarrow> changeStream marshal send afterVersion es ([], []))"

subsection \<open>The remote reader\<close>

definition statusFromProto :: "GetStatus \<Rightarrow> Status outcome" where
  "statusFromProto s =
     (case s of GET_STATUS_OK \<Rightarrow> Ok StatusOK | GET_STATUS_NOT_FOUND \<Rightarrow> Ok StatusNotFound
      | GET_STATUS_STALE \<Rightarrow> Ok StatusStale | GET_STATUS_TIMEOUT \<Rightarrow> Ok StatusTimeout
      | OtherStatus n \<Rightarrow> Err (TextError ''unknown get status''))"

fun status_code :: "goerror \<Rightarrow> string" where
  "status_code (StatusError code text) = code"
| "status_code e = ''Unknown''"

definition translateGetError :: "goerror option \<Rightarrow> goerror \<Rightarrow> goerror" where
  "translateGetError ctxErr err =
     (if status_code err \<noteq> ''Canceled'' \<and> status_code err \<noteq> ''DeadlineExceeded'' then OperationError ''get entity'' err
      else case ctxErr of Some e \<Rightarrow> e | None \<Rightarrow> OperationError ''get entity'' err)"

text \<open>\<open>Duration.Milliseconds\<close> rounds towards zero.\<close>

definition Milliseconds :: "duration \<Rightarrow> int64" where
  "Milliseconds t = (if t < 0 then - ((- t) div 1000000) else t div 1000000)"

definition get_request :: "ProjectionIdentity \<Rightarrow> string \<Rightarrow> Key \<Rightarrow> GetOption list \<Rightarrow> GetEntityRequest" where
  "get_request i kind key opts =
     (let cfg = get_options opts
      in \<lparr>gr_identity = i, gr_kind = kind, gr_key = Parts key,
          gr_constraint = (case go_untilVersion cfg of
             Some v \<Rightarrow> Some (UntilVersionConstraint v (Milliseconds (go_untilTimeout cfg)))
           | None \<Rightarrow> map_option AfterConstraint (go_afterVersion cfg))\<rparr>)"

definition rr_Get ::
  "(GetEntityRequest \<Rightarrow> GetEntityResponse outcome) \<Rightarrow> goerror option \<Rightarrow> ProjectionIdentity \<Rightarrow> string \<Rightarrow> Key \<Rightarrow> GetOption list
     \<Rightarrow> (Entity option \<times> Status) outcome" where
  "rr_Get rpc ctxErr i kind key opts =
     (case rpc (get_request i kind key opts) of
        Err e \<Rightarrow> Err (translateGetError ctxErr e)
      | Panic p \<Rightarrow> Panic p
      | Ok resp \<Rightarrow>
          bindo (statusFromProto (ge_status resp)) (\<lambda>status. bindo (entityFromResponse resp) (\<lambda>e. Ok (e, status))))"

definition rr_Version :: "(ProjectionIdentity \<Rightarrow> int64 outcome) \<Rightarrow> ProjectionIdentity \<Rightarrow> int64 outcome" where
  "rr_Version rpc i = wrap_error ''get version'' (rpc i)"

subsection \<open>The remote store keeps the contract\<close>

text \<open>The server behind the stub of a remote store; \<open>env\<close> are the faults and observers during the call.\<close>

definition remote_rpc ::
  "(goerror \<Rightarrow> goerror) \<Rightarrow> ('v any_value \<Rightarrow> json outcome) \<Rightarrow> faults \<times> faults \<times> (int64 \<Rightarrow> string \<Rightarrow> 'v Change \<Rightarrow> goerror option)
     \<Rightarrow> ApplyMutationsRequest \<Rightarrow> 'v view_server \<Rightarrow> 'v view_server \<times> ChangeMessage outcome" where
  "remote_rpc status marshal env req sv =
     (case env of (fault, later, callbacks) \<Rightarrow>
        (case sh_ApplyMutations marshal fault later callbacks req sv of (sv', r) \<Rightarrow> (sv', over_grpc status r)))"

definition remote_get :: "(goerror \<Rightarrow> goerror) \<Rightarrow> ProjectionIdentity \<Rightarrow> string \<Rightarrow> Key \<Rightarrow> 'v view_server \<Rightarrow> Entity option outcome" where
  "remote_get status i kind key sv =
     rs_Get (\<lambda>i kind key. over_grpc status (sh_GetEntity no_faults i kind key (vw_db sv))) i kind key"

definition remote_persist ::
  "(goerror \<Rightarrow> goerror) \<Rightarrow> ('v any_value \<Rightarrow> json outcome) \<Rightarrow> ProjectionIdentity
     \<Rightarrow> faults \<times> faults \<times> (int64 \<Rightarrow> string \<Rightarrow> 'v Change \<Rightarrow> goerror option)
     \<Rightarrow> 'v ReduceResult option \<Rightarrow> int64 \<Rightarrow> 'v view_server \<Rightarrow> 'v view_server \<times> 'v Change outcome" where
  "remote_persist status marshal i env = rs_Persist marshal (remote_rpc status marshal env) i"

lemma valid_key_parts:
  assumes "valid_name kind key"
  shows "Parts key \<noteq> []" "NewKey (Parts key) = Ok key"
proof -
  from assms have "validateKey key = None" by (simp add: valid_name_def)
  then show "Parts key \<noteq> []" "NewKey (Parts key) = Ok key"
    by (cases rule: validateKey_cases; simp add: NewKey_def)+
qed

lemma entity_round_trip: "validateKey (en_key e) = None \<Longrightarrow>
  entityFromResponse \<lparr>ge_entity = Some (wire_entity e), ge_status = s\<rparr> = Ok (Some e)"
  using valid_key_parts(2)[of "en_kind e" "en_key e"]
  by (simp add: entityFromResponse_def wire_entity_def valid_name_def)

lemma remote_get_eq:
  assumes "pg_ready (request_identity i) (vw_db sv)" "valid_name kind key"
  shows "remote_get status i kind key sv = pg_Get no_faults (request_identity i) kind key (vw_db sv)"
proof -
  let ?e = "as_entity kind key (pg_view (request_identity i) (vw_db sv) kind key)"
  have g: "pg_Get no_faults (request_identity i) kind key (vw_db sv) = Ok ?e"
    using assms by (intro pg_Get_view) (simp_all add: pg_ready_def)
  have "entityFromResponse \<lparr>ge_entity = map_option wire_entity ?e, ge_status = s\<rparr> = Ok ?e" for s
  proof (cases ?e)
    case (Some e)
    then have "en_key e = key" by (auto simp: as_entity_def)
    with Some assms(2) entity_round_trip[of e s] show ?thesis by (simp add: valid_name_def)
  qed (simp add: entityFromResponse_def)
  then show ?thesis
    using g valid_key_parts[OF assms(2)]
    by (cases ?e) (simp_all add: remote_get_def rs_Get_def sh_GetEntity_def over_grpc_def wrap_error_def)
qed

lemma remote_shows:
  "pg_ready (request_identity i) (vw_db sv) \<Longrightarrow>
   shows_view (remote_get status i) valid_name sv V \<longleftrightarrow> shows_view (pg_Get no_faults (request_identity i)) valid_name (vw_db sv) V"
  by (simp add: shows_view_def remote_get_eq)

text \<open>What the server is sent for a result whose values can be encoded.\<close>

definition sent_upsert :: "('v any_value \<Rightarrow> json outcome) \<Rightarrow> 'v Upsert \<Rightarrow> 'v Upsert" where
  "sent_upsert marshal u = u\<lparr>up_value := Bytes (Document (case marshal (up_value u) of Ok doc \<Rightarrow> doc))\<rparr>"

lemma request_upsert_Ok:
  "request_upsert marshal u = Ok w \<longleftrightarrow>
     (\<exists>doc. marshal (up_value u) = Ok doc \<and> w = \<lparr>wu_kind = up_kind u, wu_key = Parts (up_key u), wu_value = Document doc\<rparr>)"
  by (cases "marshal (up_value u)") (auto simp: request_upsert_def wrap_error_def)

lemma request_upserts:
  assumes "traverse (request_upsert marshal) us = Ok ws" "\<forall>u \<in> set us. valid_name (up_kind u) (up_key u)"
  shows "traverse wire_upsert ws = Ok (map (sent_upsert marshal) us) \<and> (\<forall>u \<in> set us. is_ok (marshal (up_value u)))"
  using assms
proof (induction us arbitrary: ws)
  case (Cons u us)
  from Cons.prems(1) obtain doc w where "marshal (up_value u) = Ok doc" "ws = \<lparr>wu_kind = up_kind u, wu_key = Parts (up_key u), wu_value = Document doc\<rparr> # w"
    "traverse (request_upsert marshal) us = Ok w"
    by (auto simp: request_upsert_Ok)
  with Cons valid_key_parts(2)[of "up_kind u" "up_key u"] show ?case
    by (simp add: wire_upsert_def sent_upsert_def)
qed simp

lemma request_deletes:
  "\<forall>d \<in> set ds. valid_name (de_kind d) (de_key d) \<Longrightarrow> traverse wire_delete (map message_delete ds) = Ok ds"
proof (induction ds)
  case (Cons d ds)
  with valid_key_parts(2)[of "de_kind d" "de_key d"] show ?case by (simp add: wire_delete_def message_delete_def)
qed simp

lemma mutated_sent:
  assumes "\<forall>u \<in> set us. is_ok (marshal (up_value u))"
  shows "mutated (pg_encode marshal) v (Some \<lparr>rr_upserts = map (sent_upsert marshal) us, rr_deletes = ds\<rparr>) V =
         mutated marshal v (Some \<lparr>rr_upserts = us, rr_deletes = ds\<rparr>) V"
proof (rule ext)+
  fix kind key
  have f: "List.find (\<lambda>u. up_kind u = kind \<and> up_key u = key) (rev (map (sent_upsert marshal) us)) =
      map_option (sent_upsert marshal) (List.find (\<lambda>u. up_kind u = kind \<and> up_key u = key) (rev us))"
    unfolding rev_map by (rule find_map_key) (simp add: sent_upsert_def)
  have "pg_encode marshal (up_value (sent_upsert marshal u)) = marshal (up_value u)"
    if "List.find (\<lambda>u. up_kind u = kind \<and> up_key u = key) (rev us) = Some u" for u
  proof -
    from that assms have "is_ok (marshal (up_value u))" by (auto dest!: find_SomeD)
    then show ?thesis by (auto simp: pg_encode_def marshalValue_def jsonb_def sent_upsert_def is_ok_iff)
  qed
  then show "mutated (pg_encode marshal) v (Some \<lparr>rr_upserts = map (sent_upsert marshal) us, rr_deletes = ds\<rparr>) V kind key =
      mutated marshal v (Some \<lparr>rr_upserts = us, rr_deletes = ds\<rparr>) V kind key"
    by (simp add: mutated_def f split: option.split)
qed

lemma sh_ApplyMutations_db:
  assumes "bindo (traverse wire_upsert (am_upserts req)) (\<lambda>us.
             bindo (traverse wire_delete (am_deletes req)) (\<lambda>ds. Ok \<lparr>rr_upserts = us, rr_deletes = ds\<rparr>)) = Ok result"
    and "sh_ApplyMutations marshal fault later callbacks req sv = (sv', r)"
  shows "vw_db sv' = fst (pg_Persist marshal (request_identity (am_identity req)) fault (Some result) (am_eventId req) (vw_db sv))
    \<and> (\<forall>m. r = Ok m \<longrightarrow> is_ok (snd (pg_Persist marshal (request_identity (am_identity req)) fault (Some result) (am_eventId req) (vw_db sv)))
          \<and> cm_version m = am_eventId req)"
proof -
  obtain d x where p: "pg_Persist marshal (request_identity (am_identity req)) fault (Some result) (am_eventId req) (vw_db sv) = (d, x)" by fastforce
  have v: "ch_version c = am_eventId req" if "x = Ok c" for c
    using p that by (auto simp: pg_Persist_def applyAndRecord_def applyMutations_def Let_def split: option.splits outcome.splits prod.splits)
  show ?thesis
  proof (cases x)
    case (Ok c)
    with assms p v[OF Ok] show ?thesis
      by (auto simp: sh_ApplyMutations_def Let_def buildApplyResponse_def split: outcome.splits option.splits prod.splits)
  qed (use assms p in \<open>auto simp: sh_ApplyMutations_def\<close>)
qed

lemma remote_persist_db:
  assumes "named_result valid_name result" "remote_persist status marshal i (fault, later, callbacks) result v sv = (sv', r)"
  shows "sv' = sv \<and> \<not> is_ok r \<or> (\<exists>result'.
     mutated (pg_encode marshal) v (Some result') = mutated marshal v result
     \<and> vw_db sv' = fst (pg_Persist marshal (request_identity i) fault (Some result') v (vw_db sv))
     \<and> (\<forall>c. r = Ok c \<longrightarrow> is_ok (snd (pg_Persist marshal (request_identity i) fault (Some result') v (vw_db sv))) \<and> ch_version c = v))"
proof (cases "traverse (request_upsert marshal) (rr_upserts (result_of result))")
  case (Ok ws)
  let ?us = "rr_upserts (result_of result)" and ?ds = "rr_deletes (result_of result)"
  let ?req = "\<lparr>am_identity = i, am_upserts = ws, am_deletes = map message_delete ?ds, am_eventId = v\<rparr>"
  let ?r = "\<lparr>rr_upserts = map (sent_upsert marshal) ?us, rr_deletes = ?ds\<rparr>"
  from assms(1) have names: "\<forall>u \<in> set ?us. valid_name (up_kind u) (up_key u)" "\<forall>d \<in> set ?ds. valid_name (de_kind d) (de_key d)"
    by (simp_all add: named_result_of)
  from request_upserts[OF Ok names(1)] have us: "traverse wire_upsert ws = Ok (map (sent_upsert marshal) ?us)"
    and ok: "\<forall>u \<in> set ?us. is_ok (marshal (up_value u))" by auto
  obtain sv1 r1 where s: "sh_ApplyMutations marshal fault later callbacks ?req sv = (sv1, r1)" by fastforce
  have built: "bindo (traverse wire_upsert (am_upserts ?req)) (\<lambda>us.
      bindo (traverse wire_delete (am_deletes ?req)) (\<lambda>ds. Ok \<lparr>rr_upserts = us, rr_deletes = ds\<rparr>)) = Ok ?r"
    using us request_deletes[OF names(2)] by simp
  note S = sh_ApplyMutations_db[OF built s]
  have "sv' = sv1" "\<And>c. r = Ok c \<Longrightarrow> \<exists>m. r1 = Ok m \<and> ch_version c = cm_version m"
    using assms(2) Ok s
    by (auto simp: remote_persist_def rs_Persist_def remote_rpc_def over_grpc_def wrap_error_def split: outcome.splits)
  moreover have "mutated (pg_encode marshal) v (Some ?r) = mutated marshal v result"
  proof -
    have "mutated marshal v (Some \<lparr>rr_upserts = ?us, rr_deletes = ?ds\<rparr>) V kind key = mutated marshal v result V kind key" for V kind key
      unfolding mutated_result_of by (simp add: result_of_def)
    then show ?thesis using mutated_sent[OF ok] by (simp add: fun_eq_iff)
  qed
  ultimately show ?thesis using S by (intro disjI2 exI[of _ ?r]) auto
qed (use assms(2) in \<open>auto simp: remote_persist_def rs_Persist_def\<close>)

lemma remote_persist_ready:
  assumes "pg_ready (request_identity i) (vw_db sv)" "named_result valid_name result"
  shows "pg_ready (request_identity i) (vw_db (fst (remote_persist status marshal i env result v sv)))"
proof -
  obtain fault later callbacks where env: "env = (fault, later, callbacks)" by (cases env)
  obtain sv1 r where "remote_persist status marshal i (fault, later, callbacks) result v sv = (sv1, r)" by fastforce
  with remote_persist_db[OF assms(2) this] pg_ready_Persist[OF assms(1)] assms(1) env show ?thesis by auto
qed

lemma remote_persist_shows:
  assumes ready: "pg_ready (request_identity i) (vw_db sv)" and V: "shows_view (remote_get status i) valid_name sv V"
    and n: "named_result valid_name result" and run: "remote_persist status marshal i env result v sv = (sv', Ok c)"
  shows "shows_view (remote_get status i) valid_name sv' (mutated marshal v result V) \<and> ch_version c = v"
proof -
  let ?i = "request_identity i"
  obtain fault later callbacks where env: "env = (fault, later, callbacks)" by (cases env)
  from remote_persist_db[OF n run[unfolded env]] obtain result' where
    m: "mutated (pg_encode marshal) v (Some result') = mutated marshal v result"
    and db: "vw_db sv' = fst (pg_Persist marshal ?i fault (Some result') v (vw_db sv))"
    and ok: "is_ok (snd (pg_Persist marshal ?i fault (Some result') v (vw_db sv)))" "ch_version c = v" by auto
  from ok(1) db obtain c' where p: "pg_Persist marshal ?i fault (Some result') v (vw_db sv) = (vw_db sv', Ok c')"
    by (metis is_ok_iff prod.collapse)
  have ready': "pg_ready ?i (vw_db sv')" using remote_persist_ready[OF ready n, of status marshal env v] run by simp
  have view: "pg_view ?i (vw_db sv') = mutated (pg_encode marshal) v (Some result') (pg_view ?i (vw_db sv))"
    by (rule pg_Persist_view[OF ready p])
  have "V kind key = pg_view ?i (vw_db sv) kind key" if "valid_name kind key" for kind key
    using that V remote_shows[OF ready] pg_ready_shows[OF ready] by simp
  with view have "shows_view (pg_Get no_faults ?i) valid_name (vw_db sv') (mutated (pg_encode marshal) v (Some result') V)"
    unfolding pg_ready_shows[OF ready'] by (auto intro: mutated_cong)
  with m remote_shows[OF ready'] ok(2) show ?thesis by simp
qed

interpretation remote_views: view_store "remote_get status i" "remote_persist status marshal i" marshal
  "\<lambda>sv. pg_ready (request_identity i) (vw_db sv)" valid_name
proof
  show "\<exists>V. shows_view (remote_get status i) valid_name sv V" if "pg_ready (request_identity i) (vw_db sv)" for sv
    using postgres_views.has_view[OF that] remote_shows[OF that] by simp
qed (fact remote_persist_shows, fact remote_persist_ready)

subsection \<open>Waits on two stores\<close>

text \<open>
  Two schedules match when they announce the same versions and their stores change alike: \<open>R\<close> says that two
  stores correspond.
\<close>

fun matched :: "('s \<Rightarrow> 't \<Rightarrow> bool) \<Rightarrow> 's wait_event \<Rightarrow> 't wait_event \<Rightarrow> bool" where
  "matched R (Raise v) (Raise v') \<longleftrightarrow> v = v'"
| "matched R (Deliver v) (Deliver v') \<longleftrightarrow> v = v'"
| "matched R (Stored f) (Stored g) \<longleftrightarrow> (\<forall>s t. R s t \<longrightarrow> R (f s) (g t))"
| "matched R Wake Wake \<longleftrightarrow> True"
| "matched R (Done e) (Done e') \<longleftrightarrow> e = e'"
| "matched R _ _ \<longleftrightarrow> False"

definition alike :: "('s \<Rightarrow> 't \<Rightarrow> bool) \<Rightarrow> 's waiter \<Rightarrow> 't waiter \<Rightarrow> bool" where
  "alike R w w' \<longleftrightarrow> R (wt_store w) (wt_store w') \<and> wt_last w = wt_last w' \<and> wt_raised w = wt_raised w' \<and> wt_channel w = wt_channel w'"

lemma elsewhere_alike: "alike R w w' \<Longrightarrow> matched R e e' \<Longrightarrow> alike R (elsewhere e w) (elsewhere e' w')"
  by (cases e; cases e') (simp_all add: alike_def)

lemma fold_alike:
  "list_all2 (matched R) es es' \<Longrightarrow> alike R w w' \<Longrightarrow> alike R (fold elsewhere es w) (fold elsewhere es' w')"
  by (induction arbitrary: w w' rule: list_all2_induct) (simp_all add: elsewhere_alike)

lemma wait_loop_alike:
  "list_all2 (matched R) es es' \<Longrightarrow> alike R w w' \<Longrightarrow>
   alike R (fst (wait_loop target es w)) (fst (wait_loop target es' w')) \<and> snd (wait_loop target es w) = snd (wait_loop target es' w')"
proof (induction arbitrary: w w' rule: list_all2_induct)
  case (Cons e es e' es')
  show ?case
  proof (cases e)
    case Wake
    with Cons.hyps(1) have e': "e' = Wake" by (cases e') simp_all
    have ch: "wt_channel w = wt_channel w'" "wt_last w = wt_last w'" using Cons.prems by (simp_all add: alike_def)
    show ?thesis
    proof (cases "wt_channel w'")
      case Nil
      with Cons Wake e' ch show ?thesis by simp
    next
      case c: (Cons v vs)
      have "alike R (w\<lparr>wt_channel := vs\<rparr>) (w'\<lparr>wt_channel := vs\<rparr>)" using Cons.prems by (simp add: alike_def)
      with Cons.IH[OF this] Wake e' ch c show ?thesis by (simp add: Let_def atOrAbove_def)
    qed
  next
    case (Done x)
    with Cons show ?thesis by (cases e') (simp_all add: alike_def atOrAbove_def)
  next
    case (Raise v)
    with Cons.hyps(1) have "e' = Raise v" by (cases e') simp_all
    with Cons.IH[OF elsewhere_alike[OF Cons.prems Cons.hyps(1)]] Raise show ?thesis by simp
  next
    case (Deliver v)
    with Cons.hyps(1) have "e' = Deliver v" by (cases e') simp_all
    with Cons.IH[OF elsewhere_alike[OF Cons.prems Cons.hyps(1)]] Deliver show ?thesis by simp
  next
    case (Stored f)
    with Cons.hyps(1) obtain g where "e' = Stored g" by (cases e') simp_all
    with Cons.IH[OF elsewhere_alike[OF Cons.prems Cons.hyps(1)]] Stored show ?thesis by simp
  qed
qed simp

lemma WaitForVersion_alike:
  assumes "list_all2 (matched R) before before'" "list_all2 (matched R) es es'" "alike R w w'"
  shows "alike R (fst (WaitForVersion target before es w)) (fst (WaitForVersion target before' es' w'))
    \<and> snd (WaitForVersion target before es w) = snd (WaitForVersion target before' es' w')"
proof -
  have "alike R (w\<lparr>wt_channel := []\<rparr>) (w'\<lparr>wt_channel := []\<rparr>)" using assms(3) by (simp add: alike_def)
  from fold_alike[OF assms(1) this] have a: "alike R (fold elsewhere before (w\<lparr>wt_channel := []\<rparr>)) (fold elsewhere before' (w'\<lparr>wt_channel := []\<rparr>))" .
  then have "atOrAbove target (fold elsewhere before (w\<lparr>wt_channel := []\<rparr>)) = atOrAbove target (fold elsewhere before' (w'\<lparr>wt_channel := []\<rparr>))"
    by (simp add: alike_def atOrAbove_def)
  with a wait_loop_alike[OF assms(2) a, of target] show ?thesis by (simp add: WaitForVersion_def Let_def)
qed

text \<open>An in-memory store and a database show the same view of a projection.\<close>

definition same_view :: "ProjectionIdentity \<Rightarrow> MemoryViewStore \<Rightarrow> view_db \<Rightarrow> bool" where
  "same_view i m d \<longleftrightarrow> pg_ready (request_identity i) d \<and>
     (\<exists>V. shows_view ms_Get plain_name m V \<and> shows_view (pg_Get no_faults (request_identity i)) valid_name d V)"

lemma plain_valid: "plain_name kind key \<Longrightarrow> valid_name kind key"
  by (simp add: plain_name_def valid_name_def)

lemma same_view_get:
  assumes "same_view i m d" "plain_name kind key"
  obtains entity where "ms_Get kind key m = Ok entity" "pg_Get no_faults (request_identity i) kind key d = Ok entity"
    "\<And>e. entity = Some e \<Longrightarrow> en_key e = key"
proof -
  from assms(1) obtain V where "shows_view ms_Get plain_name m V" "shows_view (pg_Get no_faults (request_identity i)) valid_name d V"
    by (auto simp: same_view_def)
  with assms(2) plain_valid[OF assms(2)] have "ms_Get kind key m = Ok (as_entity kind key (V kind key))"
    "pg_Get no_faults (request_identity i) kind key d = Ok (as_entity kind key (V kind key))" by (simp_all add: shows_view_def)
  moreover have "en_key e = key" if "as_entity kind key (V kind key) = Some e" for e using that by (auto simp: as_entity_def)
  ultimately show ?thesis using that by blast
qed

subsection \<open>Watching changes\<close>

fun arrived :: "'v watch_event list \<Rightarrow> 'v Change list" where
  "arrived [] = []"
| "arrived (Arrives c # es) = c # arrived es"
| "arrived (_ # es) = arrived es"

text \<open>The buffer of a watch, holding \<open>n\<close> changes at first, never has to drop one.\<close>

fun roomy :: "nat \<Rightarrow> 'v watch_event list \<Rightarrow> bool" where
  "roomy n [] \<longleftrightarrow> True"
| "roomy n (Arrives c # es) \<longleftrightarrow> n < 16 \<and> roomy (n + 1) es"
| "roomy n (Takes # es) \<longleftrightarrow> roomy (n - 1) es"
| "roomy n (Ends e # es) \<longleftrightarrow> True"

lemma changeStream_order:
  assumes "changeStream marshal send after es (ch, sent) = ((ch', sent'), r)"
  shows "\<exists>cs ms. sent' = sent @ ms \<and> list_all2 (\<lambda>c m. buildWatchResponse marshal c = Ok m) cs ms
    \<and> subseq cs (filter (\<lambda>c. ch_version c > after) (ch @ arrived es))
    \<and> (roomy (length ch) es \<and> r = None \<longrightarrow>
         cs @ filter (\<lambda>c. ch_version c > after) ch' = filter (\<lambda>c. ch_version c > after) (ch @ arrived es))"
    (is "\<exists>cs ms. ?P es ch sent cs ms")
  using assms
proof (induction es arbitrary: ch sent)
  case (Cons e es)
  show ?case
  proof (cases e)
    case (Arrives c)
    let ?ch = "if length ch < 16 then ch @ [c] else ch"
    from Cons.prems Arrives have "changeStream marshal send after es (?ch, sent) = ((ch', sent'), r)" by simp
    from Cons.IH[OF this] obtain cs ms where IH: "?P es ?ch sent cs ms" by blast
    have "subseq (?ch @ arrived es) (ch @ c # arrived es)" by (auto intro: list_emb_append_mono)
    from subseq_filter[OF this] IH have "subseq cs (filter (\<lambda>c. ch_version c > after) (ch @ arrived (e # es)))"
      unfolding Arrives arrived.simps using subseq_order.trans by blast
    with IH Arrives show ?thesis by (intro exI[of _ cs] exI[of _ ms]) auto
  next
    case Takes
    show ?thesis
    proof (cases ch)
      case Nil
      with Cons.prems Takes Cons.IH[of "[]" sent] show ?thesis by auto
    next
      case ch: (Cons c ch1)
      show ?thesis
      proof (cases "ch_version c \<le> after")
        case True
        with Cons.prems Takes ch Cons.IH[of ch1 sent] show ?thesis by auto
      next
        case False
        show ?thesis
        proof (cases "buildWatchResponse marshal c")
          case (Ok resp)
          show ?thesis
          proof (cases "send resp")
            case None
            with Cons.prems Takes ch False Ok Cons.IH[of ch1 "sent @ [resp]"] obtain cs ms where "?P es ch1 (sent @ [resp]) cs ms" by auto
            with Takes ch False Ok show ?thesis by (intro exI[of _ "c # cs"] exI[of _ "resp # ms"]) auto
          next
            case (Some x)
            with Cons.prems Takes ch False Ok show ?thesis by (intro exI[of _ "[]"] exI[of _ "[]"]) auto
          qed
        qed (use Cons.prems Takes ch False in \<open>auto intro!: exI[of _ "[]"]\<close>)
      qed
    qed
  next
    case (Ends x)
    with Cons.prems show ?thesis by (intro exI[of _ "[]"] exI[of _ "[]"]) auto
  qed
qed (intro exI[of _ "[]"], simp)

lemma proper_projection_mono:
  assumes "proper_projection named proj" "\<And>kind key. named kind key \<Longrightarrow> named' kind key"
  shows "proper_projection named' proj"
proof -
  have "named_result named result \<Longrightarrow> named_result named' result" for result :: "'b ReduceResult option"
    using assms(2) by (auto simp: named_result_def list_all_iff split: option.splits)
  with assms show ?thesis unfolding proper_projection_def proper_handler_def by meson
qed

lemma fold_reduce_same:
  "map snd es = map snd es' \<Longrightarrow> fold (reduce_event encode proj) es V = fold (reduce_event encode proj) es' V"
proof (induction es arbitrary: es' V)
  case (Cons ev es)
  then obtain ev' rest where es': "es' = ev' # rest" "snd ev = snd ev'" "map snd es = map snd rest" by (cases es') auto
  then have "reduce_event encode proj ev V = reduce_event encode proj ev' V"
    unfolding reduce_event_def reduced_def case_prod_beta by (simp only:)
  with Cons.IH[OF es'(3)] es'(1) show ?case by simp
qed simp

subsection \<open>Properties\<close>


text \<open>
  C33. A change watch of the service is in order and never invents a change: what it sends are the messages of
  changes that were announced since it subscribed, in their order, each at most once and only beyond the version
  asked for. As long as the buffer of sixteen changes has room, nothing is lost: what was sent and what is still
  buffered are together all the changes asked for.
\<close>

theorem watch_changes_in_order:
  assumes "ch_WatchChanges fault marshal send i constraint d es = ((ch, sent), r)"
  shows "\<exists>cs. let wanted = filter (\<lambda>c. ch_version c > (case constraint of Some v \<Rightarrow> v | None \<Rightarrow> 0)) in
      list_all2 (\<lambda>c message. buildWatchResponse marshal c = Ok message) cs sent
    \<and> subseq cs (wanted (arrived es)) \<and> (roomy 0 es \<and> r = None \<longrightarrow> cs @ wanted ch = wanted (arrived es))"
proof (cases "ResolveStreamID fault (pi_domain i) (pi_stream i) d")
  case (Ok sid)
  with assms have "changeStream marshal send (case constraint of Some v \<Rightarrow> v | None \<Rightarrow> 0) es ([], []) = ((ch, sent), r)"
    by (simp add: ch_WatchChanges_def Let_def)
  from changeStream_order[OF this] show ?thesis by (simp add: Let_def)
qed (use assms in \<open>auto simp: ch_WatchChanges_def Let_def intro!: exI[of _ "[]"]\<close>)


subsection \<open>Witnesses\<close>

lemma demo_request: "request_identity demo_identity = demo_identity"
  by (simp add: request_identity_def demo_identity_def NewProjectionIdentity_def)

lemma demo_stream: "stream_id (pi_domain demo_identity) (pi_stream demo_identity) (vd_db demo_view_db) = Some 1"
  by (simp add: stream_id_def demo_identity_def NewProjectionIdentity_def demo_view_db_def)

lemma demo_shows_nothing: "shows_view (pg_Get no_faults demo_identity) valid_name demo_view_db no_view"
proof -
  have "pg_view demo_identity demo_view_db = no_view"
    by (auto simp: pg_view_def projection_id_def demo_view_db_def empty_db_def fun_eq_iff split: option.split)
  with pg_ready_shows[OF demo_ready] show ?thesis by simp
qed

lemma demo_same_view: "same_view demo_identity NewMemoryStore demo_view_db"
  using new_store_plain(2) demo_ready demo_shows_nothing by (auto simp: same_view_def demo_request)


abbreviation demo_server :: "int view_server" where
  "demo_server \<equiv> \<lparr>vw_db = demo_view_db, vw_registry = None\<rparr>"

abbreviation calm_env :: "faults \<times> faults \<times> (int64 \<Rightarrow> string \<Rightarrow> int Change \<Rightarrow> goerror option)" where
  "calm_env \<equiv> (no_faults, no_faults, \<lambda>_ _ _. None)"

lemma demo_remote_persist: "is_ok (snd (remote_persist status count_marshal demo_identity calm_env (count_result 1) 1 demo_server))"
proof -
  let ?r = "Some \<lparr>rr_upserts = [\<lparr>up_kind = ''count'', up_key = Key [''k''], up_value = Bytes (Document (JNum 1))\<rparr>], rr_deletes = []\<rparr>
    :: int ReduceResult option"
  have "is_ok (snd (pg_Persist count_marshal demo_identity no_faults ?r 1 demo_view_db))"
    by (rule pg_Persist_succeeds[OF demo_ready])
       (simp_all add: named_result_def valid_name_def validateKey_def result_of_def pg_encode_def marshalValue_def jsonb_def)
  then obtain d c where p: "pg_Persist count_marshal demo_identity no_faults ?r 1 demo_view_db = (d, Ok c)"
    by (metis is_ok_iff prod.collapse)
  obtain c: "c = change_of (result_of ?r) 1" and streams: "db_streams (vd_db d) = db_streams (vd_db demo_view_db)"
    by (rule pg_Persist_done[OF demo_ok p])
  have "ResolveStreamID no_faults (pi_domain demo_identity) (pi_stream demo_identity) d = Ok 1"
    using streams by (simp add: ResolveStreamID_def query_row_def stream_id_def demo_view_db_def demo_identity_def NewProjectionIdentity_def)
  with p show ?thesis
    by (simp add: remote_persist_def rs_Persist_def remote_rpc_def sh_ApplyMutations_def count_result_def result_of_def request_upsert_def
        wrap_error_def count_encode_def wire_upsert_def NewKey_def demo_request c change_of_def buildApplyResponse_def message_upsert_def
        over_grpc_def change_upsert_def)
qed


text \<open>Two changes, the first at the version asked for: only the second is sent, and the watch waits.\<close>

theorem watch_changes_in_order_witness:
  "let change = (\<lambda>v. \<lparr>ch_upserts = [], ch_deletes = [], ch_version = v\<rparr> :: int Change)
   in ch_WatchChanges no_faults count_marshal (\<lambda>_. None) demo_identity (Some 1) demo_view_db [Arrives (change 1), Arrives (change 2), Takes, Takes]
      = (([], [\<lparr>cm_upserts = [], cm_deletes = [], cm_version = 2\<rparr>]), None)
    \<and> (\<exists>cs. list_all2 (\<lambda>c message. buildWatchResponse count_marshal c = Ok message) cs [\<lparr>cm_upserts = [], cm_deletes = [], cm_version = 2\<rparr>]
         \<and> cs = [change 2])"
proof -
  let ?c = "\<lambda>v. \<lparr>ch_upserts = [], ch_deletes = [], ch_version = v\<rparr> :: int Change"
  have run: "ch_WatchChanges no_faults count_marshal (\<lambda>_. None) demo_identity (Some 1) demo_view_db [Arrives (?c 1), Arrives (?c 2), Takes, Takes]
      = (([], [\<lparr>cm_upserts = [], cm_deletes = [], cm_version = 2\<rparr>]), None)"
    using demo_stream by (simp add: ch_WatchChanges_def ResolveStreamID_def query_row_def buildWatchResponse_def)
  from watch_changes_in_order[OF run] run show ?thesis by (auto simp: Let_def)
qed

end
