(* ===== verification/ViewClient.thy ===== *)
theory ViewClient
  imports ViewService Pump
begin

text \<open>
  The client of a view projection: \<open>src/pkg/indexer/views/client.go\<close>, \<open>client_grpc.go\<close> and \<open>client_memory.go\<close>,
  and the methods of the pump it exposes (\<open>State\<close> and \<open>WaitForState\<close> of \<open>src/pkg/indexer/pump.go\<close>).

  \<^item> \<open>Client\<close> holds the pump of the theory \<open>Pump\<close>, the backend that serves its reads, the last error and the channel
    of errors. The transport's \<open>EnsureStream\<close> and the \<open>Stream\<close> of a new system are arguments, as the outcomes they
    returned.
  \<^item> \<open>client_goroutine\<close> is the goroutine that \<open>newClient\<close> starts: it runs the pump with the fuel of \<open>RunWithDomainStream\<close>.
  \<^item> A wait for a state follows a schedule: when the pump swaps its state, when it emits the event, when the
    waiter gets to run and when its context ends.
\<close>

subsection \<open>The client\<close>

datatype viewBackend = backendGRPC | backendMemory

record ViewConnectivity =
  vc_grpc :: bool
  vc_memory :: bool

definition classifyConnectivity :: "ViewConnectivity \<Rightarrow> viewBackend outcome" where
  "classifyConnectivity c =
     (if vc_grpc c then Ok backendGRPC
      else if vc_memory c then Ok backendMemory
      else Err (TextError ''transport exposes no view projection backend (grpc or memory)''))"

record clientConfig =
  cc_holder :: string
  cc_ttl :: duration

datatype ClientOption = WithHolder string

fun applyClient :: "ClientOption \<Rightarrow> clientConfig \<Rightarrow> clientConfig" where
  "applyClient (WithHolder name) c = c\<lparr>cc_holder := name\<rparr>"

text \<open>The store and the reader a client is given: those of the remote services for an identity, or a new in-memory store.\<close>

datatype clientParts = RemoteParts ProjectionIdentity | MemoryParts MemoryViewStore

record ('w, 'v) Client =
  cl_projection :: "'v Projection"
  cl_parts :: clientParts
  cl_notifier :: "'v Notifier"
  cl_holder :: string
  cl_pump :: "'w pump"
  cl_cancelled :: bool
  cl_lastErr :: "goerror option"
  cl_errors :: "goerror list"
  cl_closed :: bool

definition newClient ::
  "unit outcome \<Rightarrow> unit outcome \<Rightarrow> 'w \<Rightarrow> 'v Projection \<Rightarrow> clientParts \<Rightarrow> ClientOption list \<Rightarrow> ('w, 'v) Client outcome" where
  "newClient ensureStream createStream w proj parts opts =
     (let cfg = fold applyClient opts \<lparr>cc_holder = pj_consumerName proj, cc_ttl = DefaultLockTTL\<rparr>
      in bindo (wrap_error ''ensure stream'' ensureStream) (\<lambda>_.
           bindo (wrap_error ''create stream'' createStream) (\<lambda>_.
             Ok \<lparr>cl_projection = proj, cl_parts = parts, cl_notifier = NewNotifier, cl_holder = cc_holder cfg,
                 cl_pump = NewPump w (Some (cc_ttl cfg)), cl_cancelled = False, cl_lastErr = None, cl_errors = [],
                 cl_closed = False\<rparr>)))"

definition newGRPCClient ::
  "unit outcome \<Rightarrow> unit outcome \<Rightarrow> 'w \<Rightarrow> 'v Projection \<Rightarrow> ClientOption list \<Rightarrow> ('w, 'v) Client outcome" where
  "newGRPCClient ensureStream createStream w proj opts =
     newClient ensureStream createStream w proj
       (RemoteParts (NewProjectionIdentity (pj_domain proj) (pj_stream proj) (pj_projectionName proj) (pj_consumerName proj))) opts"

definition newMemoryClient ::
  "unit outcome \<Rightarrow> unit outcome \<Rightarrow> 'w \<Rightarrow> 'v Projection \<Rightarrow> ClientOption list \<Rightarrow> ('w, 'v) Client outcome" where
  "newMemoryClient ensureStream createStream w proj opts =
     newClient ensureStream createStream w proj (MemoryParts NewMemoryStore) opts"

text \<open>\<open>feature\<close> is \<open>None\<close> for a transport that does not implement \<open>ViewFeature\<close>.\<close>

definition With ::
  "ViewConnectivity option \<Rightarrow> unit outcome \<Rightarrow> unit outcome \<Rightarrow> 'w \<Rightarrow> 'v Projection \<Rightarrow> ClientOption list \<Rightarrow> ('w, 'v) Client outcome" where
  "With feature ensureStream createStream w proj opts =
     (case feature of
        None \<Rightarrow> Err (TextError ''transport does not support view projections'')
      | Some c \<Rightarrow>
          bindo (wrap_error ''transport'' (classifyConnectivity c)) (\<lambda>backend.
            case backend of
              backendGRPC \<Rightarrow> newGRPCClient ensureStream createStream w proj opts
            | backendMemory \<Rightarrow> newMemoryClient ensureStream createStream w proj opts))"

text \<open>
  The goroutine of the pump. Its channel of errors has room for one; it is closed, and the context cancelled,
  when the pump returns. \<open>None\<close> means that the pump is still running.
\<close>

definition client_goroutine ::
  "nat \<Rightarrow> nat \<Rightarrow> 'w wire \<Rightarrow> (goerror \<Rightarrow> bool option) \<Rightarrow> ('w, 'v) Client \<Rightarrow> ('w, 'v) Client \<times> unit outcome option" where
  "client_goroutine n inner wi handler c =
     (case RunWithDomainStream n inner wi handler (cl_pump c) of
        (p, None) \<Rightarrow> (c\<lparr>cl_pump := p\<rparr>, None)
      | (p, Some (Panic q)) \<Rightarrow> (c\<lparr>cl_pump := p, cl_cancelled := True\<rparr>, Some (Panic q))
      | (p, Some (Ok _)) \<Rightarrow> (c\<lparr>cl_pump := p, cl_closed := True, cl_cancelled := True\<rparr>, Some (Ok ()))
      | (p, Some (Err e)) \<Rightarrow>
          (c\<lparr>cl_pump := p, cl_lastErr := Some e, cl_errors := (if length (cl_errors c) < 1 then cl_errors c @ [e] else cl_errors c),
             cl_closed := True, cl_cancelled := True\<rparr>, Some (Ok ())))"

definition Client_Get :: "(Entity option \<times> Status) outcome \<Rightarrow> (Entity option \<times> (Entity option \<times> Status)) outcome" where
  "Client_Get r = bindo r (\<lambda>(entity, status). Ok (entity, (entity, status)))"

definition Client_Close :: "('w, 'v) Client \<Rightarrow> ('w, 'v) Client" where
  "Client_Close c = c\<lparr>cl_cancelled := True\<rparr>"

definition LastError :: "('w, 'v) Client \<Rightarrow> goerror option" where
  "LastError c = cl_lastErr c"

text \<open>A receive from \<open>Errors\<close>: \<open>None\<close> blocks, \<open>Some None\<close> finds the channel closed.\<close>

definition Errors :: "('w, 'v) Client \<Rightarrow> ('w, 'v) Client \<times> goerror option option" where
  "Errors c =
     (case cl_errors c of
        e # es \<Rightarrow> (c\<lparr>cl_errors := es\<rparr>, Some (Some e))
      | [] \<Rightarrow> (c, if cl_closed c then Some None else None))"

definition Client_State :: "('w, 'v) Client \<Rightarrow> PumpState" where
  "Client_State c = pu_state (cl_pump c)"

subsection \<open>Waiting for a state\<close>

datatype state_event = StateSwap PumpState | StateEmit PumpState | StateWake | StateCtx goerror

fun state_elsewhere :: "PumpState \<Rightarrow> state_event \<Rightarrow> PumpState \<times> bool \<Rightarrow> PumpState \<times> bool" where
  "state_elsewhere target (StateSwap s') (s, ready) = (s', ready)"
| "state_elsewhere target (StateEmit s') (s, ready) = (s, ready \<or> s' = target)"
| "state_elsewhere target _ st = st"

fun state_select :: "PumpState \<Rightarrow> state_event list \<Rightarrow> PumpState \<times> bool \<Rightarrow> (PumpState \<times> bool) \<times> goerror option option" where
  "state_select target [] st = (st, None)"
| "state_select target (StateWake # es) (s, ready) = (if ready then ((s, False), Some None) else state_select target es (s, ready))"
| "state_select target (StateCtx e # es) st = (st, Some (Some e))"
| "state_select target (ev # es) st = state_select target es (state_elsewhere target ev st)"

text \<open>
  \<open>before\<close> happens between the first look at the state and the subscription, \<open>subscribed\<close> until the second look,
  \<open>es\<close> in the select. The result is \<open>None\<close> while the caller is blocked, \<open>Some None\<close> for nil.
\<close>

definition WaitForState ::
  "PumpState \<Rightarrow> state_event list \<Rightarrow> state_event list \<Rightarrow> state_event list \<Rightarrow> PumpState
     \<Rightarrow> (PumpState \<times> bool) \<times> goerror option option" where
  "WaitForState target before subscribed es s =
     (if s = target then ((s, False), Some None)
      else let (s1, _) = fold (state_elsewhere target) before (s, False);
               (s2, ready) = fold (state_elsewhere target) subscribed (s1, False)
           in if s2 = target then ((s2, ready), Some None) else state_select target es (s2, ready))"

subsection \<open>Lemmas\<close>

lemma state_elsewhere_ready [simp]: "snd (state_elsewhere target ev st) \<longleftrightarrow> snd st \<or> ev = StateEmit target"
  by (cases "(target, ev, st)" rule: state_elsewhere.cases) auto

lemma fold_elsewhere_ready: "snd (fold (state_elsewhere target) es st) \<longleftrightarrow> snd st \<or> StateEmit target \<in> set es"
  by (induction es arbitrary: st) auto

lemma state_select_blocked:
  "state_select target es st = (st', None) \<Longrightarrow> snd st' \<longleftrightarrow> snd st \<or> StateEmit target \<in> set es"
  by (induction target es st rule: state_select.induct) (auto split: if_splits)

lemma fold_elsewhere_state:
  "fst (fold (state_elsewhere target) es st) = s' \<Longrightarrow> s' = fst st \<or> StateSwap s' \<in> set es"
proof (induction es arbitrary: st)
  case (Cons ev es)
  have "fst (state_elsewhere target ev st) = fst st \<or> ev = StateSwap (fst (state_elsewhere target ev st))"
    by (cases "(target, ev, st)" rule: state_elsewhere.cases) auto
  with Cons show ?case by fastforce
qed simp

lemma state_select_returns:
  "state_select target es st = (st', Some None) \<Longrightarrow> snd st \<or> StateEmit target \<in> set es"
  by (induction target es st rule: state_select.induct) (auto split: if_splits)

lemma state_select_ctx: "state_select target es st = (st', Some (Some e)) \<Longrightarrow> StateCtx e \<in> set es"
  by (induction target es st rule: state_select.induct) (auto split: if_splits)

lemma state_select_wakes:
  "snd st \<or> StateEmit target \<in> set es \<Longrightarrow> snd (state_select target (es @ [StateWake]) st) \<noteq> None"
  by (induction target es st rule: state_select.induct) (auto split: if_splits)

lemma newClient_fresh:
  "newClient ensureStream createStream w proj parts opts = Ok c \<Longrightarrow> (\<exists>ttl. cl_pump c = NewPump w ttl) \<and> cl_errors c = []"
  by (auto simp: newClient_def Let_def)

lemma With_starts_fresh:
  assumes "With feature ensureStream createStream w proj opts = Ok c"
  shows "(\<exists>ttl. cl_pump c = NewPump w ttl) \<and> cl_errors c = []"
proof -
  from assms obtain parts where "newClient ensureStream createStream w proj parts opts = Ok c"
    by (cases feature) (auto simp: With_def newGRPCClient_def newMemoryClient_def split: viewBackend.split_asm intro: viewBackend.exhaust)
  then show ?thesis by (rule newClient_fresh)
qed

subsection \<open>Properties\<close>

text \<open>
  A wait for a state of the pump returns nil only when the pump was in the state since the call or announced it,
  returns an error only for the end of the context, and misses no announcement after it subscribed: once the
  state is announced, the waiter returns as soon as it runs, although its channel has room for one signal only.
\<close>

theorem wait_for_state_notices:
  "case WaitForState target before subscribed es s of
     (st, None) \<Rightarrow> snd st \<longleftrightarrow> StateEmit target \<in> set (subscribed @ es)
   | (st, Some None) \<Rightarrow> s = target \<or> StateSwap target \<in> set (before @ subscribed) \<or> StateEmit target \<in> set (subscribed @ es)
   | (st, Some (Some e)) \<Rightarrow> StateCtx e \<in> set es"
  "StateEmit target \<in> set (subscribed @ es) \<Longrightarrow> snd (WaitForState target before subscribed (es @ [StateWake]) s) \<noteq> None"
proof -
  obtain s1 b where b: "fold (state_elsewhere target) before (s, False) = (s1, b)" by fastforce
  obtain s2 ready where sub: "fold (state_elsewhere target) subscribed (s1, False) = (s2, ready)" by fastforce
  have ready: "ready \<longleftrightarrow> StateEmit target \<in> set subscribed"
    using fold_elsewhere_ready[of target subscribed "(s1, False)"] sub by simp
  have entered: "s = target \<or> StateSwap target \<in> set (before @ subscribed)" if "s2 = target"
    using fold_elsewhere_state[of target before "(s, False)"] fold_elsewhere_state[of target subscribed "(s1, False)"] b sub that by auto
  show "case WaitForState target before subscribed es s of
     (st, None) \<Rightarrow> snd st \<longleftrightarrow> StateEmit target \<in> set (subscribed @ es)
   | (st, Some None) \<Rightarrow> s = target \<or> StateSwap target \<in> set (before @ subscribed) \<or> StateEmit target \<in> set (subscribed @ es)
   | (st, Some (Some e)) \<Rightarrow> StateCtx e \<in> set es"
    using b sub ready entered state_select_blocked[of target es "(s2, ready)"] state_select_returns[of target es "(s2, ready)"]
      state_select_ctx[of target es "(s2, ready)"]
    by (auto simp: WaitForState_def Let_def split: prod.splits option.splits)
  show "snd (WaitForState target before subscribed (es @ [StateWake]) s) \<noteq> None" if "StateEmit target \<in> set (subscribed @ es)"
    using that b sub ready state_select_wakes[of "(s2, ready)" target es] by (auto simp: WaitForState_def Let_def)
qed

text \<open>
  A client reports the end of its pump: when the pump of a client made by \<open>With\<close> has returned, \<open>LastError\<close> is
  the error it returned, the channel \<open>Errors\<close> yields exactly this error and is closed after it, and the error is
  the one the pump has failed with, or that of its context.
\<close>

theorem client_reports_end:
  assumes "With feature ensureStream createStream w proj opts = Ok c"
    and "client_goroutine n inner wi handler c = (c', Some (Ok ()))"
  shows "\<exists>e. LastError c' = Some e \<and> cl_cancelled c'
    \<and> (case Errors c' of (c1, r) \<Rightarrow> r = Some (Some e) \<and> snd (Errors c1) = Some None)
    \<and> (failures (cl_pump c') = [Some e] \<or> failures (cl_pump c') = [] \<and> wi_ctxErr wi (pu_world (cl_pump c')) = Some e)"
proof -
  from With_starts_fresh[OF assms(1)] obtain ttl where c: "cl_pump c = NewPump w ttl" "cl_errors c = []" by blast
  obtain p r where run: "RunWithDomainStream n inner wi handler (NewPump w ttl) = (p, r)" by fastforce
  from assms(2) c run have "r \<noteq> None" by (cases r) (simp_all add: client_goroutine_def)
  with run_lifecycle[where n = n and inner = inner and wi = wi and handler = handler and w = w and ttl = ttl] run assms(2) c show ?thesis
    by (auto simp: client_goroutine_def LastError_def Errors_def split: outcome.splits)
qed

end
