(* ===== verification/StreamClient.thy ===== *)
theory StreamClient
  imports Query2
begin

text \<open>
  What an application programs against: \<open>System\<close> and \<open>Stream\<close> (\<open>src/pkg/v1/cqrs.go\<close>, \<open>stream.go\<close>) over any
  transport, and the first query builder (\<open>query.go\<close>, \<open>queryKindBuilder.go\<close>, \<open>queryStream.go\<close>).

  \<^item> \<open>Transport\<close> holds the methods of the interface \<open>Transport\<close> that these use, as functions on the state \<open>'s\<close> of
    what is behind it. Reads do not change it: a query and the reads of events that follow it see the same events.
  \<^item> A method that takes an event to marshal takes the outcome of marshalling it.
  \<^item> The builder keeps its clauses in a map from kinds. \<open>ks\<close> is the order in which a loop over this map visits it.
    \<open>WithKind\<close> returns a pointer into the map; \<open>f\<close> are the calls made on it.
\<close>

record 's Transport =
  tp_EnsureStream :: "string \<Rightarrow> string \<Rightarrow> 's \<Rightarrow> 's \<times> unit outcome"
  tp_Submit :: "string \<Rightarrow> string \<Rightarrow> string \<Rightarrow> json outcome \<Rightarrow> Lock list \<Rightarrow> 's \<Rightarrow> 's \<times> Submitted outcome"
  tp_AllEnvelopes :: "string \<Rightarrow> string \<Rightarrow> 's \<Rightarrow> Envelope list outcome"
  tp_GetEvent :: "string \<Rightarrow> string \<Rightarrow> int64 \<Rightarrow> 's \<Rightarrow> raw_message outcome"
  tp_Query :: "string \<Rightarrow> string \<Rightarrow> WireQuery \<Rightarrow> 's \<Rightarrow> WireQueryResult outcome"
  tp_QueryBatch :: "string \<Rightarrow> string \<Rightarrow> WireQuery \<Rightarrow> 's \<Rightarrow> WireBatchResultPair list outcome"
  tp_Meta :: "'s \<Rightarrow> (string \<times> string list) list outcome"

subsection \<open>Systems and streams\<close>

record Stream =
  st_domain :: string
  st_stream :: string

definition System_Stream :: "'s Transport \<Rightarrow> string \<Rightarrow> string \<Rightarrow> 's \<Rightarrow> 's \<times> Stream outcome" where
  "System_Stream T domain stream s =
     (case tp_EnsureStream T domain stream s of
        (s1, Err e) \<Rightarrow> (s1, Err e)
      | (s1, Panic p) \<Rightarrow> (s1, Panic p)
      | (s1, Ok _) \<Rightarrow> (s1, Ok \<lparr>st_domain = domain, st_stream = stream\<rparr>))"

definition ListDomains :: "'s Transport \<Rightarrow> 's \<Rightarrow> string list outcome" where
  "ListDomains T s = bindo (tp_Meta T s) (\<lambda>domains. Ok (map fst domains))"

definition System_ListStreams :: "'s Transport \<Rightarrow> 's \<Rightarrow> (string \<times> string) list outcome" where
  "System_ListStreams T s =
     bindo (tp_Meta T s) (\<lambda>domains. Ok (concat (map (\<lambda>(name, streams). map (\<lambda>stream. (name, stream)) streams) domains)))"

definition must :: "'a outcome \<Rightarrow> 'a outcome" where
  "must r = (case r of Err e \<Rightarrow> Panic ''junk.Must'' | _ \<Rightarrow> r)"

definition Stream_Submit ::
  "'s Transport \<Rightarrow> Stream \<Rightarrow> string \<Rightarrow> json outcome \<Rightarrow> Lock list \<Rightarrow> 's \<Rightarrow> 's \<times> Submitted outcome" where
  "Stream_Submit T st kind event opts = tp_Submit T (st_domain st) (st_stream st) kind event opts"

definition Stream_MustSubmit ::
  "'s Transport \<Rightarrow> Stream \<Rightarrow> string \<Rightarrow> json outcome \<Rightarrow> Lock list \<Rightarrow> 's \<Rightarrow> 's \<times> Submitted outcome" where
  "Stream_MustSubmit T st kind event opts s = (case Stream_Submit T st kind event opts s of (s1, r) \<Rightarrow> (s1, must r))"

definition Stream_All :: "'s Transport \<Rightarrow> Stream \<Rightarrow> 's \<Rightarrow> Envelope list outcome" where
  "Stream_All T st = tp_AllEnvelopes T (st_domain st) (st_stream st)"

definition Stream_Get :: "'s Transport \<Rightarrow> Stream \<Rightarrow> int64 \<Rightarrow> 's \<Rightarrow> raw_message outcome" where
  "Stream_Get T st = tp_GetEvent T (st_domain st) (st_stream st)"

definition EnvelopesFor :: "'s Transport \<Rightarrow> Stream \<Rightarrow> int64 list \<Rightarrow> 's \<Rightarrow> Envelope list outcome" where
  "EnvelopesFor T st ids s = bindo (Stream_All T st s) (\<lambda>envelopes. Ok (filter (\<lambda>e. env_id e \<in> set ids) envelopes))"

definition MustEnvelopeFor :: "'s Transport \<Rightarrow> Stream \<Rightarrow> int64 \<Rightarrow> 's \<Rightarrow> Envelope option outcome" where
  "MustEnvelopeFor T st i s =
     bindo (must (EnvelopesFor T st [i] s)) (\<lambda>found. Ok (if length found = 1 then Some (found ! 0) else None))"

subsection \<open>The builder of a kind\<close>

record equalityPredicate =
  ep_property :: "string list"
  ep_value :: string

record 'h KindBuilder =
  kb_kind :: string
  kb_eq :: "equalityPredicate list"
  kb_match :: raw_message
  kb_on :: "'h handler option"

definition Match :: "json outcome \<Rightarrow> 'h KindBuilder \<Rightarrow> 'h KindBuilder outcome" where
  "Match example k =
     (case example of Ok doc \<Rightarrow> Ok (k\<lparr>kb_match := Some doc\<rparr>) | Err e \<Rightarrow> Panic ''json.Marshal'' | Panic p \<Rightarrow> Panic p)"

definition MatchDocument :: "raw_message \<Rightarrow> 'h KindBuilder \<Rightarrow> 'h KindBuilder" where
  "MatchDocument serialized k = k\<lparr>kb_match := serialized\<rparr>"

definition On :: "'h handler \<Rightarrow> 'h KindBuilder \<Rightarrow> 'h KindBuilder" where
  "On handler k = k\<lparr>kb_on := Some handler\<rparr>"

definition Equals :: "string list \<Rightarrow> string \<Rightarrow> 'h KindBuilder \<Rightarrow> 'h KindBuilder" where
  "Equals property value k = k\<lparr>kb_eq := kb_eq k @ [\<lparr>ep_property = property, ep_value = value\<rparr>]\<rparr>"

definition Eq :: "string \<Rightarrow> string \<Rightarrow> 'h KindBuilder \<Rightarrow> 'h KindBuilder" where
  "Eq property value = Equals [property] value"

definition toKindConstraint :: "'h KindBuilder \<Rightarrow> KindConstraint" where
  "toKindConstraint k =
     \<lparr>kc_kind = kb_kind k, kc_eq = map (\<lambda>m. \<lparr>wm_property = ep_property m, wm_value = [ep_value m]\<rparr>) (kb_eq k),
      kc_matchSubset = kb_match k\<rparr>"

subsection \<open>The query builder\<close>

type_synonym 'h QueryBuilder = "(string, 'h KindBuilder) mapping"

definition Stream_Query :: "'h QueryBuilder" where
  "Stream_Query = Mapping.empty"

definition WithKind :: "string \<Rightarrow> ('h KindBuilder \<Rightarrow> 'h KindBuilder) \<Rightarrow> 'h QueryBuilder \<Rightarrow> 'h QueryBuilder" where
  "WithKind kind f q =
     Mapping.update kind
       (f (case Mapping.lookup q kind of
             Some k \<Rightarrow> k
           | None \<Rightarrow> \<lparr>kb_kind = kind, kb_eq = [], kb_match = None, kb_on = None\<rparr>)) q"

text \<open>The loop that both ways of running a query begin with.\<close>

definition wire_query :: "string list \<Rightarrow> 'h QueryBuilder \<Rightarrow> WireQuery" where
  "wire_query ks q = \<lparr>wq_kinds = map (\<lambda>kind. toKindConstraint (the (Mapping.lookup q kind))) ks, wq_afterID = None\<rparr>"

definition local_filter ::
  "json_compare \<Rightarrow> gojq_parser \<Rightarrow> 's Transport \<Rightarrow> Stream \<Rightarrow> WireQuery \<Rightarrow> 's \<Rightarrow> Envelope list \<Rightarrow> Envelope list outcome" where
  "local_filter compare gojq T st query s envelopes =
     (case for_each (\<lambda>e matching.
             (case filter_envelope compare gojq (\<lambda>i. Stream_Get T st i s) query e of
                Err err \<Rightarrow> (matching, Err err)
              | Panic p \<Rightarrow> (matching, Panic p)
              | Ok matched \<Rightarrow> (if matched then matching @ [e] else matching, Ok ()))) envelopes [] of
        (matching, Ok _) \<Rightarrow> Ok matching
      | (_, Err e) \<Rightarrow> Err e
      | (_, Panic p) \<Rightarrow> Panic p)"

definition Perform ::
  "json_compare \<Rightarrow> gojq_parser \<Rightarrow> 's Transport \<Rightarrow> Stream \<Rightarrow> string list \<Rightarrow> 'h QueryBuilder \<Rightarrow> 's \<Rightarrow> Envelope list outcome" where
  "Perform compare gojq T st ks q s =
     (let query = wire_query ks q
      in bindo (tp_Query T (st_domain st) (st_stream st) query s) (\<lambda>result.
           if \<not> wqr_filtered result \<or> \<not> wqr_subsetMatch result
           then local_filter compare gojq T st query s (wqr_matching result)
           else Ok (wqr_matching result)))"

definition ByKinds ::
  "json_compare \<Rightarrow> gojq_parser \<Rightarrow> 's Transport \<Rightarrow> Stream \<Rightarrow> string list \<Rightarrow> string list \<Rightarrow> 's \<Rightarrow> Envelope list outcome" where
  "ByKinds compare gojq T st ks kinds s =
     Perform compare gojq T st ks (fold (\<lambda>kind. WithKind kind (\<lambda>k. k)) kinds (Stream_Query :: unit QueryBuilder)) s"

definition postProcessing :: "'h KindBuilder \<Rightarrow> (string, 'h handler) mapping \<Rightarrow> (string, 'h handler) mapping" where
  "postProcessing k p = (case kb_on k of Some handler \<Rightarrow> Mapping.update (kb_kind k) handler p | None \<Rightarrow> p)"

definition handle_result :: "(string, 'h handler) mapping \<Rightarrow> WireBatchResultPair \<Rightarrow> 'h \<Rightarrow> 'h \<times> unit outcome" where
  "handle_result p result h =
     (case Mapping.lookup p (env_kind (wbp_meta result)) of
        Some handler \<Rightarrow> handler (wbp_meta result) (wbp_data result) h
      | None \<Rightarrow> (h, Ok ()))"

definition QueryBuilder_Stream ::
  "'s Transport \<Rightarrow> Stream \<Rightarrow> string list \<Rightarrow> 'h QueryBuilder \<Rightarrow> 's \<Rightarrow> 'h \<Rightarrow> 'h \<times> unit outcome" where
  "QueryBuilder_Stream T st ks q s h =
     (let handlers = fold (\<lambda>kind. postProcessing (the (Mapping.lookup q kind))) ks Mapping.empty
      in case tp_QueryBatch T (st_domain st) (st_stream st) (wire_query ks q) s of
           Err e \<Rightarrow> (h, Err e)
         | Panic p \<Rightarrow> (h, Panic p)
         | Ok page \<Rightarrow> for_each (handle_result handlers) page h)"

text \<open>\<open>EntityFuncE\<close>: \<open>unmarshal\<close> is \<open>json.Unmarshal\<close> into the entity's type.\<close>

definition EntityFuncE :: "(raw_message \<Rightarrow> 't outcome) \<Rightarrow> (Envelope \<Rightarrow> 't \<Rightarrow> 'h \<Rightarrow> 'h \<times> unit outcome) \<Rightarrow> 'h handler" where
  "EntityFuncE unmarshal apply e rawJSON h =
     (case unmarshal rawJSON of Err err \<Rightarrow> (h, Err err) | Panic p \<Rightarrow> (h, Panic p) | Ok t \<Rightarrow> apply e t h)"

definition EntityFunc :: "(raw_message \<Rightarrow> 't outcome) \<Rightarrow> (Envelope \<Rightarrow> 't \<Rightarrow> 'h \<Rightarrow> 'h) \<Rightarrow> 'h handler" where
  "EntityFunc unmarshal apply = EntityFuncE unmarshal (\<lambda>e t h. (apply e t h, Ok ()))"

subsection \<open>What a builder asks for\<close>

text \<open>Every builder is filed under its own kind: this holds of what \<open>Query\<close> and \<open>WithKind\<close> make.\<close>

definition builder_ok :: "'h QueryBuilder \<Rightarrow> bool" where
  "builder_ok q \<longleftrightarrow> (\<forall>kind k. Mapping.lookup q kind = Some k \<longrightarrow> kb_kind k = kind)"

definition builder_selects ::
  "json_compare \<Rightarrow> (json \<Rightarrow> string \<Rightarrow> string option) \<Rightarrow> 'h QueryBuilder \<Rightarrow> (time \<times> string \<times> json) list \<Rightarrow> nat \<Rightarrow> bool" where
  "builder_selects compare parse q log n \<longleftrightarrow>
     Mapping.keys q = {} \<or>
     (case Mapping.lookup q (env_kind (log_envelope log n)) of
        None \<Rightarrow> False
      | Some k \<Rightarrow>
          list_all (\<lambda>m. parse (log_body log n) (string_join ''.'' (ep_property m)) = Some (ep_value m)) (kb_eq k)
          \<and> (kb_match k = None \<or> JSONIsSubset compare (Some (log_body log n)) (kb_match k)))"

definition builder_handler :: "'h QueryBuilder \<Rightarrow> Envelope \<Rightarrow> 'h handler option" where
  "builder_handler q e = (case Mapping.lookup q (env_kind e) of Some k \<Rightarrow> kb_on k | None \<Rightarrow> None)"

lemma builder_ok_Query: "builder_ok Stream_Query"
  by (simp add: builder_ok_def Stream_Query_def)

lemma builder_ok_WithKind: "builder_ok q \<Longrightarrow> (\<And>k. kb_kind (f k) = kb_kind k) \<Longrightarrow> builder_ok (WithKind kind f q)"
  by (auto simp: builder_ok_def WithKind_def lookup_update' split: option.splits)

lemma builder_calls_keep_kind [simp]:
  "kb_kind (MatchDocument d k) = kb_kind k" "kb_kind (On h k) = kb_kind k" "kb_kind (Equals p v k) = kb_kind k"
  "kb_kind (Eq x v k) = kb_kind k" "Match ex k = Ok k' \<Longrightarrow> kb_kind k' = kb_kind k"
  by (auto simp: MatchDocument_def On_def Equals_def Eq_def Match_def split: outcome.splits)

lemma find_constraint_keys:
  assumes "builder_ok q" "set ks \<subseteq> Mapping.keys q"
  shows "findMatchingConstraint kind (map (\<lambda>kind. toKindConstraint (the (Mapping.lookup q kind))) ks)
    = (if kind \<in> set ks then map_option toKindConstraint (Mapping.lookup q kind) else None)"
  using assms(2)
proof (induction ks)
  case (Cons k ks)
  then obtain kb where k: "Mapping.lookup q k = Some kb" by (auto simp: keys_is_none_rep Option.is_none_def)
  with assms(1) have "kc_kind (toKindConstraint kb) = k" by (auto simp: builder_ok_def toKindConstraint_def)
  with Cons k show ?case by auto
qed simp

lemma wire_query_selects:
  assumes "builder_ok q" "range_order q ks"
  shows "query_selects compare parse (wire_query ks q) log = builder_selects compare parse q log"
    and "well_formed_query (wire_query ks q)"
proof -
  have keys: "set ks = Mapping.keys q" using assms(2) by (simp add: range_order_def)
  have holds: "constraint_holds compare parse (toKindConstraint k) body \<longleftrightarrow>
      list_all (\<lambda>m. parse body (string_join ''.'' (ep_property m)) = Some (ep_value m)) (kb_eq k)
      \<and> (kb_match k = None \<or> JSONIsSubset compare (Some body) (kb_match k))" for k :: "'a KindBuilder" and body
    by (simp add: constraint_holds_def toKindConstraint_def matcher_holds_def list_all_iff)
  have "ks = [] \<longleftrightarrow> Mapping.keys q = {}" using keys by auto
  moreover have "kind \<in> Mapping.keys q \<longleftrightarrow> Mapping.lookup q kind \<noteq> None" for kind
    by (simp add: keys_is_none_rep Option.is_none_def)
  ultimately have "query_selects compare parse (wire_query ks q) log n = builder_selects compare parse q log n" for n
    using find_constraint_keys[OF assms(1), of ks "env_kind (log_envelope log n)"] keys
    by (cases "Mapping.lookup q (env_kind (log_envelope log n))")
       (simp_all add: query_selects_def builder_selects_def wire_query_def after_ok_def holds)
  then show "query_selects compare parse (wire_query ks q) log = builder_selects compare parse q log" ..
  show "well_formed_query (wire_query ks q)"
    by (auto simp: well_formed_query_def wire_query_def toKindConstraint_def list_all_iff)
qed

lemma lookup_handlers:
  assumes "builder_ok q" "distinct ks" "set ks \<subseteq> Mapping.keys q"
  shows "Mapping.lookup (fold (\<lambda>kind. postProcessing (the (Mapping.lookup q kind))) ks p) kind =
    (if kind \<in> set ks then (case kb_on (the (Mapping.lookup q kind)) of Some h \<Rightarrow> Some h | None \<Rightarrow> Mapping.lookup p kind)
     else Mapping.lookup p kind)"
  using assms(2,3)
proof (induction ks arbitrary: p)
  case (Cons k ks)
  then obtain kb where k: "Mapping.lookup q k = Some kb" by (auto simp: keys_is_none_rep Option.is_none_def)
  with assms(1) have "kb_kind kb = k" by (auto simp: builder_ok_def)
  with Cons k show ?case by (auto simp: postProcessing_def lookup_update' split: option.splits)
qed simp

text \<open>The in-memory transport, and a transport that leaves the filtering to its clients.\<close>

definition memory_transport :: "json_compare \<Rightarrow> gojq_parser \<Rightarrow> time \<Rightarrow> memory Transport" where
  "memory_transport compare gojq now =
     \<lparr>tp_EnsureStream = EnsureStream None,
      tp_Submit = (\<lambda>domain stream kind event opts. Submit (\<lambda>_. None) None now domain stream kind event opts),
      tp_AllEnvelopes = (\<lambda>domain stream m. snd (AllEnvelopes None domain stream m)),
      tp_GetEvent = (\<lambda>domain stream i m. snd (GetEvent None domain stream i m)),
      tp_Query = (\<lambda>domain stream query m.
        case mem_Query compare gojq (\<lambda>_. None) None domain stream query
               \<lparr>wqr_filtered = False, wqr_subsetMatch = False, wqr_matching = []\<rparr> m of
          (out, Ok _) \<Rightarrow> Ok out | (_, Err e) \<Rightarrow> Err e | (_, Panic p) \<Rightarrow> Panic p),
      tp_QueryBatch = (\<lambda>domain stream query m.
        case mem_QueryBatch compare gojq (\<lambda>_. None) None domain stream query [] m of
          (out, Ok _) \<Rightarrow> Ok out | (_, Err e) \<Rightarrow> Err e | (_, Panic p) \<Rightarrow> Panic p),
      tp_Meta = (\<lambda>m. snd (Meta [] None m))\<rparr>"

definition leaves_filtering :: "'s Transport \<Rightarrow> Stream \<Rightarrow> (time \<times> string \<times> json) list \<Rightarrow> 's \<Rightarrow> bool" where
  "leaves_filtering T st log s \<longleftrightarrow>
     (\<forall>query. \<exists>filtered part. \<not> (filtered \<and> part) \<and> tp_Query T (st_domain st) (st_stream st) query s =
        Ok \<lparr>wqr_filtered = filtered, wqr_subsetMatch = part, wqr_matching = map (log_envelope log) [0..<length log]\<rparr>)
     \<and> (\<forall>n < length log. Stream_Get T st (int n) s = Ok (Some (log_body log n)))"

lemma filter_envelope_log:
  assumes "\<And>n. n < length log \<Longrightarrow> loader (int n) = Ok (Some (log_body log n))" "n < length log" "well_formed_query query"
    and "\<And>b. gojq (Some b) = Ok (parse b)"
  shows "filter_envelope compare gojq loader query (log_envelope log n) = Ok (query_selects compare parse query log n)"
proof (cases "findMatchingConstraint (env_kind (log_envelope log n)) (wq_kinds query)")
  case None
  then show ?thesis by (auto simp: filter_envelope_def after_guard query_selects_def)
next
  case (Some c)
  with assms(3) findMatchingConstraint_mem[OF Some] have "list_all (\<lambda>e. wm_value e \<noteq> []) (kc_eq c)"
    by (auto simp: well_formed_query_def list_all_iff)
  then have "applyEqFilter gojq loader c (log_envelope log n) = Ok (list_all (matcher_holds (parse (log_body log n))) (kc_eq c))"
    "applySubsetFilter compare loader c (log_envelope log n)
       = Ok (kc_matchSubset c = None \<or> JSONIsSubset compare (Some (log_body log n)) (kc_matchSubset c))"
    using assms(1,2,4)
    by (auto simp: applyEqFilter_def applySubsetFilter_def filterMatchedProperties_def filterSubsetMatch_def match_properties_Ok
        hasEqConstraints_def hasSubsetConstraints_def)
  moreover have "wq_kinds query \<noteq> []" using findMatchingConstraint_mem[OF Some] by auto
  ultimately show ?thesis using Some
    by (simp add: filter_envelope_def after_guard query_selects_def constraint_holds_def)
qed

lemma local_filter_eq:
  assumes "\<And>n. n < length log \<Longrightarrow> Stream_Get T st (int n) s = Ok (Some (log_body log n))" "well_formed_query query"
    and "\<And>b. gojq (Some b) = Ok (parse b)"
  shows "local_filter compare gojq T st query s (map (log_envelope log) [0..<length log])
    = Ok (map (log_envelope log) (filter (query_selects compare parse query log) [0..<length log]))"
proof -
  let ?sel = "\<lambda>e. query_selects compare parse query log (nat (env_id e))"
  have "for_each (\<lambda>e matching.
             (case filter_envelope compare gojq (\<lambda>i. Stream_Get T st i s) query e of
                Err err \<Rightarrow> (matching, Err err)
              | Panic p \<Rightarrow> (matching, Panic p)
              | Ok matched \<Rightarrow> (if matched then matching @ [e] else matching, Ok ())))
      (map (log_envelope log) [0..<length log]) [] =
      ([] @ concat (map (\<lambda>e. if ?sel e then [e] else []) (map (log_envelope log) [0..<length log])), Ok ())"
    by (rule for_each_append)
       (auto simp: filter_envelope_log[of log _ _ query gojq parse compare, OF assms(1) _ assms(2,3)])
  then show ?thesis by (simp add: local_filter_def concat_map_if_filter filter_map_index comp_def concat_map_singleton)
qed

subsection \<open>Properties\<close>


subsection \<open>Witness\<close>


end
