(* ===== verification/DomainServices.thy ===== *)
theory DomainServices
  imports StreamClient "HOL-Library.Word"
begin

text \<open>
  The services of \<open>src/pkg/service\<close> behind the gRPC interfaces \<open>Command\<close> and \<open>Query\<close>: a store of its own in
  \<open>memory/*.go\<close>, and \<open>V1CommandService\<close> with \<open>V1QueryService\<close>, which pass requests on to any \<open>Transport\<close>.

  \<^item> A body is a slice of bytes, \<open>None\<close> for nil. The proxy hands it to the transport as a Go value of type \<open>[]byte\<close>,
    which \<open>encoding/json\<close> writes as a string in base64 and reads back.
  \<^item> The store takes its locks separately for the identifier and for the append, so the critical sections of concurrent
    calls interleave: \<open>run_sections\<close> runs a schedule of them. A stream that exists stays, so it makes no difference
    that the lookup is part of the second section here.
  \<^item> \<open>send\<close> is the stream to the client: what it returns for a message; the messages sent are accumulated.
\<close>

type_synonym bytes = "8 word list option"

record ServiceOut =
  so_op :: int64
  so_id :: int64
  so_envelope :: "(int64 \<times> string) option"
  so_body :: bytes

subsection \<open>The store in memory\<close>

record event =
  ev_id :: int64
  ev_kind :: string
  ev_body :: bytes

record service_stream =
  ss_events :: "event list"

record service_domain =
  sd_streams :: "(string, service_stream) mapping"

record core =
  co_domains :: "(string, service_domain) mapping"
  co_ids :: int64

definition New :: core where
  "New = \<lparr>co_domains = Mapping.empty, co_ids = 1\<rparr>"

definition core_ensureDomain :: "string \<Rightarrow> core \<Rightarrow> core \<times> service_domain \<times> bool" where
  "core_ensureDomain name c =
     (case Mapping.lookup (co_domains c) name of
        Some d \<Rightarrow> (c, d, True)
      | None \<Rightarrow>
          (let d = \<lparr>sd_streams = Mapping.empty\<rparr>
           in (c\<lparr>co_domains := Mapping.update name d (co_domains c)\<rparr>, d, False)))"

definition domain_ensureStream :: "string \<Rightarrow> service_domain \<Rightarrow> service_domain \<times> bool" where
  "domain_ensureStream name d =
     (case Mapping.lookup (sd_streams d) name of
        Some s \<Rightarrow> (d, True)
      | None \<Rightarrow> (d\<lparr>sd_streams := Mapping.update name \<lparr>ss_events = []\<rparr> (sd_streams d)\<rparr>, False))"

text \<open>What is written through a pointer to a domain.\<close>

definition put_domain :: "string \<Rightarrow> service_domain \<Rightarrow> core \<Rightarrow> core" where
  "put_domain name d c = c\<lparr>co_domains := Mapping.update name d (co_domains c)\<rparr>"

definition commands_CreateStream :: "(string \<times> string) option \<Rightarrow> core \<Rightarrow> core \<times> bool outcome" where
  "commands_CreateStream target c =
     (case target of
        None \<Rightarrow> (c, Panic ''nil pointer dereference'')
      | Some (dn, sn) \<Rightarrow>
          (case core_ensureDomain dn c of
             (c1, d, _) \<Rightarrow>
               (case domain_ensureStream sn d of (d1, existed) \<Rightarrow> (put_domain dn d1 c1, Ok existed))))"

definition core_lookup :: "string \<Rightarrow> string \<Rightarrow> core \<Rightarrow> service_stream option" where
  "core_lookup dn sn c =
     (case Mapping.lookup (co_domains c) dn of
        None \<Rightarrow> None
      | Some d \<Rightarrow> Mapping.lookup (sd_streams d) sn)"

definition coordinate :: "core \<Rightarrow> core \<times> int64" where
  "coordinate c = (c\<lparr>co_ids := co_ids c + 1\<rparr>, co_ids c)"

text \<open>\<open>stream.submit\<close> through the pointer that \<open>lookup\<close> has returned.\<close>

definition stream_submit :: "string \<Rightarrow> string \<Rightarrow> int64 \<Rightarrow> string \<Rightarrow> bytes \<Rightarrow> core \<Rightarrow> core" where
  "stream_submit dn sn i kind body c =
     (case Mapping.lookup (co_domains c) dn of
        None \<Rightarrow> c
      | Some d \<Rightarrow>
          (case Mapping.lookup (sd_streams d) sn of
             None \<Rightarrow> c
           | Some s \<Rightarrow>
               put_domain dn (d\<lparr>sd_streams := Mapping.update sn
                 (s\<lparr>ss_events := ss_events s @ [\<lparr>ev_id = i, ev_kind = kind, ev_body = body\<rparr>]\<rparr>) (sd_streams d)\<rparr>) c))"

definition submit_found :: "(string \<times> string) option \<Rightarrow> int64 \<Rightarrow> string \<Rightarrow> bytes \<Rightarrow> core \<Rightarrow> core \<times> int64 outcome" where
  "submit_found target i kind body c =
     (case target of
        None \<Rightarrow> (c, Panic ''nil pointer dereference'')
      | Some (dn, sn) \<Rightarrow>
          (case core_lookup dn sn c of
             None \<Rightarrow> (c, Err (TextError ''no such domain and stream''))
           | Some _ \<Rightarrow> (stream_submit dn sn i kind body c, Ok i)))"

definition commands_Submit :: "(string \<times> string) option \<Rightarrow> string \<Rightarrow> bytes \<Rightarrow> core \<Rightarrow> core \<times> int64 outcome" where
  "commands_Submit target kind body c =
     (case coordinate c of (c1, i) \<Rightarrow> submit_found target i kind body c1)"

definition send_out :: "('m \<Rightarrow> goerror option) \<Rightarrow> 'm \<Rightarrow> 'm list \<Rightarrow> 'm list \<times> unit outcome" where
  "send_out send msg sent = (case send msg of None \<Rightarrow> (sent @ [msg], Ok ()) | Some e \<Rightarrow> (sent, Err e))"

definition queryService_Query ::
  "(ServiceOut \<Rightarrow> goerror option) \<Rightarrow> QueryIn \<Rightarrow> core \<Rightarrow> ServiceOut list \<times> unit outcome" where
  "queryService_Query send q c =
     (case ValidateQuery q of
        Some e \<Rightarrow> ([], Err e)
      | None \<Rightarrow>
          (case core_lookup (qi_domain q) (qi_stream q) c of
             None \<Rightarrow> ([], Ok ())
           | Some s \<Rightarrow>
               for_each (\<lambda>e sent.
                   case qi_onEach q of
                     None \<Rightarrow> (sent, Panic ''nil pointer dereference'')
                   | Some op \<Rightarrow> send_out send \<lparr>so_op = op, so_id = ev_id e, so_envelope = None, so_body = ev_body e\<rparr> sent)
                 (ss_events s) []))"

subsection \<open>Critical sections of concurrent calls\<close>

datatype critical_section =
    CreateSection "(string \<times> string) option"
  | CoordinateSection nat
      \<comment> \<open>the first half of the call with this number\<close>
  | AppendSection nat "(string \<times> string) option" string bytes

type_synonym sections_state = "core \<times> (nat \<Rightarrow> int64 option)"

fun run_section :: "critical_section \<Rightarrow> sections_state \<Rightarrow> sections_state" where
  "run_section (CreateSection target) (c, p) = (fst (commands_CreateStream target c), p)"
| "run_section (CoordinateSection k) (c, p) =
     (if p k \<noteq> None then (c, p) else case coordinate c of (c1, i) \<Rightarrow> (c1, p(k := Some i)))"
| "run_section (AppendSection k target kind body) (c, p) =
     (case p k of
        None \<Rightarrow> (c, p)
      | Some i \<Rightarrow> (fst (submit_found target i kind body c), p(k := None)))"

definition run_sections :: "critical_section list \<Rightarrow> sections_state" where
  "run_sections ss = fold run_section ss (New, \<lambda>_. None)"

definition events_in :: "core \<Rightarrow> string \<Rightarrow> string \<Rightarrow> event list" where
  "events_in c dn sn = (case core_lookup dn sn c of None \<Rightarrow> [] | Some s \<Rightarrow> ss_events s)"

text \<open>The identifiers that are in use belong to one event of one stream, or to one call that has not appended yet.\<close>

definition sections_ok :: "sections_state \<Rightarrow> bool" where
  "sections_ok st \<longleftrightarrow>
     (let c = fst st; p = snd st
      in (\<forall>dn sn. distinct (map ev_id (events_in c dn sn)))
       \<and> (\<forall>dn sn e. e \<in> set (events_in c dn sn) \<longrightarrow> ev_id e < co_ids c \<and> (\<forall>k. p k \<noteq> Some (ev_id e)))
       \<and> (\<forall>dn sn dn' sn' e e'. e \<in> set (events_in c dn sn) \<longrightarrow> e' \<in> set (events_in c dn' sn') \<longrightarrow>
            ev_id e = ev_id e' \<longrightarrow> dn = dn' \<and> sn = sn')
       \<and> (\<forall>k i. p k = Some i \<longrightarrow> i < co_ids c)
       \<and> (\<forall>k k' i. p k = Some i \<longrightarrow> p k' = Some i \<longrightarrow> k = k'))"

subsection \<open>Lemmas on the store\<close>

lemma lookup_created:
  "core_lookup dn sn (fst (commands_CreateStream (Some (d, s)) c)) =
     (if dn = d \<and> sn = s \<and> core_lookup d s c = None then Some \<lparr>ss_events = []\<rparr> else core_lookup dn sn c)"
  by (auto simp: commands_CreateStream_def core_ensureDomain_def domain_ensureStream_def put_domain_def core_lookup_def
      Let_def lookup_update' split: option.splits)

lemma created_events: "events_in (fst (commands_CreateStream target c)) dn sn = events_in c dn sn"
proof (cases target)
  case None
  then show ?thesis by (simp add: commands_CreateStream_def)
next
  case (Some t)
  obtain d s where t: "t = (d, s)" by (cases t)
  show ?thesis unfolding Some t by (auto simp: events_in_def lookup_created split: option.splits)
qed

lemma created_ids: "co_ids (fst (commands_CreateStream target c)) = co_ids c"
  by (auto simp: commands_CreateStream_def core_ensureDomain_def domain_ensureStream_def put_domain_def Let_def
      split: option.splits)

lemma coordinate_events [simp]: "events_in (c\<lparr>co_ids := i\<rparr>) dn sn = events_in c dn sn"
  by (simp add: events_in_def core_lookup_def)

lemma lookup_coordinate [simp]: "core_lookup dn sn (c\<lparr>co_ids := i\<rparr>) = core_lookup dn sn c"
  by (simp add: core_lookup_def)

lemma appended_lookup:
  assumes "core_lookup d s c = Some st"
  shows "core_lookup dn sn (stream_submit d s i kind body c) =
    (if dn = d \<and> sn = s then Some (st\<lparr>ss_events := ss_events st @ [\<lparr>ev_id = i, ev_kind = kind, ev_body = body\<rparr>]\<rparr>)
     else core_lookup dn sn c)"
  using assms by (auto simp: core_lookup_def stream_submit_def put_domain_def lookup_update' split: option.splits)

lemma appended_ids: "co_ids (stream_submit d s i kind body c) = co_ids c"
  by (auto simp: stream_submit_def put_domain_def split: option.splits)

lemma submit_found_events:
  "(\<forall>dn sn. events_in (fst (submit_found target i kind body c)) dn sn = events_in c dn sn)
   \<or> (\<exists>d s. \<forall>dn sn. events_in (fst (submit_found target i kind body c)) dn sn =
        events_in c dn sn @ (if dn = d \<and> sn = s then [\<lparr>ev_id = i, ev_kind = kind, ev_body = body\<rparr>] else []))"
proof (cases "\<exists>d s st. target = Some (d, s) \<and> core_lookup d s c = Some st")
  case True
  then obtain d s st where t: "target = Some (d, s)" and l: "core_lookup d s c = Some st" by blast
  have "\<forall>dn sn. events_in (fst (submit_found target i kind body c)) dn sn =
        events_in c dn sn @ (if dn = d \<and> sn = s then [\<lparr>ev_id = i, ev_kind = kind, ev_body = body\<rparr>] else [])"
    by (auto simp: submit_found_def t l events_in_def appended_lookup[OF l])
  then show ?thesis by blast
next
  case False
  then show ?thesis by (auto simp: submit_found_def split: option.splits)
qed

lemma submit_found_ids: "co_ids (fst (submit_found target i kind body c)) = co_ids c"
  by (auto simp: submit_found_def appended_ids split: option.splits)

lemma section_ok:
  assumes "sections_ok st"
  shows "sections_ok (run_section x st)"
proof -
  obtain c p where st: "st = (c, p)" by (cases st)
  show ?thesis
  proof (cases x)
    case (CreateSection target)
    then show ?thesis using assms by (simp add: st sections_ok_def created_events created_ids)
  next
    case (CoordinateSection k)
    then show ?thesis
      using assms by (auto simp: st sections_ok_def coordinate_def Let_def; fastforce)
  next
    case (AppendSection k target kind body)
    show ?thesis
    proof (cases "p k")
      case None
      then show ?thesis using assms AppendSection by (simp add: st)
    next
      case (Some i)
      let ?c = "fst (submit_found target i kind body c)"
      from submit_found_events[of target i kind body c] show ?thesis
      proof
        assume "\<forall>dn sn. events_in ?c dn sn = events_in c dn sn"
        then show ?thesis
          using assms by (simp add: AppendSection st Some sections_ok_def submit_found_ids)
      next
        assume "\<exists>d s. \<forall>dn sn. events_in ?c dn sn =
          events_in c dn sn @ (if dn = d \<and> sn = s then [\<lparr>ev_id = i, ev_kind = kind, ev_body = body\<rparr>] else [])"
        then obtain d s where ev: "\<And>dn sn. events_in ?c dn sn =
          events_in c dn sn @ (if dn = d \<and> sn = s then [\<lparr>ev_id = i, ev_kind = kind, ev_body = body\<rparr>] else [])" by blast
        have new: "e \<in> set (events_in c dn sn) \<Longrightarrow> ev_id e \<noteq> i" for e dn sn
          using assms Some by (auto simp: st sections_ok_def Let_def)
        show ?thesis
          using assms Some new by (auto simp: AppendSection st sections_ok_def submit_found_ids ev Let_def; metis)
      qed
    qed
  qed
qed

text \<open>One call at a time runs both sections in turn.\<close>

lemma sections_of_one_call:
  assumes "p k = None"
  shows "run_section (AppendSection k target kind body) (run_section (CoordinateSection k) (c, p)) =
    (fst (commands_Submit target kind body c), p)"
  using assms by (auto simp: coordinate_def commands_Submit_def fun_upd_idem)

text \<open>
  Identifiers are unique over all streams of the store, however concurrent calls interleave.
\<close>

theorem service_ids_unique:
  "let c = fst (run_sections ss)
   in e \<in> set (events_in c dn sn) \<longrightarrow> e' \<in> set (events_in c dn' sn') \<longrightarrow> ev_id e = ev_id e'
        \<longrightarrow> dn = dn' \<and> sn = sn' \<and> e = e'"
proof -
  have "sections_ok (fold run_section ss st)" if "sections_ok st" for st
    using that by (induction ss arbitrary: st) (simp_all add: section_ok)
  moreover have "sections_ok (New, \<lambda>_. None)"
    by (simp add: sections_ok_def New_def events_in_def core_lookup_def)
  ultimately have ok: "sections_ok (run_sections ss)" by (simp add: run_sections_def)
  then have "\<And>dn sn. distinct (map ev_id (events_in (fst (run_sections ss)) dn sn))" by (simp add: sections_ok_def Let_def)
  with ok show ?thesis unfolding sections_ok_def Let_def by (metis distinct_map inj_onD)
qed

text \<open>
  The order of the events of a stream is not the order of their identifiers when the second section of one call comes
  before that of an earlier one.
\<close>

lemma service_ids_out_of_order:
  "map ev_id (events_in (fst (run_sections [CreateSection (Some (''d'', ''s'')), CoordinateSection 0, CoordinateSection 1,
      AppendSection 1 (Some (''d'', ''s'')) ''k'' None, AppendSection 0 (Some (''d'', ''s'')) ''k'' None])) ''d'' ''s'') = [2, 1]"
  by (simp add: run_sections_def coordinate_def New_def submit_found_def events_in_def lookup_created appended_lookup created_ids
      core_lookup_def [of _ _ "\<lparr>co_domains = Mapping.empty, co_ids = _\<rparr>"])

text \<open>A query returns what was submitted to the stream, in order, with the operation it was asked for.\<close>

lemma send_each:
  assumes "\<And>m. send m = None"
  shows "for_each (\<lambda>e. send_out send (f e)) es sent = (sent @ map f es, Ok ())"
  by (induction es arbitrary: sent) (simp_all add: send_out_def assms)

theorem service_query_returns_events:
  assumes "\<And>m. send m = None" "qi_onEach q = Some op" "core_lookup (qi_domain q) (qi_stream q) c \<noteq> None"
  shows "queryService_Query send q c =
    (map (\<lambda>e. \<lparr>so_op = op, so_id = ev_id e, so_envelope = None, so_body = ev_body e\<rparr>) (events_in c (qi_domain q) (qi_stream q)), Ok ())"
  using assms by (auto simp: queryService_Query_def ValidateQuery_def events_in_def send_each)

text \<open>A query with clauses but without \<open>OnEach\<close> panics as soon as the stream has an event.\<close>

lemma service_query_without_each_panics:
  assumes "qi_onEach q = None" "qi_onKind q \<noteq> []" "events_in c (qi_domain q) (qi_stream q) \<noteq> []"
  shows "queryService_Query send q c = ([], Panic ''nil pointer dereference'')"
  using assms by (cases "events_in c (qi_domain q) (qi_stream q)")
    (auto simp: queryService_Query_def ValidateQuery_def events_in_def split: option.splits)

subsection \<open>Bytes as JSON\<close>

definition b64_char :: "nat \<Rightarrow> char" where
  "b64_char n =
     (if n < 26 then char_of (65 + n)
      else if n < 52 then char_of (71 + n)
      else if n < 62 then char_of (n - 4)
      else if n = 62 then CHR ''+'' else CHR ''/'')"

definition b64_value :: "char \<Rightarrow> nat option" where
  "b64_value ch =
     (let k = of_char ch in
      if 65 \<le> k \<and> k < 91 then Some (k - 65)
      else if 97 \<le> k \<and> k < 123 then Some (k - 71)
      else if 48 \<le> k \<and> k < 58 then Some (k + 4)
      else if ch = CHR ''+'' then Some 62
      else if ch = CHR ''/'' then Some 63 else None)"

fun b64_encode :: "nat list \<Rightarrow> string" where
  "b64_encode [] = []"
| "b64_encode [a] = [b64_char (a div 4), b64_char (a mod 4 * 16), CHR ''='', CHR ''='']"
| "b64_encode [a, b] =
     [b64_char (a div 4), b64_char (a mod 4 * 16 + b div 16), b64_char (b mod 16 * 4), CHR ''='']"
| "b64_encode (a # b # c # r) =
     b64_char (a div 4) # b64_char (a mod 4 * 16 + b div 16) # b64_char (b mod 16 * 4 + c div 64) # b64_char (c mod 64) # b64_encode r"

text \<open>
  The standard decoder: what is left over in the bits of a last, padded group is ignored, and nothing may follow it.
\<close>

fun b64_decode :: "string \<Rightarrow> nat list option" where
  "b64_decode [] = Some []"
| "b64_decode (p # q # r # s # rest) =
     (case (b64_value p, b64_value q) of
        (Some w, Some x) \<Rightarrow>
          (if r = CHR ''='' \<and> s = CHR ''='' \<and> rest = [] then Some [w * 4 + x div 16]
           else case b64_value r of
             None \<Rightarrow> None
           | Some y \<Rightarrow>
               (if s = CHR ''='' \<and> rest = [] then Some [w * 4 + x div 16, x mod 16 * 16 + y div 4]
                else case (b64_value s, b64_decode rest) of
                  (Some z, Some bs) \<Rightarrow> Some ((w * 4 + x div 16) # (x mod 16 * 16 + y div 4) # (y mod 4 * 64 + z) # bs)
                | _ \<Rightarrow> None))
      | _ \<Rightarrow> None)"
| "b64_decode _ = None"

text \<open>\<open>json.Marshal\<close> and \<open>json.Unmarshal\<close> of a slice of bytes. The decoder skips line breaks.\<close>

definition marshal_bytes :: "bytes \<Rightarrow> json" where
  "marshal_bytes b = (case b of None \<Rightarrow> JNull | Some ws \<Rightarrow> JStr (b64_encode (map unat ws)))"

definition byte_of_json :: "json \<Rightarrow> 8 word outcome" where
  "byte_of_json j =
     (case j of
        JNum n \<Rightarrow> (if 0 \<le> n \<and> n < 256 then Ok (word_of_int n) else Err (DriverError ''json''))
      | JNull \<Rightarrow> Ok 0
      | _ \<Rightarrow> Err (DriverError ''json''))"

definition unmarshal_bytes :: "json \<Rightarrow> bytes outcome" where
  "unmarshal_bytes j =
     (case j of
        JNull \<Rightarrow> Ok None
      | JStr s \<Rightarrow>
          (case b64_decode (filter (\<lambda>ch. of_char ch \<noteq> (10::nat) \<and> of_char ch \<noteq> (13::nat)) s) of
             None \<Rightarrow> Err (DriverError ''json'')
           | Some bs \<Rightarrow> Ok (Some (map of_nat bs)))
      | JArr js \<Rightarrow> bindo (traverse byte_of_json js) (\<lambda>ws. Ok (Some ws))
      | _ \<Rightarrow> Err (DriverError ''json''))"

lemma b64_value_char [simp]: "n < 64 \<Longrightarrow> b64_value (b64_char n) = Some n"
  by (auto simp: b64_value_def b64_char_def Let_def of_char_of)

lemma b64_char_plain [simp]:
  assumes "n < 64"
  shows "b64_char n \<noteq> CHR ''=''" "of_char (b64_char n) \<noteq> (10::nat)" "of_char (b64_char n) \<noteq> (13::nat)"
proof -
  show "b64_char n \<noteq> CHR ''=''" using b64_value_char[OF assms] by (auto simp: b64_value_def Let_def)
  show "of_char (b64_char n) \<noteq> (10::nat)" "of_char (b64_char n) \<noteq> (13::nat)"
    using assms by (auto simp: b64_char_def of_char_of)
qed

lemma sextets:
  fixes a b c :: nat
  assumes "a < 256" "b < 256" "c < 256"
  shows "a div 4 < 64" "a mod 4 * 16 + b div 16 < 64" "b mod 16 * 4 + c div 64 < 64" "c mod 64 < 64"
    "b div 16 < 16" "c div 64 < 4"
proof -
  show q: "b div 16 < 16" "c div 64 < 4" "a div 4 < 64" using assms by simp_all
  have "a mod 4 < 4" "b mod 16 < 16" by simp_all
  with q show "a mod 4 * 16 + b div 16 < 64" "b mod 16 * 4 + c div 64 < 64" by linarith+
qed simp

lemma b64_decode_encode: "list_all (\<lambda>a. a < 256) bs \<Longrightarrow> b64_decode (b64_encode bs) = Some bs"
proof (induction bs rule: b64_encode.induct)
  case (2 a)
  then show ?case using sextets[of a 0 0] by simp
next
  case (3 a b)
  then show ?case using sextets[of a b 0] by simp
next
  case (4 a b c r)
  then show ?case using sextets[of a b c] by simp
qed simp

lemma b64_encode_one_line:
  "list_all (\<lambda>a. a < 256) bs \<Longrightarrow> filter (\<lambda>ch. of_char ch \<noteq> (10::nat) \<and> of_char ch \<noteq> (13::nat)) (b64_encode bs) = b64_encode bs"
proof (induction bs rule: b64_encode.induct)
  case (2 a)
  then show ?case using sextets[of a 0 0] by simp
next
  case (3 a b)
  then show ?case using sextets[of a b 0] by simp
next
  case (4 a b c r)
  then show ?case using sextets[of a b c] by simp
qed simp

lemma unmarshal_marshal_bytes [simp]: "unmarshal_bytes (marshal_bytes b) = Ok b"
proof (cases b)
  case (Some ws)
  have "list_all (\<lambda>a. a < 256) (map unat ws)" by (auto simp: list_all_iff intro: less_le_trans[OF unsigned_less])
  then show ?thesis
    by (simp add: Some marshal_bytes_def unmarshal_bytes_def b64_decode_encode b64_encode_one_line comp_def)
qed (simp add: marshal_bytes_def unmarshal_bytes_def)

subsection \<open>The services in front of a transport\<close>

record 's QueryTransport = "'s Transport" +
  tp_QueryBatchR2 :: "string \<Rightarrow> string \<Rightarrow> WireBatchR2Request \<Rightarrow> 's \<Rightarrow> WireBatchR2Dispatch list outcome"

text \<open>The answer is always that the stream did not exist.\<close>

definition V1CommandService_CreateStream ::
  "('s, 'e) Transport_scheme \<Rightarrow> (string \<times> string) option \<Rightarrow> 's \<Rightarrow> 's \<times> bool outcome" where
  "V1CommandService_CreateStream T target s =
     (case target of
        None \<Rightarrow> (s, Err (StatusError ''InvalidArgument'' ''nil''))
      | Some (dn, sn) \<Rightarrow> (case tp_EnsureStream T dn sn s of (s1, r) \<Rightarrow> (s1, bindo r (\<lambda>_. Ok False))))"

definition V1CommandService_Submit ::
  "('s, 'e) Transport_scheme \<Rightarrow> (string \<times> string) option \<Rightarrow> string \<Rightarrow> bytes \<Rightarrow> 's \<Rightarrow> 's \<times> int64 outcome" where
  "V1CommandService_Submit T target kind body s =
     (case target of
        None \<Rightarrow> (s, Panic ''nil pointer dereference'')
      | Some (dn, sn) \<Rightarrow>
          (case tp_Submit T dn sn kind (Ok (marshal_bytes body)) [] s of (s1, r) \<Rightarrow> (s1, bindo r (\<lambda>n. Ok (sub_id n)))))"

definition V1QueryService_Get ::
  "('s, 'e) Transport_scheme \<Rightarrow> (string \<times> string) option \<Rightarrow> int64 \<Rightarrow> 's \<Rightarrow> bytes outcome" where
  "V1QueryService_Get T target i s =
     (case target of
        None \<Rightarrow> Panic ''nil pointer dereference''
      | Some (dn, sn) \<Rightarrow>
          bindo (tp_GetEvent T dn sn i s) (\<lambda>raw. case raw of None \<Rightarrow> Ok None | Some j \<Rightarrow> unmarshal_bytes j))"

record ProxyOut =
  po_op :: int64
  po_id :: int64
  po_kind :: string
  po_body :: raw_message

text \<open>
  \<open>nextID\<close> stays 0: every clause gets the operation 0, and the map of operations keeps what the last clause put there.
\<close>

definition proxy_clause :: "OnKindClause \<Rightarrow> (int, int64) mapping \<times> WireBatchR2KindQuery list
    \<Rightarrow> ((int, int64) mapping \<times> WireBatchR2KindQuery list) \<times> unit outcome" where
  "proxy_clause onKind acc =
     (case okc_allOp onKind of
        None \<Rightarrow> (acc, Panic ''nil pointer dereference'')
      | Some op \<Rightarrow>
          ((Mapping.update 0 op (fst acc), snd acc @ [\<lparr>wbk_kind = okc_kind onKind, wbk_all = Some 0, wbk_match = []\<rparr>]), Ok ()))"

definition V1QueryService_Query ::
  "'s QueryTransport \<Rightarrow> (ProxyOut \<Rightarrow> goerror option) \<Rightarrow> QueryIn \<Rightarrow> 's \<Rightarrow> ProxyOut list \<times> unit outcome" where
  "V1QueryService_Query T send q s =
     (case for_each proxy_clause (qi_onKind q) (Mapping.empty, []) of
        (_, Err e) \<Rightarrow> ([], Err e)
      | (_, Panic p) \<Rightarrow> ([], Panic p)
      | ((mappedIDs, kinds), Ok _) \<Rightarrow>
          (case tp_QueryBatchR2 T (qi_domain q) (qi_stream q) \<lparr>wbr_onKinds = kinds, wbr_onID = [], wbr_afterID = None\<rparr> s of
             Err e \<Rightarrow> ([], Err e)
           | Panic p \<Rightarrow> ([], Panic p)
           | Ok results \<Rightarrow>
               for_each (\<lambda>result.
                   send_out send
                     \<lparr>po_op = (case Mapping.lookup mappedIDs (wbd_op result) of None \<Rightarrow> 0 | Some op \<Rightarrow> op),
                      po_id = env_id (wbd_envelope result), po_kind = env_kind (wbd_envelope result), po_body = wbd_event result\<rparr>)
                 results []))"

definition memory_query_transport :: "json_compare \<Rightarrow> gojq_parser \<Rightarrow> time \<Rightarrow> memory QueryTransport" where
  "memory_query_transport compare gojq now =
     Transport.extend (memory_transport compare gojq now)
       \<lparr>tp_QueryBatchR2 = (\<lambda>domain stream query m.
          case mem_QueryBatchR2 compare (\<lambda>_. None) None domain stream query [] m of
            (out, Ok _) \<Rightarrow> Ok out | (_, Err e) \<Rightarrow> Err e | (_, Panic p) \<Rightarrow> Panic p)\<rparr>"

text \<open>
  Bytes submitted through the proxy are read back unchanged under the identifier that was returned, though the stored
  event is a string.
\<close>

theorem proxy_returns_submitted_bytes:
  assumes "find_stream dn sn m \<noteq> None"
  shows "case V1CommandService_Submit (memory_transport compare gojq now) (Some (dn, sn)) kind body m of
           (m1, r) \<Rightarrow> r = Ok (int (length (stream_log dn sn m)))
             \<and> stream_log dn sn m1 = stream_log dn sn m @ [(now, kind, marshal_bytes body)]
             \<and> V1QueryService_Get (memory_transport compare gojq now) (Some (dn, sn)) (int (length (stream_log dn sn m))) m1 = Ok body"
proof -
  obtain st where st: "find_stream dn sn m = Some st" using assms by blast
  let ?r = "Submit (\<lambda>_. None) None now dn sn kind (Ok (marshal_bytes body)) [] m"
  have res: "snd ?r = Ok \<lparr>sub_id = int (length (stream_log dn sn m))\<rparr>"
    by (simp add: Submit_def submit_command_def Let_def st stream_log_def)
  have log: "stream_log dn sn (fst ?r) = stream_log dn sn m @ [(now, kind, marshal_bytes body)]"
    by (subst Submit_log) (simp_all add: st)
  have keeps: "find_stream dn sn (fst ?r) \<noteq> None" using assms by (simp add: Submit_keeps_streams)
  show ?thesis
    using res log keeps
    by (auto simp: V1CommandService_Submit_def V1QueryService_Get_def memory_transport_def GetEvent_log split: prod.split)
qed

text \<open>However many clauses a query has, every message carries the operation of the last one.\<close>

lemma proxy_clauses:
  assumes "list_all (\<lambda>k. okc_allOp k \<noteq> None) ks"
  shows "for_each proxy_clause ks (ids, kinds) =
    ((if ks = [] then ids else Mapping.update 0 (the (okc_allOp (last ks))) ids,
      kinds @ map (\<lambda>k. \<lparr>wbk_kind = okc_kind k, wbk_all = Some 0, wbk_match = []\<rparr>) ks), Ok ())"
  using assms
proof (induction ks arbitrary: ids kinds)
  case (Cons k ks)
  then obtain op where op: "okc_allOp k = Some op" by auto
  have "Mapping.update 0 x (Mapping.update 0 op ids) = Mapping.update 0 x ids" for x :: int64
    by (rule mapping_eqI) (simp add: lookup_update')
  with Cons op show ?case by (auto simp: proxy_clause_def)
qed simp

theorem proxy_query_answers_with_last_operation:
  assumes "\<And>m. send m = None" "list_all (\<lambda>k. okc_allOp k \<noteq> None) (qi_onKind q)" "find_stream (qi_domain q) (qi_stream q) m \<noteq> None"
    and "msg \<in> set (fst (V1QueryService_Query (memory_query_transport compare gojq now) send q m))"
  shows "okc_allOp (last (qi_onKind q)) = Some (po_op msg)"
proof -
  let ?kinds = "map (\<lambda>k. \<lparr>wbk_kind = okc_kind k, wbk_all = Some 0, wbk_match = []\<rparr>) (qi_onKind q)"
  let ?req = "\<lparr>wbr_onKinds = ?kinds, wbr_onID = [], wbr_afterID = None\<rparr>"
  have ops: "op \<in> set (r2_dispatches compare ?req e body) \<Longrightarrow> op = 0 \<and> qi_onKind q \<noteq> []" for op e body
    by (auto simp: r2_dispatches_def split: if_splits)
  have each: "for_each (\<lambda>r. send_out send (g r)) rs [] = (map g rs, Ok ())" for g :: "WireBatchR2Dispatch \<Rightarrow> ProxyOut" and rs
    using send_each[of send g rs "[]"] assms(1) by simp
  from assms(4) ops have "po_op msg = the (okc_allOp (last (qi_onKind q))) \<and> qi_onKind q \<noteq> []"
    by (auto simp: V1QueryService_Query_def proxy_clauses[OF assms(2)] memory_query_transport_def Transport.defs
        mem_QueryBatchR2_eq[OF assms(3)] each lookup_update' split: if_splits; blast)
  with assms(2) show ?thesis by (auto simp: list_all_iff)
qed

end
