(* ===== verification/ClientConfig.thy ===== *)
theory ClientConfig
  imports StreamClient
begin

text \<open>
  How a client comes to a system: \<open>src/pkg/v1/config.go\<close>, and the commands of the command line client
  (\<open>src/cmd/pgcqrs/main.go\<close>) that run on it.

  \<^item> \<open>envOrDefault\<close> is the library function of this name: the value of an environment variable, or a default. \<open>dial\<close> is the
    error of \<open>NewGRPCTransport\<close>, if any. \<open>SystemFromConfig\<close> returns which transport the system runs on.
  \<^item> The output of a command is a list of \<open>cli_line\<close>s. Parsing flags and arguments is left to the library cobra; a
    command gets their values. \<open>T\<close> gives the methods of a transport.
\<close>

subsection \<open>Configuration\<close>

record Config =
  cfg_transportType :: string
  cfg_serviceURL :: string

definition NewConfig :: Config where
  "NewConfig = \<lparr>cfg_transportType = ''http'', cfg_serviceURL = ''http://localhost:9000''\<rparr>"

definition LoadEnvWithPrefix :: "(string \<Rightarrow> string \<Rightarrow> string) \<Rightarrow> string \<Rightarrow> Config \<Rightarrow> Config" where
  "LoadEnvWithPrefix envOrDefault pre c =
     \<lparr>cfg_transportType = envOrDefault (pre @ ''PGCQRS_SERVICE_TRANSPORT'') (cfg_transportType c),
      cfg_serviceURL = envOrDefault (pre @ ''PGCQRS_SERVICE_URL'') (cfg_serviceURL c)\<rparr>"

definition LoadEnv :: "(string \<Rightarrow> string \<Rightarrow> string) \<Rightarrow> Config \<Rightarrow> Config" where
  "LoadEnv envOrDefault = LoadEnvWithPrefix envOrDefault ''''"

datatype physical =
    MemoryPhysical
  | HTTPPhysical string
  | GRPCPhysical string

definition SystemFromConfig :: "(string \<Rightarrow> goerror option) \<Rightarrow> Config \<Rightarrow> physical outcome" where
  "SystemFromConfig dial c =
     (let t = cfg_transportType c in
      if t = ''memory'' then Ok MemoryPhysical
      else if t = ''http'' then Ok (HTTPPhysical (cfg_serviceURL c))
      else if t = '''' then Ok (HTTPPhysical (cfg_serviceURL c))
      else if t = ''grpc'' then
        (case dial (cfg_serviceURL c) of Some e \<Rightarrow> Err e | None \<Rightarrow> Ok (GRPCPhysical (cfg_serviceURL c)))
      else Err (TextError (''Unknown transport type '' @ t)))"

record StreamConfig =
  sc_application :: string
  sc_stream :: string

definition StreamConfig_Connect :: "'s Transport \<Rightarrow> StreamConfig \<Rightarrow> 's \<Rightarrow> 's \<times> Stream outcome" where
  "StreamConfig_Connect T c = System_Stream T (sc_application c) (sc_stream c)"

definition StreamConfig_MustConnect :: "'s Transport \<Rightarrow> StreamConfig \<Rightarrow> 's \<Rightarrow> 's \<times> Stream outcome" where
  "StreamConfig_MustConnect T c s = (case StreamConfig_Connect T c s of (s1, r) \<Rightarrow> (s1, must r))"

subsection \<open>The command line client\<close>

datatype cli_line =
    NoRecords string string
  | RecordLine int64 string when_text raw_message
  | StreamLine string string
  | DomainLine string

definition cli_config :: "string \<Rightarrow> Config" where
  "cli_config host = \<lparr>cfg_transportType = ''http'', cfg_serviceURL = host\<rparr>"

definition configureStream ::
  "(string \<Rightarrow> goerror option) \<Rightarrow> (physical \<Rightarrow> 's Transport) \<Rightarrow> string \<Rightarrow> string \<Rightarrow> string \<Rightarrow> 's \<Rightarrow> 's \<times> Stream outcome" where
  "configureStream dial T host app stream s =
     (case SystemFromConfig dial (cli_config host) of
        Ok p \<Rightarrow> System_Stream (T p) app stream s
      | Err e \<Rightarrow> (s, Err e)
      | Panic p \<Rightarrow> (s, Panic p))"

definition print_all :: "'s Transport \<Rightarrow> Stream \<Rightarrow> string \<Rightarrow> string \<Rightarrow> 's \<Rightarrow> cli_line list \<times> unit outcome" where
  "print_all T st app stream s =
     (case Stream_All T st s of
        Err e \<Rightarrow> ([], Err e)
      | Panic p \<Rightarrow> ([], Panic p)
      | Ok envelopes \<Rightarrow>
          (if envelopes = [] then ([NoRecords app stream], Ok ())
           else for_each (\<lambda>e out.
                  case Stream_Get T st (env_id e) s of
                    Err err \<Rightarrow> (out, Err err)
                  | Panic p \<Rightarrow> (out, Panic p)
                  | Ok doc \<Rightarrow> (out @ [RecordLine (env_id e) (env_kind e) (env_when e) doc], Ok ())) envelopes []))"

definition cli_query_all ::
  "(string \<Rightarrow> goerror option) \<Rightarrow> (physical \<Rightarrow> 's Transport) \<Rightarrow> string \<Rightarrow> string \<Rightarrow> string \<Rightarrow> 's
     \<Rightarrow> 's \<times> cli_line list \<times> unit outcome" where
  "cli_query_all dial T host app stream s =
     (case configureStream dial T host app stream s of
        (s1, Err e) \<Rightarrow> (s1, [], Err e)
      | (s1, Panic p) \<Rightarrow> (s1, [], Panic p)
      | (s1, Ok st) \<Rightarrow> (s1, print_all (T (HTTPPhysical host)) st app stream s1))"

definition kind_query :: "string \<Rightarrow> raw_message list \<Rightarrow> cli_line list QueryBuilder" where
  "kind_query kind args =
     WithKind kind (\<lambda>k. On (\<lambda>e rawJSON out. (out @ [RecordLine (env_id e) (env_kind e) (env_when e) rawJSON], Ok ()))
       (if args \<noteq> [] then MatchDocument (hd args) k else k)) Stream_Query"

definition cli_query_kind ::
  "(string \<Rightarrow> goerror option) \<Rightarrow> (physical \<Rightarrow> 's Transport) \<Rightarrow> string \<Rightarrow> string \<Rightarrow> string \<Rightarrow> string \<Rightarrow> raw_message list \<Rightarrow> 's
     \<Rightarrow> 's \<times> cli_line list \<times> unit outcome" where
  "cli_query_kind dial T host app stream kind args s =
     (case configureStream dial T host app stream s of
        (s1, Err e) \<Rightarrow> (s1, [], Err e)
      | (s1, Panic p) \<Rightarrow> (s1, [], Panic p)
      | (s1, Ok st) \<Rightarrow> (s1, QueryBuilder_Stream (T (HTTPPhysical host)) st [kind] (kind_query kind args) s1 []))"

definition cli_streams_list ::
  "(string \<Rightarrow> goerror option) \<Rightarrow> (physical \<Rightarrow> 's Transport) \<Rightarrow> string \<Rightarrow> 's \<Rightarrow> cli_line list outcome" where
  "cli_streams_list dial T host s =
     bindo (SystemFromConfig dial (cli_config host)) (\<lambda>p.
     bindo (System_ListStreams (T p) s) (\<lambda>pairs. Ok (map (\<lambda>(d, st). StreamLine d st) pairs)))"

definition cli_apps_list ::
  "(string \<Rightarrow> goerror option) \<Rightarrow> (physical \<Rightarrow> 's Transport) \<Rightarrow> string \<Rightarrow> 's \<Rightarrow> cli_line list outcome" where
  "cli_apps_list dial T host s =
     bindo (SystemFromConfig dial (cli_config host)) (\<lambda>p.
     bindo (ListDomains (T p) s) (\<lambda>domains. Ok (map DomainLine domains)))"

subsection \<open>Lemmas\<close>

text \<open>A prefix of variables that are not set leaves the defaults, and they reach the service over HTTP.\<close>

lemma unset_environment_is_http:
  assumes "\<And>name. envOrDefault name = (\<lambda>d. d)"
  shows "SystemFromConfig dial (LoadEnvWithPrefix envOrDefault pre NewConfig) = Ok (HTTPPhysical ''http://localhost:9000'')"
  by (simp add: LoadEnvWithPrefix_def NewConfig_def SystemFromConfig_def assms)

text \<open>Only the gRPC transport can fail to be made, and an unknown type is refused.\<close>

lemma SystemFromConfig_cases:
  "SystemFromConfig dial c \<noteq> Panic p"
  "cfg_transportType c \<in> {''memory'', ''http'', ''''} \<Longrightarrow> is_ok (SystemFromConfig dial c)"
  "is_ok (SystemFromConfig dial c) \<Longrightarrow> cfg_transportType c \<in> {''memory'', ''http'', '''', ''grpc''}"
  by (auto simp: SystemFromConfig_def Let_def split: option.splits if_splits)

lemma configureStream_eq: "configureStream dial T host app stream = System_Stream (T (HTTPPhysical host)) app stream"
  by (rule ext) (simp add: configureStream_def SystemFromConfig_def cli_config_def)

text \<open>\<open>query all\<close> prints every event of the stream, in order, with the identifier, kind, time and body it was stored with.\<close>

lemma print_all_memory:
  assumes "find_stream d s m \<noteq> None"
  shows "print_all (memory_transport compare gojq now) \<lparr>st_domain = d, st_stream = s\<rparr> app stream m =
    (let log = stream_log d s m
     in (if log = [] then [NoRecords app stream]
         else map (\<lambda>n. RecordLine (int n) (fst (snd (log ! n))) (FormatEnvelopeWhen (fst (log ! n))) (Some (log_body log n)))
                [0..<length log], Ok ()))"
proof -
  let ?log = "stream_log d s m"
  have "for_each (\<lambda>e out.
          case snd (GetEvent None d s (env_id e) m) of
            Err err \<Rightarrow> (out, Err err)
          | Panic p \<Rightarrow> (out, Panic p)
          | Ok doc \<Rightarrow> (out @ [RecordLine (env_id e) (env_kind e) (env_when e) doc], Ok ()))
        (map (log_envelope ?log) ns) out =
      (out @ map (\<lambda>n. RecordLine (int n) (fst (snd (?log ! n))) (FormatEnvelopeWhen (fst (?log ! n))) (Some (log_body ?log n))) ns, Ok ())"
    if "set ns \<subseteq> {0..<length ?log}" for ns out
    using that assms
    by (induction ns arbitrary: out) (auto simp: GetEvent_log log_envelope_def log_body_def)
  from this[of "[0..<length ?log]" "[]"] show ?thesis
    using assms by (simp add: print_all_def Stream_All_def Stream_Get_def memory_transport_def AllEnvelopes_map Let_def)
qed

end
